(* ===== verification/Prelude.thy ===== *)
theory Prelude
  imports Main "HOL-Library.Word"
begin

text \<open>
  Shared vocabulary of the development: the ways a C++ call of the engine can fail, the
  outcome type and its sequencing, loops with effects, assertions, and the reachability
  of a step relation together with the interface every invariant proof goes through.
\<close>

section \<open>Failures and outcomes\<close>

text \<open>
  A call either returns or ends abnormally: a failed \<^verbatim>\<open>assert\<close>, an
  \<^verbatim>\<open>abort()\<close>, an exception that leaves the call, a second lock of a
  non-recursive mutex by the thread that holds it, a loop inside the call that never ends,
  or an operation with undefined behaviour (a dangling pointer, an index out of range, a
  remainder by zero).
\<close>

datatype failure =
    AssertFailed
  | Aborted
  | OutOfRange
  | InvalidArgument
  | SelfDeadlock
  | Unending
  | Undefined

type_synonym 'a outcome = "failure + 'a"

definition returns :: "'a outcome \<Rightarrow> bool" where
  "returns r \<longleftrightarrow> (case r of Inl _ \<Rightarrow> False | Inr _ \<Rightarrow> True)"

definition obind :: "'a outcome \<Rightarrow> ('a \<Rightarrow> 'b outcome) \<Rightarrow> 'b outcome" where
  "obind m f = (case m of Inl e \<Rightarrow> Inl e | Inr x \<Rightarrow> f x)"

text \<open>A \<^verbatim>\<open>for\<close> loop over a vector whose body may fail.\<close>

primrec ofold :: "('a \<Rightarrow> 's \<Rightarrow> 's outcome) \<Rightarrow> 'a list \<Rightarrow> 's \<Rightarrow> 's outcome" where
  "ofold f [] s = Inr s"
| "ofold f (x # xs) s = obind (f x s) (ofold f xs)"

text \<open>
  \<^verbatim>\<open>assert(P)\<close>: checked unless the program is compiled with
  \<^verbatim>\<open>NDEBUG\<close>, the first argument.
\<close>

definition cpp_assert :: "bool \<Rightarrow> bool \<Rightarrow> 's \<Rightarrow> 's outcome" where
  "cpp_assert ndebug P s = (if ndebug \<or> P then Inr s else Inl AssertFailed)"

named_theorems outcome_simps
named_theorems outcome_elims

lemma obind_simps [simp, outcome_simps]:
  "obind (Inl e) f = Inl e"
  "obind (Inr x) f = f x"
  by (simp_all add: obind_def)

lemma obind_Inr_iff [outcome_simps]:
  "obind m f = Inr y \<longleftrightarrow> (\<exists>x. m = Inr x \<and> f x = Inr y)"
  by (cases m) auto

lemma obind_InrE [outcome_elims]:
  assumes "obind m f = Inr y"
  obtains x where "m = Inr x" and "f x = Inr y"
  using assms by (cases m) auto

lemma obind_return [simp]: "obind m Inr = m"
  by (cases m) auto

lemma obind_assoc: "obind (obind m f) g = obind m (\<lambda>x. obind (f x) g)"
  by (cases m) auto

lemma returns_simps [simp]: "returns (Inr x)" "\<not> returns (Inl e)"
  by (simp_all add: returns_def)

lemma returns_iff: "returns r \<longleftrightarrow> (\<exists>x. r = Inr x)"
  by (cases r) auto

lemma ofold_Nil_fun [simp]: "ofold f [] = Inr"
  by (rule ext) simp

lemma ofold_append: "ofold f (xs @ ys) s = obind (ofold f xs s) (ofold f ys)"
  by (induction xs arbitrary: s) (auto simp: obind_def split: sum.splits)

lemma ofold_append_fun: "ofold f (xs @ ys) = (\<lambda>s. obind (ofold f xs s) (ofold f ys))"
  by (rule ext) (rule ofold_append)

lemma ofold_cong [fundef_cong]:
  assumes "xs = ys" "s = t" "\<And>x u. x \<in> set ys \<Longrightarrow> f x u = g x u"
  shows "ofold f xs s = ofold g ys t"
proof -
  have "(\<And>x u. x \<in> set ys \<Longrightarrow> f x u = g x u) \<Longrightarrow> ofold f ys t = ofold g ys t" for t
  proof (induction ys arbitrary: t)
    case (Cons y ys)
    then have "ofold f ys = ofold g ys" by (intro ext) simp
    with Cons.prems show ?case by simp
  qed simp
  with assms show ?thesis by blast
qed

text \<open>The invariant rule of a loop: what every round keeps holds at the end.\<close>

lemma ofold_invariant:
  assumes "ofold f xs s = Inr t" and "I s"
    and "\<And>x u v. x \<in> set xs \<Longrightarrow> I u \<Longrightarrow> f x u = Inr v \<Longrightarrow> I v"
  shows "I t"
  using assms
proof (induction xs arbitrary: s)
  case (Cons x xs)
  then obtain u where "f x s = Inr u" "ofold f xs u = Inr t"
    by (auto elim: outcome_elims)
  with Cons show ?case by (metis list.set_intros)
qed simp

text \<open>A loop whose body returns from every state that satisfies the invariant returns.\<close>

lemma ofold_returns:
  assumes "I s"
    and "\<And>x u. x \<in> set xs \<Longrightarrow> I u \<Longrightarrow> \<exists>v. f x u = Inr v \<and> I v"
  shows "\<exists>t. ofold f xs s = Inr t \<and> I t"
  using assms
proof (induction xs arbitrary: s)
  case (Cons x xs)
  then obtain u where u: "f x s = Inr u" "I u" by fastforce
  with Cons show ?case by simp
qed simp

lemma ofold_pure [simp]: "ofold (\<lambda>x s. Inr (g x s)) xs s = Inr (fold g xs s)"
  by (induction xs arbitrary: s) auto

lemma cpp_assert_simps [simp, outcome_simps]:
  "cpp_assert True P s = Inr s"
  "cpp_assert ndebug True s = Inr s"
  "cpp_assert False False s = Inl AssertFailed"
  by (simp_all add: cpp_assert_def)

lemma cpp_assert_Inr_iff [outcome_simps]:
  "cpp_assert ndebug P s = Inr t \<longleftrightarrow> (ndebug \<or> P) \<and> t = s"
  by (auto simp: cpp_assert_def)

text \<open>
  A \<^verbatim>\<open>while\<close> loop whose body may fail and that may run forever, which is the value
  \<^const>\<open>None\<close>, and what its rounds compute.
\<close>

partial_function (option) owhile :: "('s \<Rightarrow> bool) \<Rightarrow> ('s \<Rightarrow> 's outcome) \<Rightarrow> 's \<Rightarrow> 's outcome option" where
  "owhile c f s =
     (if c s then (case f s of Inl e \<Rightarrow> Some (Inl e) | Inr t \<Rightarrow> owhile c f t) else Some (Inr s))"

lemma owhile_simps [simp]:
  "\<not> c s \<Longrightarrow> owhile c f s = Some (Inr s)"
  "c s \<Longrightarrow> f s = Inl e \<Longrightarrow> owhile c f s = Some (Inl e)"
  "c s \<Longrightarrow> f s = Inr t \<Longrightarrow> owhile c f s = owhile c f t"
  by (simp_all add: owhile.simps)

text \<open>A loop whose test stays true while its rounds return never ends normally.\<close>

lemma owhile_not_returns:
  assumes "owhile c f s = Some r" and "I s"
    and "\<And>s. I s \<Longrightarrow> c s" and "\<And>s t. I s \<Longrightarrow> f s = Inr t \<Longrightarrow> I t"
  shows "\<exists>e. r = Inl e"
  using assms
proof (induction rule: owhile.raw_induct [rotated 1, consumes 1, case_names step])
  case (step loop c f s r)
  have cs: "c s" using step.prems(1,2) by blast
  show ?case
  proof (cases "f s")
    case (Inl e)
    with cs step.hyps show ?thesis by auto
  next
    case (Inr t)
    then have "loop c f t = Some r" "I t" using step.hyps cs step.prems(1,3) by auto
    then show ?thesis using step.IH step.prems(2,3) by blast
  qed
qed

section \<open>Reachability and invariants\<close>

text \<open>States reachable from an initial one by a step relation.\<close>

inductive reach :: "('s \<Rightarrow> bool) \<Rightarrow> ('s \<Rightarrow> 's \<Rightarrow> bool) \<Rightarrow> 's \<Rightarrow> bool"
  for init :: "'s \<Rightarrow> bool" and step :: "'s \<Rightarrow> 's \<Rightarrow> bool" where
  reach_init: "init s \<Longrightarrow> reach init step s"
| reach_step: "reach init step s \<Longrightarrow> step s t \<Longrightarrow> reach init step t"

text \<open>
  The interface between a state machine and the safety proofs about it: a predicate that
  holds at the start and is kept by every step.
\<close>

locale inductive_invariant =
  fixes init :: "'s \<Rightarrow> bool"
    and step :: "'s \<Rightarrow> 's \<Rightarrow> bool"
    and inv :: "'s \<Rightarrow> bool"
  assumes init_inv: "init s \<Longrightarrow> inv s"
    and step_inv: "step s t \<Longrightarrow> inv s \<Longrightarrow> inv t"
begin

lemma reach_inv: "reach init step s \<Longrightarrow> inv s"
  by (induction rule: reach.induct) (auto intro: init_inv step_inv)

lemma steps_inv: "step\<^sup>*\<^sup>* s t \<Longrightarrow> inv s \<Longrightarrow> inv t"
  by (induction rule: rtranclp_induct) (auto intro: step_inv)

end

text \<open>
  The interface between an operation on concrete states and a specification of it: from a
  well-formed state every admissible call returns, keeps the state well formed, and changes
  its abstraction as the specification says. Histories of calls then do the same.
\<close>

locale simulation =
  fixes step :: "'op \<Rightarrow> 's \<Rightarrow> 's outcome"
    and spec :: "'op \<Rightarrow> 'a \<Rightarrow> 'a"
    and ok :: "'op \<Rightarrow> bool"
    and wf :: "'s \<Rightarrow> bool"
    and abs :: "'s \<Rightarrow> 'a"
  assumes step_law: "wf s \<Longrightarrow> ok op \<Longrightarrow> \<exists>t. step op s = Inr t \<and> wf t \<and> abs t = spec op (abs s)"
begin

lemma history_law:
  assumes "wf s" and "\<forall>op \<in> set ops. ok op"
  shows "\<exists>t. ofold step ops s = Inr t \<and> wf t \<and> abs t = fold spec ops (abs s)"
  using assms
proof (induction ops arbitrary: s)
  case (Cons op ops)
  then obtain u where "step op s = Inr u" "wf u" "abs u = spec op (abs s)"
    using step_law [of s op] by auto
  with Cons.IH [of u] Cons.prems show ?case by simp
qed simp

end

section \<open>Machine words\<close>

type_synonym u16 = "16 word"
type_synonym u32 = "32 word"
type_synonym u64 = "64 word"

text \<open>The C++ \<^verbatim>\<open>int\<close>, read with \<^const>\<open>sint\<close>.\<close>

type_synonym cint = "32 word"

lemma sint_cint_range: "- (2 ^ 31) \<le> sint (w :: cint)" "sint (w :: cint) < 2 ^ 31"
  using sint_range_size [of w] by (simp_all add: word_size)

lemma sint_of_int_cint:
  assumes "- (2 ^ 31) \<le> i" and "i < 2 ^ 31"
  shows "sint (word_of_int i :: cint) = i"
  using assms by (simp add: signed_take_bit_int_eq_self sint_sbintrunc')

end
