(* ===== verification/Os.thy ===== *)
theory Os
  imports Prelude
begin

text \<open>
  The interface of the operating system as the network layer calls it. The system is not
  part of the program: it is the parameter \<open>'k os\<close>, one function per system call over
  an abstract kernel state \<open>'k\<close>, and nothing is assumed of it here. What a theorem needs
  of a call's documented behaviour is a named predicate and appears as its hypothesis.
  Pointers are natural numbers: a channel's address travels through the kernel as the
  \<^verbatim>\<open>data.ptr\<close> of an \<^verbatim>\<open>epoll_event\<close>.
\<close>

type_synonym chan_ptr = nat
type_synonym reactor_ptr = nat
type_synonym conn_ptr = nat
type_synonym thread_id = nat

datatype ctl_op = CTL_ADD | CTL_MOD | CTL_DEL

text \<open>The \<^verbatim>\<open>events\<close> mask and the \<^verbatim>\<open>data.ptr\<close> of an \<^verbatim>\<open>epoll_event\<close>.\<close>

type_synonym epoll_event = "u32 \<times> chan_ptr"

record sockaddr =
  sin_addr :: u32
  sin_port :: u16

text \<open>The socket options the program sets, all to 1.\<close>

datatype sockopt = SO_KEEPALIVE | TCP_NODELAY | SO_REUSEADDR | SO_REUSEPORT

text \<open>
  The calls. \<^verbatim>\<open>epoll_wait\<close> gives \<^const>\<open>None\<close> for an error; \<^verbatim>\<open>read\<close> gives the result and
  the bytes now in the caller's buffer; \<^verbatim>\<open>getsockopt\<close> of \<^verbatim>\<open>SO_ERROR\<close> the result and the
  error. Flags that the program passes as constants are part of the call.
\<close>

record 'k os =
  sys_epoll_create1 :: "'k \<Rightarrow> int \<times> 'k"
  sys_epoll_ctl :: "int \<Rightarrow> ctl_op \<Rightarrow> int \<Rightarrow> epoll_event \<Rightarrow> 'k \<Rightarrow> int \<times> 'k"
  sys_epoll_wait :: "int \<Rightarrow> nat \<Rightarrow> int \<Rightarrow> 'k \<Rightarrow> epoll_event list option \<times> 'k"
  sys_select :: "int \<Rightarrow> int list \<Rightarrow> int list \<Rightarrow> int list \<Rightarrow> (int \<times> int) option \<Rightarrow> 'k \<Rightarrow>
     (int \<times> int list \<times> int list \<times> int list) \<times> 'k"
  sys_eventfd :: "'k \<Rightarrow> int \<times> 'k"
  sys_read :: "int \<Rightarrow> nat \<Rightarrow> 'k \<Rightarrow> (int \<times> string) \<times> 'k"
  sys_write :: "int \<Rightarrow> string \<Rightarrow> 'k \<Rightarrow> int \<times> 'k"
  sys_close :: "int \<Rightarrow> 'k \<Rightarrow> 'k"
  sys_errno :: "'k \<Rightarrow> int"
  sys_time :: "'k \<Rightarrow> int \<times> 'k"
  sys_socket :: "'k \<Rightarrow> int \<times> 'k"
  sys_inet_pton :: "string \<Rightarrow> u32 option"
  sys_bind :: "int \<Rightarrow> sockaddr \<Rightarrow> 'k \<Rightarrow> int \<times> 'k"
  sys_listen :: "int \<Rightarrow> 'k \<Rightarrow> int \<times> 'k"
  sys_setsockopt :: "int \<Rightarrow> sockopt \<Rightarrow> 'k \<Rightarrow> int \<times> 'k"
  sys_getsockopt_error :: "int \<Rightarrow> 'k \<Rightarrow> (int \<times> int) \<times> 'k"
  sys_accept4 :: "int \<Rightarrow> 'k \<Rightarrow> (int \<times> sockaddr) \<times> 'k"

text \<open>The \<^verbatim>\<open>errno\<close> values the program compares with (Linux numbering).\<close>

definition EINTR :: int where "EINTR = 4"
definition EAGAIN :: int where "EAGAIN = 11"
definition EWOULDBLOCK :: int where "EWOULDBLOCK = 11"
definition EPIPE :: int where "EPIPE = 32"
definition ECONNRESET :: int where "ECONNRESET = 104"

lemmas errno_defs = EINTR_def EAGAIN_def EWOULDBLOCK_def EPIPE_def ECONNRESET_def

text \<open>
  The build: the target platform, which selects the poller and the event constants, and
  whether the program is compiled with \<^verbatim>\<open>NDEBUG\<close>.
\<close>

datatype platform = Linux | Win32

record 'k build =
  os :: "'k os"
  ndebug :: bool
  platform :: platform

text \<open>
  A system in which every call fails, from which the witnesses of later theories build the
  kernels they need.
\<close>

definition failing_os :: "'k os" where
  "failing_os = \<lparr>
     sys_epoll_create1 = (\<lambda>k. (- 1, k)),
     sys_epoll_ctl = (\<lambda>_ _ _ _ k. (- 1, k)),
     sys_epoll_wait = (\<lambda>_ _ _ k. (None, k)),
     sys_select = (\<lambda>_ rs ws es _ k. ((- 1, rs, ws, es), k)),
     sys_eventfd = (\<lambda>k. (- 1, k)),
     sys_read = (\<lambda>_ _ k. ((- 1, []), k)),
     sys_write = (\<lambda>_ _ k. (- 1, k)),
     sys_close = (\<lambda>_ k. k),
     sys_errno = (\<lambda>_. 0),
     sys_time = (\<lambda>k. (0, k)),
     sys_socket = (\<lambda>k. (- 1, k)),
     sys_inet_pton = (\<lambda>_. None),
     sys_bind = (\<lambda>_ _ k. (- 1, k)),
     sys_listen = (\<lambda>_ k. (- 1, k)),
     sys_setsockopt = (\<lambda>_ _ k. (- 1, k)),
     sys_getsockopt_error = (\<lambda>_ k. ((- 1, 0), k)),
     sys_accept4 = (\<lambda>_ k. ((- 1, \<lparr>sin_addr = 0, sin_port = 0\<rparr>), k))\<rparr>"

end
