(* ===== verification/Channel.thy ===== *)
theory Channel
  imports Os
begin

unbundle bit_operations_syntax

text \<open>
  Event channels, \<^verbatim>\<open>include/network/channel.h\<close> and \<^verbatim>\<open>src/network/channel.cpp\<close>: a file
  descriptor, the events it waits for, the events that occurred and four callbacks. A
  callback is a value of the type parameter \<open>'cb\<close>, the closure it stands for; the layer
  above interprets it. The operations that also inform the poller (\<^verbatim>\<open>update()\<close>) are
  completed in the theory of the reactor, which owns the poller.
\<close>

section \<open>Event masks\<close>

definition EPOLLIN :: u32 where "EPOLLIN = 0x001"
definition EPOLLPRI :: u32 where "EPOLLPRI = 0x002"
definition EPOLLOUT :: u32 where "EPOLLOUT = 0x004"
definition EPOLLERR :: u32 where "EPOLLERR = 0x008"
definition EPOLLHUP :: u32 where "EPOLLHUP = 0x010"
definition EPOLLNVAL :: u32 where "EPOLLNVAL = 0x020"
definition EPOLLRDHUP :: u32 where "EPOLLRDHUP = 0x2000"

lemmas epoll_bits =
  EPOLLIN_def EPOLLPRI_def EPOLLOUT_def EPOLLERR_def EPOLLHUP_def EPOLLNVAL_def EPOLLRDHUP_def

definition kNoneEvent :: u32 where "kNoneEvent = 0"

fun kReadEvent :: "platform \<Rightarrow> u32" where
  "kReadEvent Win32 = 1"
| "kReadEvent Linux = EPOLLIN OR EPOLLPRI"

fun kWriteEvent :: "platform \<Rightarrow> u32" where
  "kWriteEvent Win32 = 2"
| "kWriteEvent Linux = EPOLLOUT"

fun kErrorEvent :: "platform \<Rightarrow> u32" where
  "kErrorEvent Win32 = 4"
| "kErrorEvent Linux = EPOLLERR"

text \<open>\<^verbatim>\<open>mask & bits\<close> as a condition.\<close>

definition has_bits :: "u32 \<Rightarrow> u32 \<Rightarrow> bool" where
  "has_bits m b \<longleftrightarrow> m AND b \<noteq> 0"

section \<open>State\<close>

record 'cb channel =
  ch_reactor :: reactor_ptr
  ch_fd :: int
  ch_events :: u32
  ch_revents :: u32
  ch_index :: int
  read_callback :: "'cb option"
  write_callback :: "'cb option"
  close_callback :: "'cb option"
  error_callback :: "'cb option"

definition new_channel :: "reactor_ptr \<Rightarrow> int \<Rightarrow> 'cb channel" where
  "new_channel r fd =
     \<lparr>ch_reactor = r, ch_fd = fd, ch_events = 0, ch_revents = 0, ch_index = - 1,
      read_callback = None, write_callback = None, close_callback = None, error_callback = None\<rparr>"

definition setReadCallback :: "'cb \<Rightarrow> 'cb channel \<Rightarrow> 'cb channel" where
  "setReadCallback cb ch = ch\<lparr>read_callback := Some cb\<rparr>"

definition setWriteCallback :: "'cb \<Rightarrow> 'cb channel \<Rightarrow> 'cb channel" where
  "setWriteCallback cb ch = ch\<lparr>write_callback := Some cb\<rparr>"

definition setCloseCallback :: "'cb \<Rightarrow> 'cb channel \<Rightarrow> 'cb channel" where
  "setCloseCallback cb ch = ch\<lparr>close_callback := Some cb\<rparr>"

definition setErrorCallback :: "'cb \<Rightarrow> 'cb channel \<Rightarrow> 'cb channel" where
  "setErrorCallback cb ch = ch\<lparr>error_callback := Some cb\<rparr>"

text \<open>The masks the \<^verbatim>\<open>enable\<close> and \<^verbatim>\<open>disable\<close> operations compute before \<^verbatim>\<open>update()\<close>.\<close>

datatype interest = EnableReading | DisableReading | EnableWriting | DisableWriting | DisableAll

fun new_events :: "platform \<Rightarrow> interest \<Rightarrow> u32 \<Rightarrow> u32" where
  "new_events pf EnableReading e = e OR kReadEvent pf"
| "new_events pf DisableReading e = e AND NOT (kReadEvent pf)"
| "new_events pf EnableWriting e = e OR kWriteEvent pf"
| "new_events pf DisableWriting e = e AND NOT (kWriteEvent pf)"
| "new_events pf DisableAll e = kNoneEvent"

definition set_interest :: "platform \<Rightarrow> interest \<Rightarrow> 'cb channel \<Rightarrow> 'cb channel" where
  "set_interest pf i ch = ch\<lparr>ch_events := new_events pf i (ch_events ch)\<rparr>"

definition isWriting :: "platform \<Rightarrow> 'cb channel \<Rightarrow> bool" where
  "isWriting pf ch \<longleftrightarrow> has_bits (ch_events ch) (kWriteEvent pf)"

definition isReading :: "platform \<Rightarrow> 'cb channel \<Rightarrow> bool" where
  "isReading pf ch \<longleftrightarrow> has_bits (ch_events ch) (kReadEvent pf)"

definition isNoneEvent :: "'cb channel \<Rightarrow> bool" where
  "isNoneEvent ch \<longleftrightarrow> ch_events ch = kNoneEvent"

definition setRevents :: "u32 \<Rightarrow> 'cb channel \<Rightarrow> 'cb channel" where
  "setRevents m ch = ch\<lparr>ch_revents := m\<rparr>"

definition setIndex :: "int \<Rightarrow> 'cb channel \<Rightarrow> 'cb channel" where
  "setIndex i ch = ch\<lparr>ch_index := i\<rparr>"

section \<open>Dispatch\<close>

text \<open>Calls the callback, if the condition holds and one is set.\<close>

definition fire ::
    "('cb \<Rightarrow> 's \<Rightarrow> 's outcome) \<Rightarrow> bool \<Rightarrow> 'cb option \<Rightarrow> 's \<Rightarrow> 's outcome" where
  "fire invoke cond cb s =
     (if cond then (case cb of None \<Rightarrow> Inr s | Some f \<Rightarrow> invoke f s) else Inr s)"

definition handleEvent ::
    "('cb \<Rightarrow> 's \<Rightarrow> 's outcome) \<Rightarrow> platform \<Rightarrow> 'cb channel \<Rightarrow> 's \<Rightarrow> 's outcome" where
  "handleEvent invoke pf ch s =
     (let re = ch_revents ch
      in case pf of
        Win32 \<Rightarrow>
          obind (fire invoke (has_bits re (kErrorEvent Win32)) (error_callback ch) s) (\<lambda>s.
          obind (fire invoke (has_bits re (kReadEvent Win32)) (read_callback ch) s) (\<lambda>s.
          fire invoke (has_bits re (kWriteEvent Win32)) (write_callback ch) s))
      | Linux \<Rightarrow>
          obind (fire invoke (has_bits re EPOLLHUP \<and> \<not> has_bits re EPOLLIN) (close_callback ch) s) (\<lambda>s.
          obind (fire invoke (has_bits re (EPOLLERR OR EPOLLNVAL)) (error_callback ch) s) (\<lambda>s.
          obind (fire invoke (has_bits re (EPOLLIN OR EPOLLPRI OR EPOLLRDHUP)) (read_callback ch) s) (\<lambda>s.
          fire invoke (has_bits re EPOLLOUT) (write_callback ch) s))))"

section \<open>Properties\<close>

lemma has_bits_simps [simp]: "has_bits 0 b \<longleftrightarrow> False"
  by (simp add: has_bits_def)

text \<open>The two interests occupy different bits.\<close>

lemma read_write_bits_disjoint: "kReadEvent pf AND kWriteEvent pf = 0"
  by (cases pf) (simp_all add: epoll_bits)

lemma event_bits_nonzero: "kReadEvent pf \<noteq> 0" "kWriteEvent pf \<noteq> 0"
  by (cases pf; simp add: epoll_bits)+

lemma or_and_disjoint: "r AND w = 0 \<Longrightarrow> (e OR r) AND w = e AND (w :: u32)"
  by (simp add: bit.conj_disj_distrib2)

lemma andnot_and_disjoint: "r AND w = 0 \<Longrightarrow> (e AND NOT r) AND w = e AND (w :: u32)"
proof (rule bit_word_eqI)
  fix n
  assume "r AND w = 0"
  then have "\<not> (bit r n \<and> bit w n)" by (metis bit_0_eq bit_and_iff bot_apply bot_bool_def)
  moreover assume "n < LENGTH(32)"
  ultimately show "bit ((e AND NOT r) AND w) n = bit (e AND w) n"
    by (auto simp: bit_simps)
qed

lemma andnot_and_self: "(e AND NOT r) AND r = (0 :: u32)"
  by (rule bit_word_eqI) (simp add: bit_simps)

lemma or_and_self: "(e OR r) AND r = (r :: u32)"
  by (rule bit_word_eqI) (auto simp: bit_simps)

lemma isReading_set_interest:
  "isReading pf (set_interest pf i ch) \<longleftrightarrow>
     (case i of EnableReading \<Rightarrow> True | DisableReading \<Rightarrow> False | DisableAll \<Rightarrow> False
        | _ \<Rightarrow> isReading pf ch)"
  using read_write_bits_disjoint [of pf] event_bits_nonzero [of pf]
  by (cases i) (simp_all add: isReading_def set_interest_def has_bits_def kNoneEvent_def
      or_and_self andnot_and_self or_and_disjoint andnot_and_disjoint and.commute
      [of "kWriteEvent pf" "kReadEvent pf"])

lemma isWriting_set_interest:
  "isWriting pf (set_interest pf i ch) \<longleftrightarrow>
     (case i of EnableWriting \<Rightarrow> True | DisableWriting \<Rightarrow> False | DisableAll \<Rightarrow> False
        | _ \<Rightarrow> isWriting pf ch)"
  using read_write_bits_disjoint [of pf] event_bits_nonzero [of pf]
  by (cases i) (simp_all add: isWriting_def set_interest_def has_bits_def kNoneEvent_def
      or_and_self andnot_and_self or_and_disjoint andnot_and_disjoint)

text \<open>The mask holds read and write bits only, and the two read bits together.\<close>

definition wf_mask :: "platform \<Rightarrow> u32 \<Rightarrow> bool" where
  "wf_mask pf e \<longleftrightarrow> e \<in> {0, kReadEvent pf, kWriteEvent pf, kReadEvent pf OR kWriteEvent pf}"

lemma wf_mask_new_events: "wf_mask pf e \<Longrightarrow> wf_mask pf (new_events pf i e)"
  by (cases pf; cases i) (auto simp: wf_mask_def epoll_bits kNoneEvent_def)

lemma wf_mask_none_iff:
  assumes "wf_mask pf (ch_events ch)"
  shows "isNoneEvent ch \<longleftrightarrow> \<not> isReading pf ch \<and> \<not> isWriting pf ch"
  using assms
  by (cases pf) (auto simp: wf_mask_def isNoneEvent_def isReading_def isWriting_def has_bits_def
      kNoneEvent_def epoll_bits)

definition with_interests :: "platform \<Rightarrow> interest list \<Rightarrow> reactor_ptr \<Rightarrow> int \<Rightarrow> 'cb channel" where
  "with_interests pf ops r fd = fold (set_interest pf) ops (new_channel r fd)"

lemma wf_mask_with_interests:
  "wf_mask pf (ch_events (with_interests pf ops r fd :: 'cb channel))"
proof -
  have "wf_mask pf (ch_events (fold (set_interest pf) ops ch))"
    if "wf_mask pf (ch_events ch)" for ch :: "'cb channel"
    using that by (induction ops arbitrary: ch) (auto simp: set_interest_def wf_mask_new_events)
  then show ?thesis
    unfolding with_interests_def by (simp add: new_channel_def wf_mask_def [of pf 0])
qed

text \<open>
  Each interest operation decides exactly its own interest: \<^verbatim>\<open>enableReading\<close> and
  \<^verbatim>\<open>disableReading\<close> decide whether the channel reads and leave writing as it was,
  the writing pair likewise, and \<^verbatim>\<open>disableAll\<close> clears both; a channel built by any
  sequence of them from a new one has no event set exactly when it neither reads nor writes.
  Holds for the Linux and the Windows constants.
\<close>

theorem interest_effect:
  "(isReading pf (set_interest pf i ch) \<longleftrightarrow>
     (case i of EnableReading \<Rightarrow> True | DisableReading \<Rightarrow> False | DisableAll \<Rightarrow> False
        | _ \<Rightarrow> isReading pf ch)) \<and>
   (isWriting pf (set_interest pf i ch) \<longleftrightarrow>
     (case i of EnableWriting \<Rightarrow> True | DisableWriting \<Rightarrow> False | DisableAll \<Rightarrow> False
        | _ \<Rightarrow> isWriting pf ch)) \<and>
   (let ch' = with_interests pf ops r fd :: 'cb channel
    in isNoneEvent ch' \<longleftrightarrow> \<not> isReading pf ch' \<and> \<not> isWriting pf ch')"
proof (intro conjI)
  show "let ch' = with_interests pf ops r fd :: 'cb channel
    in isNoneEvent ch' \<longleftrightarrow> \<not> isReading pf ch' \<and> \<not> isWriting pf ch'"
    unfolding Let_def by (rule wf_mask_none_iff [OF wf_mask_with_interests])
qed (rule isReading_set_interest isWriting_set_interest)+

text \<open>The callbacks an event mask selects, in the order they are called.\<close>

definition selected :: "bool \<Rightarrow> 'cb option \<Rightarrow> 'cb list" where
  "selected cond cb = (if cond then (case cb of None \<Rightarrow> [] | Some f \<Rightarrow> [f]) else [])"

definition dispatch :: "platform \<Rightarrow> 'cb channel \<Rightarrow> 'cb list" where
  "dispatch pf ch = (let re = ch_revents ch in case pf of
       Win32 \<Rightarrow> selected (has_bits re 4) (error_callback ch) @ selected (has_bits re 1) (read_callback ch)
         @ selected (has_bits re 2) (write_callback ch)
     | Linux \<Rightarrow> selected (has_bits re 0x10 \<and> \<not> has_bits re 1) (close_callback ch)
         @ selected (has_bits re 0x28) (error_callback ch)
         @ selected (has_bits re 0x2003) (read_callback ch)
         @ selected (has_bits re 4) (write_callback ch))"

lemma fire_selected: "fire invoke c cb = ofold invoke (selected c cb)"
  by (auto simp: fire_def selected_def split: option.splits)

lemma handleEvent_dispatch: "handleEvent invoke pf ch s = ofold invoke (dispatch pf ch) s"
  by (cases pf) (simp_all add: handleEvent_def dispatch_def fire_selected ofold_append_fun epoll_bits
      Let_def)

text \<open>
  C26: a ready channel calls the callbacks its event mask selects, each at most once and in a
  fixed order: on Linux close (hang-up without input), error, read, write; on Windows error,
  read, write. A channel with no event calls none; when a callback fails, the ones after it
  are not called.
\<close>

theorem handleEvent_order:
  "handleEvent invoke pf ch s = ofold invoke (dispatch pf ch) s \<and>
   length (dispatch pf ch) \<le> 4 \<and> dispatch pf (setRevents 0 ch) = []"
proof -
  have "length (dispatch pf ch) \<le> 4"
    by (cases pf) (auto simp: dispatch_def selected_def Let_def split: option.splits)
  moreover have "dispatch pf (setRevents 0 ch) = []"
    by (cases pf) (simp_all add: dispatch_def setRevents_def selected_def)
  ultimately show ?thesis by (simp add: handleEvent_dispatch)
qed

end
