(* ===== verification/Poller.thy ===== *)
theory Poller
  imports Channel
begin

text \<open>
  The I/O multiplexers, \<^verbatim>\<open>include/network/poller.h\<close> and \<^verbatim>\<open>src/network/poller.cpp\<close>:
  the epoll poller of the Linux build and the select poller of the Windows build behind the
  abstract class \<^verbatim>\<open>Poller\<close>. Channels live in a heap that the poller reaches through
  pointers; a pointer without an object is undefined behaviour. The poller's contract with
  its client, the reactor, is the locale \<open>poller_contract\<close>.
\<close>

section \<open>State\<close>

record ('k, 'cb) net =
  kernel :: 'k
  heap :: "chan_ptr \<rightharpoonup> 'cb channel"

record epoll_poller =
  ep_fd :: int
  ep_channels :: "int \<rightharpoonup> chan_ptr"
  ep_events_size :: nat

record select_poller =
  sp_channels :: "int \<rightharpoonup> chan_ptr"
  sp_polled :: "chan_ptr list"

datatype poller = Epoll epoll_poller | Select select_poller

definition kInitEventListSize :: nat where "kInitEventListSize = 16"
definition kNew :: int where "kNew = - 1"
definition kAdded :: int where "kAdded = 1"
definition kDeleted :: int where "kDeleted = 2"

lemmas index_defs = kNew_def kAdded_def kDeleted_def

text \<open>Access to the object behind a channel pointer.\<close>

definition deref :: "chan_ptr \<Rightarrow> ('k, 'cb, 'z) net_scheme \<Rightarrow> 'cb channel outcome" where
  "deref c w = (case heap w c of None \<Rightarrow> Inl Undefined | Some ch \<Rightarrow> Inr ch)"

definition store :: "chan_ptr \<Rightarrow> 'cb channel \<Rightarrow> ('k, 'cb, 'z) net_scheme \<Rightarrow> ('k, 'cb, 'z) net_scheme" where
  "store c ch w = w\<lparr>heap := (heap w)(c \<mapsto> ch)\<rparr>"

section \<open>The epoll poller\<close>

definition new_epoll_poller :: "'k os \<Rightarrow> ('k, 'cb, 'z) net_scheme \<Rightarrow>
    (epoll_poller \<times> ('k, 'cb, 'z) net_scheme) outcome" where
  "new_epoll_poller sys w =
     (case sys_epoll_create1 sys (kernel w) of (efd, k) \<Rightarrow>
        if efd < 0 then Inl Aborted
        else Inr (\<lparr>ep_fd = efd, ep_channels = Map.empty, ep_events_size = kInitEventListSize\<rparr>,
                  w\<lparr>kernel := k\<rparr>))"

definition epoll_update :: "'k os \<Rightarrow> ctl_op \<Rightarrow> chan_ptr \<Rightarrow> epoll_poller \<Rightarrow>
    ('k, 'cb, 'z) net_scheme \<Rightarrow> ('k, 'cb, 'z) net_scheme outcome" where
  "epoll_update sys op c p w =
     obind (deref c w) (\<lambda>ch.
       case sys_epoll_ctl sys (ep_fd p) op (ch_fd ch) (ch_events ch, c) (kernel w) of
         (ret, k) \<Rightarrow> Inr (w\<lparr>kernel := k\<rparr>))"

definition epoll_updateChannel :: "'k os \<Rightarrow> chan_ptr \<Rightarrow>
    epoll_poller \<times> ('k, 'cb, 'z) net_scheme \<Rightarrow>
    (epoll_poller \<times> ('k, 'cb, 'z) net_scheme) outcome" where
  "epoll_updateChannel sys c pw = (case pw of (p, w) \<Rightarrow>
     obind (deref c w) (\<lambda>ch.
       let ix = ch_index ch; fd = ch_fd ch
       in if ix = kNew \<or> ix = kDeleted then
            let p = (if ix = kNew then p\<lparr>ep_channels := (ep_channels p)(fd \<mapsto> c)\<rparr> else p);
                w = store c (setIndex kAdded ch) w
            in obind (epoll_update sys CTL_ADD c p w) (\<lambda>w. Inr (p, w))
          else if isNoneEvent ch then
            obind (epoll_update sys CTL_DEL c p w) (\<lambda>w. Inr (p, store c (setIndex kDeleted ch) w))
          else obind (epoll_update sys CTL_MOD c p w) (\<lambda>w. Inr (p, w))))"

definition epoll_removeChannel :: "'k os \<Rightarrow> chan_ptr \<Rightarrow>
    epoll_poller \<times> ('k, 'cb, 'z) net_scheme \<Rightarrow>
    (epoll_poller \<times> ('k, 'cb, 'z) net_scheme) outcome" where
  "epoll_removeChannel sys c pw = (case pw of (p, w) \<Rightarrow>
     obind (deref c w) (\<lambda>ch.
       let p = p\<lparr>ep_channels := (ep_channels p)(ch_fd ch := None)\<rparr>
       in obind (if ch_index ch = kAdded then epoll_update sys CTL_DEL c p w else Inr w)
            (\<lambda>w. Inr (p, store c (setIndex kNew ch) w))))"

text \<open>\<^verbatim>\<open>fillActiveChannels\<close>: the body of its loop over the returned events.\<close>

definition fill_active :: "epoll_event \<Rightarrow> chan_ptr list \<times> ('k, 'cb, 'z) net_scheme \<Rightarrow>
    (chan_ptr list \<times> ('k, 'cb, 'z) net_scheme) outcome" where
  "fill_active ev aw = (case (ev, aw) of ((events, c), (active, w)) \<Rightarrow>
     obind (deref c w) (\<lambda>ch. Inr (active @ [c], store c (setRevents events ch) w)))"

definition epoll_poll :: "'k os \<Rightarrow> int \<Rightarrow> epoll_poller \<times> ('k, 'cb, 'z) net_scheme \<Rightarrow>
    chan_ptr list \<Rightarrow> (chan_ptr list \<times> epoll_poller \<times> ('k, 'cb, 'z) net_scheme) outcome" where
  "epoll_poll sys timeout_ms pw active = (case pw of (p, w) \<Rightarrow>
     (case sys_epoll_wait sys (ep_fd p) (ep_events_size p) timeout_ms (kernel w) of (res, k) \<Rightarrow>
       let w = w\<lparr>kernel := k\<rparr>
       in case res of
         None \<Rightarrow> Inr (active, p, w)
       | Some evs \<Rightarrow>
           if evs = [] then Inr (active, p, w)
           else obind (ofold fill_active evs (active, w)) (\<lambda>(active, w).
             Inr (active,
                  if length evs = ep_events_size p
                  then p\<lparr>ep_events_size := ep_events_size p * 2\<rparr> else p, w))))"

section \<open>The select poller\<close>

definition new_select_poller :: select_poller where
  "new_select_poller = \<lparr>sp_channels = Map.empty, sp_polled = []\<rparr>"

definition select_updateChannel :: "chan_ptr \<Rightarrow> select_poller \<times> ('k, 'cb, 'z) net_scheme \<Rightarrow>
    (select_poller \<times> ('k, 'cb, 'z) net_scheme) outcome" where
  "select_updateChannel c pw = (case pw of (p, w) \<Rightarrow>
     obind (deref c w) (\<lambda>ch.
       case sp_channels p (ch_fd ch) of
         None \<Rightarrow> Inr (p\<lparr>sp_channels := (sp_channels p)(ch_fd ch \<mapsto> c),
                        sp_polled := sp_polled p @ [c]\<rparr>, w)
       | Some _ \<Rightarrow> Inr (p, w)))"

definition select_removeChannel :: "chan_ptr \<Rightarrow> select_poller \<times> ('k, 'cb, 'z) net_scheme \<Rightarrow>
    (select_poller \<times> ('k, 'cb, 'z) net_scheme) outcome" where
  "select_removeChannel c pw = (case pw of (p, w) \<Rightarrow>
     obind (deref c w) (\<lambda>ch.
       case sp_channels p (ch_fd ch) of
         None \<Rightarrow> Inr (p, w)
       | Some _ \<Rightarrow> Inr (p\<lparr>sp_channels := (sp_channels p)(ch_fd ch := None),
                          sp_polled := remove1 c (sp_polled p)\<rparr>, w)))"

text \<open>
  An \<^verbatim>\<open>fd_set\<close> of Winsock is an array of \<^verbatim>\<open>FD_SETSIZE\<close> descriptors; \<^verbatim>\<open>FD_SET\<close>
  adds a descriptor that is not there while there is room, and otherwise does nothing.
\<close>

definition FD_SETSIZE :: nat where "FD_SETSIZE = 64"

definition FD_SET :: "int \<Rightarrow> int list \<Rightarrow> int list" where
  "FD_SET fd fds = (if fd \<in> set fds \<or> FD_SETSIZE \<le> length fds then fds else fds @ [fd])"

text \<open>The descriptor sets built from the polled channels, then the events read back.\<close>

definition select_fds :: "chan_ptr \<Rightarrow> (int list \<times> int list \<times> int list \<times> int) \<times> ('k, 'cb, 'z) net_scheme \<Rightarrow>
    ((int list \<times> int list \<times> int list \<times> int) \<times> ('k, 'cb, 'z) net_scheme) outcome" where
  "select_fds c acc = (case acc of ((rs, ws, es, m), w) \<Rightarrow>
     obind (deref c w) (\<lambda>ch. let fd = ch_fd ch in
       Inr ((if isReading Win32 ch then FD_SET fd rs else rs,
             if isWriting Win32 ch then FD_SET fd ws else ws,
             FD_SET fd es, max m fd), w)))"

definition select_collect :: "int list \<Rightarrow> int list \<Rightarrow> int list \<Rightarrow> chan_ptr \<Rightarrow>
    chan_ptr list \<times> ('k, 'cb, 'z) net_scheme \<Rightarrow> (chan_ptr list \<times> ('k, 'cb, 'z) net_scheme) outcome" where
  "select_collect rs ws es c aw = (case aw of (active, w) \<Rightarrow>
     obind (deref c w) (\<lambda>ch. let fd = ch_fd ch;
         revents = (if fd \<in> set rs then kReadEvent Win32 else 0) OR
                   (if fd \<in> set ws then kWriteEvent Win32 else 0) OR
                   (if fd \<in> set es then kErrorEvent Win32 else 0)
       in if revents \<noteq> 0 then Inr (active @ [c], store c (setRevents revents ch) w)
          else Inr (active, w)))"

definition select_poll :: "'k os \<Rightarrow> int \<Rightarrow> select_poller \<times> ('k, 'cb, 'z) net_scheme \<Rightarrow>
    chan_ptr list \<Rightarrow> (chan_ptr list \<times> select_poller \<times> ('k, 'cb, 'z) net_scheme) outcome" where
  "select_poll sys timeout_ms pw active = (case pw of (p, w) \<Rightarrow>
     if sp_polled p = [] then Inr (active, p, w)
     else obind (ofold select_fds (sp_polled p) (([], [], [], 0), w)) (\<lambda>((rs, ws, es, m), w).
       case sys_select sys (m + 1) rs ws es
         (if timeout_ms < 0 then None else Some (timeout_ms div 1000, timeout_ms mod 1000 * 1000))
         (kernel w) of ((res, rs', ws', es'), k) \<Rightarrow>
         let w = w\<lparr>kernel := k\<rparr>
         in if res > 0 then
              obind (ofold (select_collect rs' ws' es') (sp_polled p) (active, w))
                (\<lambda>(active, w). Inr (active, p, w))
            else Inr (active, p, w)))"

section \<open>The abstract class\<close>

text \<open>The destructors: epoll's closes its descriptor.\<close>

primrec destroy_poller :: "'k os \<Rightarrow> poller \<Rightarrow> 'k \<Rightarrow> 'k" where
  "destroy_poller sys (Epoll p) k = sys_close sys (ep_fd p) k"
| "destroy_poller sys (Select p) k = k"

fun poller_poll :: "'k os \<Rightarrow> int \<Rightarrow> poller \<times> ('k, 'cb, 'z) net_scheme \<Rightarrow>
    chan_ptr list \<Rightarrow> (chan_ptr list \<times> poller \<times> ('k, 'cb, 'z) net_scheme) outcome" where
  "poller_poll sys t (Epoll p, w) active =
     obind (epoll_poll sys t (p, w) active) (\<lambda>(a, p, w). Inr (a, Epoll p, w))"
| "poller_poll sys t (Select p, w) active =
     obind (select_poll sys t (p, w) active) (\<lambda>(a, p, w). Inr (a, Select p, w))"

fun poller_updateChannel :: "'k os \<Rightarrow> chan_ptr \<Rightarrow> poller \<times> ('k, 'cb, 'z) net_scheme \<Rightarrow>
    (poller \<times> ('k, 'cb, 'z) net_scheme) outcome" where
  "poller_updateChannel sys c (Epoll p, w) =
     obind (epoll_updateChannel sys c (p, w)) (\<lambda>(p, w). Inr (Epoll p, w))"
| "poller_updateChannel sys c (Select p, w) =
     obind (select_updateChannel c (p, w)) (\<lambda>(p, w). Inr (Select p, w))"

fun poller_removeChannel :: "'k os \<Rightarrow> chan_ptr \<Rightarrow> poller \<times> ('k, 'cb, 'z) net_scheme \<Rightarrow>
    (poller \<times> ('k, 'cb, 'z) net_scheme) outcome" where
  "poller_removeChannel sys c (Epoll p, w) =
     obind (epoll_removeChannel sys c (p, w)) (\<lambda>(p, w). Inr (Epoll p, w))"
| "poller_removeChannel sys c (Select p, w) =
     obind (select_removeChannel c (p, w)) (\<lambda>(p, w). Inr (Select p, w))"

section \<open>The contract\<close>

text \<open>
  What the reactor relies on: over a set \<open>C\<close> of live channels with different descriptors,
  \<^verbatim>\<open>updateChannel\<close> registers its channel, \<^verbatim>\<open>removeChannel\<close> forgets it, neither
  touches another registration, and neither fails.
\<close>

datatype registration = Upd chan_ptr | Rem chan_ptr

fun target :: "registration \<Rightarrow> chan_ptr" where
  "target (Upd c) = c"
| "target (Rem c) = c"

fun abs_register :: "registration \<Rightarrow> chan_ptr set \<Rightarrow> chan_ptr set" where
  "abs_register (Upd c) R = insert c R"
| "abs_register (Rem c) R = R - {c}"

locale poller_contract =
  fixes update :: "chan_ptr \<Rightarrow> 's \<Rightarrow> 's outcome"
    and remove :: "chan_ptr \<Rightarrow> 's \<Rightarrow> 's outcome"
    and registered :: "'s \<Rightarrow> chan_ptr set"
    and wf :: "chan_ptr set \<Rightarrow> 's \<Rightarrow> bool"
  assumes update_law: "wf C s \<Longrightarrow> c \<in> C \<Longrightarrow>
      \<exists>t. update c s = Inr t \<and> wf C t \<and> registered t = insert c (registered s)"
    and remove_law: "wf C s \<Longrightarrow> c \<in> C \<Longrightarrow>
      \<exists>t. remove c s = Inr t \<and> wf C t \<and> registered t = registered s - {c}"
begin

fun register :: "registration \<Rightarrow> 's \<Rightarrow> 's outcome" where
  "register (Upd c) s = update c s"
| "register (Rem c) s = remove c s"

lemma register_law:
  "wf C s \<Longrightarrow> target op \<in> C \<Longrightarrow>
     \<exists>t. register op s = Inr t \<and> wf C t \<and> registered t = abs_register op (registered s)"
  using update_law remove_law by (cases op) fastforce+

end

text \<open>Any sequence of registrations refines the same sequence on sets of channels.\<close>

sublocale poller_contract \<subseteq> registry: simulation register abs_register "\<lambda>op. target op \<in> C" "wf C" registered for C
  by unfold_locales (rule register_law)

text \<open>The descriptor of a live channel; channels with different descriptors.\<close>

definition fd_of :: "('k, 'cb, 'z) net_scheme \<Rightarrow> chan_ptr \<Rightarrow> int" where
  "fd_of w c = (case heap w c of None \<Rightarrow> 0 | Some ch \<Rightarrow> ch_fd ch)"

definition distinct_fds :: "chan_ptr set \<Rightarrow> ('k, 'cb, 'z) net_scheme \<Rightarrow> bool" where
  "distinct_fds C w \<longleftrightarrow> C \<subseteq> dom (heap w) \<and> inj_on (fd_of w) C"

text \<open>A poller's table \<open>m\<close> registers channels of \<open>C\<close> under their own descriptors.\<close>

definition wf_table :: "chan_ptr set \<Rightarrow> (int \<rightharpoonup> chan_ptr) \<Rightarrow> ('k, 'cb, 'z) net_scheme \<Rightarrow> bool" where
  "wf_table C m w \<longleftrightarrow> distinct_fds C w \<and> (\<forall>fd c. m fd = Some c \<longrightarrow> c \<in> C \<and> fd_of w c = fd)"

lemma fd_of_store [simp]: "fd_of (store c ch w) c' = (if c' = c then ch_fd ch else fd_of w c')"
  by (simp add: fd_of_def store_def)

lemma fd_of_kernel [simp]: "fd_of (w\<lparr>kernel := k\<rparr>) = fd_of w"
  by (simp add: fd_of_def fun_eq_iff)

lemma heap_store [simp]: "heap (store c ch w) = (heap w)(c \<mapsto> ch)"
  by (simp add: store_def)

lemma kernel_store [simp]: "kernel (store c ch w) = kernel w"
  by (simp add: store_def)

lemma deref_simps [simp]: "heap w c = Some ch \<Longrightarrow> deref c w = Inr ch"
  by (simp add: deref_def)

lemma distinct_fds_store [simp]:
  assumes "heap w c = Some ch" and "ch_fd ch' = ch_fd ch"
  shows "distinct_fds C (store c ch' w) \<longleftrightarrow> distinct_fds C w"
proof -
  have "fd_of (store c ch' w) = fd_of w" using assms by (auto simp: fd_of_def store_def)
  then show ?thesis using assms(1) by (auto simp: distinct_fds_def)
qed

lemma distinct_fds_kernel [simp]: "distinct_fds C (w\<lparr>kernel := k\<rparr>) \<longleftrightarrow> distinct_fds C w"
  by (simp add: distinct_fds_def)

lemma wf_table_store [simp]:
  assumes "heap w c = Some ch" and "ch_fd ch' = ch_fd ch"
  shows "wf_table C m (store c ch' w) \<longleftrightarrow> wf_table C m w"
proof -
  have "fd_of (store c ch' w) = fd_of w" using assms by (auto simp: fd_of_def store_def)
  with assms show ?thesis by (simp add: wf_table_def)
qed

lemma wf_table_kernel [simp]: "wf_table C m (w\<lparr>kernel := k\<rparr>) \<longleftrightarrow> wf_table C m w"
  by (simp add: wf_table_def)

lemma wf_table_live: "wf_table C m w \<Longrightarrow> c \<in> C \<Longrightarrow> \<exists>ch. heap w c = Some ch"
  by (auto simp: wf_table_def distinct_fds_def)

lemma wf_table_key:
  "wf_table C m w \<Longrightarrow> heap w c = Some ch \<Longrightarrow> m fd = Some c \<Longrightarrow> fd = ch_fd ch"
  unfolding wf_table_def fd_of_def by (metis option.simps(5))

lemma wf_table_at:
  assumes "wf_table C m w" and "c \<in> C" and "heap w c = Some ch"
  shows "m (ch_fd ch) = Some c \<longleftrightarrow> c \<in> ran m" and "m (ch_fd ch) = None \<or> m (ch_fd ch) = Some c"
proof -
  show "m (ch_fd ch) = Some c \<longleftrightarrow> c \<in> ran m"
    using wf_table_key [OF assms(1,3)] by (auto simp: ran_def)
  have fd: "fd_of w c = ch_fd ch" using assms(3) by (simp add: fd_of_def)
  have inj: "inj_on (fd_of w) C" using assms(1) by (simp add: wf_table_def distinct_fds_def)
  have "c' = c" if "m (ch_fd ch) = Some c'" for c'
    using that assms(1,2) fd inj by (simp add: wf_table_def inj_on_def)
  then show "m (ch_fd ch) = None \<or> m (ch_fd ch) = Some c" by (cases "m (ch_fd ch)") auto
qed

lemma wf_table_insert:
  assumes "wf_table C m w" and "c \<in> C" and "heap w c = Some ch"
  shows "wf_table C (m(ch_fd ch \<mapsto> c)) w" and "ran (m(ch_fd ch \<mapsto> c)) = insert c (ran m)"
proof -
  show "wf_table C (m(ch_fd ch \<mapsto> c)) w"
    using assms by (auto simp: wf_table_def fd_of_def)
  from wf_table_at(2) [OF assms] show "ran (m(ch_fd ch \<mapsto> c)) = insert c (ran m)"
  proof
    assume "m (ch_fd ch) = Some c"
    then have "m(ch_fd ch \<mapsto> c) = m" and "c \<in> ran m" by (auto intro: ranI)
    then show ?thesis by auto
  qed (rule ran_map_upd)
qed

lemma wf_table_delete:
  assumes "wf_table C m w" and "c \<in> C" and "heap w c = Some ch"
  shows "wf_table C (m(ch_fd ch := None)) w" and "ran (m(ch_fd ch := None)) = ran m - {c}"
proof -
  show "wf_table C (m(ch_fd ch := None)) w" using assms(1) by (auto simp: wf_table_def)
  show "ran (m(ch_fd ch := None)) = ran m - {c}"
  proof (intro set_eqI iffI)
    fix x
    assume "x \<in> ran (m(ch_fd ch := None))"
    then obtain fd where "fd \<noteq> ch_fd ch" "m fd = Some x"
      by (auto simp: ran_def split: if_splits)
    then show "x \<in> ran m - {c}" using wf_table_key [OF assms(1,3)] by (auto intro: ranI)
  next
    fix x
    assume "x \<in> ran m - {c}"
    then obtain fd where fd: "m fd = Some x" "x \<noteq> c" by (auto simp: ran_def)
    then have "(m(ch_fd ch := None)) fd = Some x" using wf_table_at(2) [OF assms] by auto
    then show "x \<in> ran (m(ch_fd ch := None))" by (rule ranI)
  qed
qed

lemmas wf_table_laws = wf_table_insert wf_table_delete wf_table_at

subsection \<open>The epoll poller\<close>

text \<open>
  The channel's \<^verbatim>\<open>index\<close> and the table agree: exactly the channels of the table are no
  longer new.
\<close>

fun wf_epoll :: "chan_ptr set \<Rightarrow> epoll_poller \<times> ('k, 'cb, 'z) net_scheme \<Rightarrow> bool" where
  "wf_epoll C (p, w) \<longleftrightarrow> wf_table C (ep_channels p) w \<and>
     (\<forall>c \<in> C. \<forall>ch. heap w c = Some ch \<longrightarrow>
        (ch_index ch = kNew \<and> c \<notin> ran (ep_channels p)) \<or>
        (ch_index ch \<in> {kAdded, kDeleted} \<and> c \<in> ran (ep_channels p)))"

fun epoll_registered :: "epoll_poller \<times> ('k, 'cb, 'z) net_scheme \<Rightarrow> chan_ptr set" where
  "epoll_registered (p, w) = ran (ep_channels p)"

lemma epoll_update_eq:
  "heap w c = Some ch \<Longrightarrow> epoll_update sys op c p w =
     Inr (w\<lparr>kernel := snd (sys_epoll_ctl sys (ep_fd p) op (ch_fd ch) (ch_events ch, c) (kernel w))\<rparr>)"
  by (simp add: epoll_update_def split: prod.splits)

lemma setIndex_simps [simp]:
  "ch_fd (setIndex i ch) = ch_fd ch" "ch_index (setIndex i ch) = i"
  "ch_events (setIndex i ch) = ch_events ch" "ch_reactor (setIndex i ch) = ch_reactor ch"
  by (simp_all add: setIndex_def)

lemma epoll_update_law:
  assumes "wf_epoll C (p, w)" and "c \<in> C"
  shows "\<exists>t. epoll_updateChannel sys c (p, w) = Inr t \<and> wf_epoll C t \<and>
     epoll_registered t = insert c (epoll_registered (p, w))"
proof -
  have tab: "wf_table C (ep_channels p) w" using assms(1) by simp
  from wf_table_live [OF tab assms(2)] obtain ch where ch: "heap w c = Some ch" ..
  note ins = wf_table_insert [OF tab assms(2) ch]
  consider (new) "ch_index ch = kNew" "c \<notin> ran (ep_channels p)"
    | (known) "ch_index ch \<in> {kAdded, kDeleted}" "c \<in> ran (ep_channels p)"
    using assms ch by auto
  then show ?thesis
  proof cases
    case new
    with assms ch ins show ?thesis
      by (auto simp: epoll_updateChannel_def epoll_update_eq Let_def index_defs)
  next
    case known
    with assms ch ins show ?thesis
      by (auto simp: epoll_updateChannel_def epoll_update_eq Let_def index_defs insert_absorb)
  qed
qed

lemma epoll_remove_law:
  assumes "wf_epoll C (p, w)" and "c \<in> C"
  shows "\<exists>t. epoll_removeChannel sys c (p, w) = Inr t \<and> wf_epoll C t \<and>
     epoll_registered t = epoll_registered (p, w) - {c}"
proof -
  have tab: "wf_table C (ep_channels p) w" using assms(1) by simp
  from wf_table_live [OF tab assms(2)] obtain ch where ch: "heap w c = Some ch" ..
  with assms show ?thesis
    using wf_table_delete [OF tab assms(2) ch]
    by (auto simp: epoll_removeChannel_def epoll_update_eq Let_def index_defs)
qed

interpretation epoll: poller_contract "epoll_updateChannel sys" "epoll_removeChannel sys"
    epoll_registered wf_epoll for sys
  using epoll_update_law epoll_remove_law by unfold_locales (auto simp del: wf_epoll.simps)

subsection \<open>The select poller\<close>

fun wf_select :: "chan_ptr set \<Rightarrow> select_poller \<times> ('k, 'cb, 'z) net_scheme \<Rightarrow> bool" where
  "wf_select C (p, w) \<longleftrightarrow> wf_table C (sp_channels p) w \<and>
     distinct (sp_polled p) \<and> set (sp_polled p) = ran (sp_channels p)"

fun select_registered :: "select_poller \<times> ('k, 'cb, 'z) net_scheme \<Rightarrow> chan_ptr set" where
  "select_registered (p, w) = set (sp_polled p)"

lemma select_update_law:
  assumes "wf_select C (p, w)" and "c \<in> C"
  shows "\<exists>t. select_updateChannel c (p, w) = Inr t \<and> wf_select C t \<and>
     select_registered t = insert c (select_registered (p, w))"
proof -
  have tab: "wf_table C (sp_channels p) w" using assms(1) by simp
  from wf_table_live [OF tab assms(2)] obtain ch where ch: "heap w c = Some ch" ..
  note at = wf_table_at [OF tab assms(2) ch] and ins = wf_table_insert [OF tab assms(2) ch]
  show ?thesis
  proof (cases "sp_channels p (ch_fd ch)")
    case None
    then have "c \<notin> ran (sp_channels p)" using at by simp
    with None assms ch ins show ?thesis by (auto simp: select_updateChannel_def)
  next
    case (Some c')
    then have "c \<in> ran (sp_channels p)" using at by auto
    with Some assms ch show ?thesis by (auto simp: select_updateChannel_def)
  qed
qed

lemma select_remove_law:
  assumes "wf_select C (p, w)" and "c \<in> C"
  shows "\<exists>t. select_removeChannel c (p, w) = Inr t \<and> wf_select C t \<and>
     select_registered t = select_registered (p, w) - {c}"
proof -
  have tab: "wf_table C (sp_channels p) w" using assms(1) by simp
  from wf_table_live [OF tab assms(2)] obtain ch where ch: "heap w c = Some ch" ..
  note at = wf_table_at [OF tab assms(2) ch] and del = wf_table_delete [OF tab assms(2) ch]
  show ?thesis
  proof (cases "sp_channels p (ch_fd ch)")
    case None
    then have "c \<notin> ran (sp_channels p)" using at by simp
    with None assms ch show ?thesis by (auto simp: select_removeChannel_def)
  next
    case (Some c')
    with assms ch del show ?thesis by (auto simp: select_removeChannel_def)
  qed
qed

interpretation sel: poller_contract select_updateChannel select_removeChannel
    select_registered wf_select
  using select_update_law select_remove_law by unfold_locales (auto simp del: wf_select.simps)

subsection \<open>Either poller\<close>

fun wf_poller :: "chan_ptr set \<Rightarrow> poller \<times> ('k, 'cb, 'z) net_scheme \<Rightarrow> bool" where
  "wf_poller C (Epoll p, w) \<longleftrightarrow> wf_epoll C (p, w)"
| "wf_poller C (Select p, w) \<longleftrightarrow> wf_select C (p, w)"

fun poller_registered :: "poller \<times> ('k, 'cb, 'z) net_scheme \<Rightarrow> chan_ptr set" where
  "poller_registered (Epoll p, w) = epoll_registered (p, w)"
| "poller_registered (Select p, w) = select_registered (p, w)"

fun poller_register :: "'k os \<Rightarrow> registration \<Rightarrow> poller \<times> ('k, 'cb, 'z) net_scheme \<Rightarrow>
    (poller \<times> ('k, 'cb, 'z) net_scheme) outcome" where
  "poller_register sys (Upd c) pw = poller_updateChannel sys c pw"
| "poller_register sys (Rem c) pw = poller_removeChannel sys c pw"

lemma poller_update_law:
  assumes "wf_poller C pw" and "c \<in> C"
  shows "\<exists>t. poller_updateChannel sys c pw = Inr t \<and> wf_poller C t \<and>
     poller_registered t = insert c (poller_registered pw)"
proof (cases pw)
  case (Pair p w)
  show ?thesis
  proof (cases p)
    case (Epoll q)
    then have "wf_epoll C (q, w)" using assms(1) Pair by simp
    from epoll.update_law [OF this assms(2), of sys] show ?thesis using Pair Epoll by force
  next
    case (Select q)
    then have "wf_select C (q, w)" using assms(1) Pair by simp
    from sel.update_law [OF this assms(2)] show ?thesis using Pair Select by force
  qed
qed

lemma poller_remove_law:
  assumes "wf_poller C pw" and "c \<in> C"
  shows "\<exists>t. poller_removeChannel sys c pw = Inr t \<and> wf_poller C t \<and>
     poller_registered t = poller_registered pw - {c}"
proof (cases pw)
  case (Pair p w)
  show ?thesis
  proof (cases p)
    case (Epoll q)
    then have "wf_epoll C (q, w)" using assms(1) Pair by simp
    from epoll.remove_law [OF this assms(2), of sys] show ?thesis using Pair Epoll by force
  next
    case (Select q)
    then have "wf_select C (q, w)" using assms(1) Pair by simp
    from sel.remove_law [OF this assms(2)] show ?thesis using Pair Select by force
  qed
qed

interpretation pol: poller_contract "poller_updateChannel sys" "poller_removeChannel sys"
    poller_registered wf_poller for sys
  using poller_update_law poller_remove_law by unfold_locales auto

lemma pol_register: "pol.register sys = poller_register sys"
proof (intro ext)
  show "pol.register sys op pw = poller_register sys op pw" for op pw
    by (cases op) simp_all
qed

text \<open>
  C25: both pollers implement the same abstract registry: over live channels with different
  descriptors, any sequence of \<^verbatim>\<open>updateChannel\<close> and \<^verbatim>\<open>removeChannel\<close> calls succeeds
  and leaves exactly the channels registered that a set of channels, inserted into and
  deleted from, would hold.
\<close>

theorem poller_refines_registry:
  assumes "wf_poller C pw" and "target ` set ops \<subseteq> C"
  shows "\<exists>t. ofold (poller_register sys) ops pw = Inr t \<and> wf_poller C t \<and>
     poller_registered t = fold abs_register ops (poller_registered pw)"
  using pol.registry.history_law [OF assms(1), of ops sys] assms(2) unfolding pol_register by auto

theorem poller_refines_registry_witness:
  "\<exists>t. ofold (poller_register failing_os) [Upd 1, Upd 1, Upd 2, Rem 1]
      (Select new_select_poller,
       \<lparr>kernel = (), heap = [1 \<mapsto> new_channel 0 5, 2 \<mapsto> (new_channel 0 6 :: unit channel)]\<rparr>) = Inr t \<and>
     poller_registered t = {2}"
proof -
  let ?w = "\<lparr>kernel = (), heap = [1 \<mapsto> new_channel 0 5, 2 \<mapsto> (new_channel 0 6 :: unit channel)]\<rparr>"
  have "wf_poller {1, 2} (Select new_select_poller, ?w)"
    by (auto simp: new_select_poller_def wf_table_def distinct_fds_def fd_of_def new_channel_def
        inj_on_def)
  moreover have "target ` set [Upd 1, Upd 1, Upd 2, Rem 1] \<subseteq> {1, 2}" by simp
  ultimately show ?thesis
    using poller_refines_registry [of "{1, 2}" "(Select new_select_poller, ?w)"
        "[Upd 1, Upd 1, Upd 2, Rem 1]" failing_os]
    by (auto simp: new_select_poller_def simp del: ofold.simps)
qed

subsection \<open>The kernel's interest list\<close>

text \<open>
  The documented effect of \<^verbatim>\<open>epoll_ctl\<close> on the interest list \<open>il k epfd\<close>: adding needs an
  absent descriptor (\<^verbatim>\<open>EEXIST\<close>), modifying and deleting a present one (\<^verbatim>\<open>ENOENT\<close>), and a
  failed call changes nothing.
\<close>

definition epoll_ctl_documented ::
    "'k os \<Rightarrow> ('k \<Rightarrow> int \<Rightarrow> int \<rightharpoonup> epoll_event) \<Rightarrow> bool" where
  "epoll_ctl_documented sys il \<longleftrightarrow> (\<forall>epfd op fd ev k.
     (case sys_epoll_ctl sys epfd op fd ev k of (ret, k') \<Rightarrow>
       (case (op, il k epfd fd) of
          (CTL_ADD, None) \<Rightarrow> ret = 0 \<and> il k' = (il k)(epfd := (il k epfd)(fd \<mapsto> ev))
        | (CTL_MOD, Some _) \<Rightarrow> ret = 0 \<and> il k' = (il k)(epfd := (il k epfd)(fd \<mapsto> ev))
        | (CTL_DEL, Some _) \<Rightarrow> ret = 0 \<and> il k' = (il k)(epfd := (il k epfd)(fd := None))
        | _ \<Rightarrow> ret < 0 \<and> il k' = il k)))"

text \<open>What the interest list should be: the added channels of the table with their masks.\<close>

definition expected_interest :: "epoll_poller \<Rightarrow> ('k, 'cb, 'z) net_scheme \<Rightarrow> int \<rightharpoonup> epoll_event" where
  "expected_interest p w fd = (case ep_channels p fd of None \<Rightarrow> None
     | Some c \<Rightarrow> (case heap w c of None \<Rightarrow> None
         | Some ch \<Rightarrow> if ch_index ch = kAdded then Some (ch_events ch, c) else None))"

definition synced :: "('k \<Rightarrow> int \<Rightarrow> int \<rightharpoonup> epoll_event) \<Rightarrow> epoll_poller \<times> ('k, 'cb, 'z) net_scheme \<Rightarrow> bool" where
  "synced il pw \<longleftrightarrow> (case pw of (p, w) \<Rightarrow> il (kernel w) (ep_fd p) = expected_interest p w)"

text \<open>A change of a channel's mask followed by \<^verbatim>\<open>update()\<close>, as every interest operation does.\<close>

definition epoll_set_events :: "'k os \<Rightarrow> u32 \<Rightarrow> chan_ptr \<Rightarrow>
    epoll_poller \<times> ('k, 'cb, 'z) net_scheme \<Rightarrow> (epoll_poller \<times> ('k, 'cb, 'z) net_scheme) outcome" where
  "epoll_set_events sys e c pw = (case pw of (p, w) \<Rightarrow>
     obind (deref c w) (\<lambda>ch. epoll_updateChannel sys c (p, store c (ch\<lparr>ch_events := e\<rparr>) w)))"

lemma ctl_cases:
  assumes "epoll_ctl_documented sys il"
  shows "il k epfd fd = None \<Longrightarrow>
      il (snd (sys_epoll_ctl sys epfd CTL_ADD fd ev k)) epfd = (il k epfd)(fd \<mapsto> ev)"
    and "il k epfd fd = Some e \<Longrightarrow>
      il (snd (sys_epoll_ctl sys epfd CTL_MOD fd ev k)) epfd = (il k epfd)(fd \<mapsto> ev)"
    and "il k epfd fd = Some e \<Longrightarrow>
      il (snd (sys_epoll_ctl sys epfd CTL_DEL fd ev k)) epfd = (il k epfd)(fd := None)"
  using
    assms [unfolded epoll_ctl_documented_def, rule_format,
      where epfd = epfd and op = CTL_ADD and fd = fd and ev = ev and k = k]
    assms [unfolded epoll_ctl_documented_def, rule_format,
      where epfd = epfd and op = CTL_MOD and fd = fd and ev = ev and k = k]
    assms [unfolded epoll_ctl_documented_def, rule_format,
      where epfd = epfd and op = CTL_DEL and fd = fd and ev = ev and k = k]
  by (auto split: prod.splits)

text \<open>
  A step that touches one channel: the expected list changes at its descriptor only, to what
  the channel now says.
\<close>

lemma expected_interest_touch:
  assumes "wf_table C (ep_channels p) w" and "c \<in> C" and "heap w c = Some ch"
    and "ch_fd ch' = ch_fd ch"
    and "ep_channels p' = (ep_channels p)(ch_fd ch := x)"
  shows "expected_interest p' (store c ch' w\<lparr>kernel := k\<rparr>) =
     (expected_interest p w)(ch_fd ch :=
        if x = Some c \<and> ch_index ch' = kAdded then Some (ch_events ch', c)
        else if x = Some c \<or> x = None then None
        else expected_interest p' (store c ch' w\<lparr>kernel := k\<rparr>) (ch_fd ch))"
proof (rule ext)
  fix fd
  have "ep_channels p fd \<noteq> Some c" if "fd \<noteq> ch_fd ch"
    using that wf_table_key [OF assms(1,3)] by auto
  then show "expected_interest p' (store c ch' w\<lparr>kernel := k\<rparr>) fd =
     ((expected_interest p w)(ch_fd ch :=
        if x = Some c \<and> ch_index ch' = kAdded then Some (ch_events ch', c)
        else if x = Some c \<or> x = None then None
        else expected_interest p' (store c ch' w\<lparr>kernel := k\<rparr>) (ch_fd ch))) fd"
    using assms(5) by (auto simp: expected_interest_def split: option.splits)
qed

lemma expected_interest_at:
  assumes "wf_epoll C (p, w)" and "c \<in> C" and "heap w c = Some ch"
  shows "expected_interest p w (ch_fd ch) =
     (if ch_index ch = kAdded then Some (ch_events ch, c) else None)"
proof -
  have tab: "wf_table C (ep_channels p) w" using assms(1) by simp
  show ?thesis
    using assms wf_table_at [OF tab assms(2,3)]
    by (auto simp: expected_interest_def index_defs)
qed

lemma wf_epoll_set_mask:
  assumes "wf_epoll C (p, w)" and "heap w c = Some ch"
  shows "wf_epoll C (p, store c (ch\<lparr>ch_events := e\<rparr>) w)"
proof -
  have "wf_table C (ep_channels p) (store c (ch\<lparr>ch_events := e\<rparr>) w)"
    using assms by simp
  then show ?thesis using assms by auto
qed

lemma store_store [simp]: "store c x (store c y w) = store c x w"
  by (simp add: store_def)

lemma store_kernel [simp]: "(store c x w)\<lparr>kernel := k\<rparr> = store c x (w\<lparr>kernel := k\<rparr>)"
  by (simp add: store_def)

lemma epoll_set_events_synced:
  assumes doc: "epoll_ctl_documented sys il"
    and wf: "wf_epoll C (p, w)" and sync: "synced il (p, w)" and c: "c \<in> C"
    and run: "epoll_set_events sys e c (p, w) = Inr t"
  shows "synced il t"
proof -
  have tab: "wf_table C (ep_channels p) w" using wf by simp
  from wf_table_live [OF tab c] obtain ch where ch: "heap w c = Some ch" ..
  note at = wf_table_at [OF tab c ch] and exp = expected_interest_at [OF wf c ch]
  let ?fd = "ch_fd ch" and ?k = "kernel w"
  have il: "il ?k (ep_fd p) = expected_interest p w" using sync by (simp add: synced_def)
  consider (new) "ch_index ch = kNew" | (deleted) "ch_index ch = kDeleted" "ep_channels p ?fd = Some c"
    | (added) "ch_index ch = kAdded" "ep_channels p ?fd = Some c"
    using wf c ch at by auto
  then show ?thesis
  proof cases
    case new
    let ?ch = "setIndex kAdded (ch\<lparr>ch_events := e\<rparr>)"
    let ?p = "p\<lparr>ep_channels := (ep_channels p)(?fd \<mapsto> c)\<rparr>"
    let ?k' = "snd (sys_epoll_ctl sys (ep_fd p) CTL_ADD ?fd (e, c) ?k)"
    have t: "t = (?p, store c ?ch w\<lparr>kernel := ?k'\<rparr>)"
      using run ch new
      by (auto simp: epoll_set_events_def epoll_updateChannel_def epoll_update_eq Let_def index_defs)
    show ?thesis
      using ctl_cases(1) [OF doc, of ?k "ep_fd p" ?fd "(e, c)"] exp new il
        expected_interest_touch [OF tab c ch, of ?ch ?p "Some c" ?k']
      by (simp add: t synced_def index_defs)
  next
    case deleted
    let ?ch = "setIndex kAdded (ch\<lparr>ch_events := e\<rparr>)"
    let ?k' = "snd (sys_epoll_ctl sys (ep_fd p) CTL_ADD ?fd (e, c) ?k)"
    have t: "t = (p, store c ?ch w\<lparr>kernel := ?k'\<rparr>)"
      using run ch deleted
      by (auto simp: epoll_set_events_def epoll_updateChannel_def epoll_update_eq Let_def index_defs)
    show ?thesis
      using ctl_cases(1) [OF doc, of ?k "ep_fd p" ?fd "(e, c)"] exp deleted il
        expected_interest_touch [OF tab c ch, of ?ch p "Some c" ?k']
      by (simp add: t synced_def index_defs fun_upd_idem)
  next
    case added
    let ?op = "if e = kNoneEvent then CTL_DEL else CTL_MOD"
    let ?ch = "setIndex (if e = kNoneEvent then kDeleted else kAdded) (ch\<lparr>ch_events := e\<rparr>)"
    let ?k' = "snd (sys_epoll_ctl sys (ep_fd p) ?op ?fd (e, c) ?k)"
    have "setIndex kAdded (ch\<lparr>ch_events := e\<rparr>) = ch\<lparr>ch_events := e\<rparr>"
      using added by (simp add: setIndex_def)
    then have t: "t = (p, store c ?ch w\<lparr>kernel := ?k'\<rparr>)"
      using run ch added
      by (auto simp: epoll_set_events_def epoll_updateChannel_def epoll_update_eq Let_def index_defs
          isNoneEvent_def)
    show ?thesis
      using ctl_cases(2,3) [OF doc, of ?k "ep_fd p" ?fd "(ch_events ch, c)" "(e, c)"] exp added il
        expected_interest_touch [OF tab c ch, of ?ch p "Some c" ?k']
      by (auto simp: t synced_def index_defs fun_upd_idem)
  qed
qed

lemma epoll_remove_synced:
  assumes doc: "epoll_ctl_documented sys il"
    and wf: "wf_epoll C (p, w)" and sync: "synced il (p, w)" and c: "c \<in> C"
    and run: "epoll_removeChannel sys c (p, w) = Inr t"
  shows "synced il t"
proof -
  have tab: "wf_table C (ep_channels p) w" using wf by simp
  from wf_table_live [OF tab c] obtain ch where ch: "heap w c = Some ch" ..
  note exp = expected_interest_at [OF wf c ch]
  let ?fd = "ch_fd ch" and ?ch = "setIndex kNew ch" and ?k = "kernel w"
  let ?p = "p\<lparr>ep_channels := (ep_channels p)(?fd := None)\<rparr>"
  have il: "il ?k (ep_fd p) = expected_interest p w" using sync by (simp add: synced_def)
  define k' where "k' = (if ch_index ch = kAdded
      then snd (sys_epoll_ctl sys (ep_fd p) CTL_DEL ?fd (ch_events ch, c) ?k) else ?k)"
  have t: "t = (?p, store c ?ch w\<lparr>kernel := k'\<rparr>)"
    using run ch by (auto simp: epoll_removeChannel_def epoll_update_eq Let_def k'_def
        split: if_splits)
  have "il k' (ep_fd p) = (expected_interest p w)(?fd := None)"
    using ctl_cases(3) [OF doc, of ?k "ep_fd p" ?fd] exp il
    by (auto simp: k'_def fun_upd_idem)
  then show ?thesis
    using expected_interest_touch [OF tab c ch, of ?ch ?p None k'] by (simp add: t synced_def)
qed

text \<open>The operations of a channel's owner: change its mask and update, or remove it.\<close>

datatype channel_op = SetEvents u32 chan_ptr | RemoveChannel chan_ptr

fun op_target :: "channel_op \<Rightarrow> chan_ptr" where
  "op_target (SetEvents e c) = c"
| "op_target (RemoveChannel c) = c"

fun epoll_op :: "'k os \<Rightarrow> channel_op \<Rightarrow> epoll_poller \<times> ('k, 'cb, 'z) net_scheme \<Rightarrow>
    (epoll_poller \<times> ('k, 'cb, 'z) net_scheme) outcome" where
  "epoll_op sys (SetEvents e c) pw = epoll_set_events sys e c pw"
| "epoll_op sys (RemoveChannel c) pw = epoll_removeChannel sys c pw"

fun abs_op :: "channel_op \<Rightarrow> chan_ptr set \<Rightarrow> chan_ptr set" where
  "abs_op (SetEvents e c) R = insert c R"
| "abs_op (RemoveChannel c) R = R - {c}"

lemma epoll_set_events_law:
  assumes "wf_epoll C pw" and "c \<in> C"
  shows "\<exists>t. epoll_set_events sys e c pw = Inr t \<and> wf_epoll C t \<and>
     epoll_registered t = insert c (epoll_registered pw)"
proof -
  obtain p w where pw: "pw = (p, w)" by force
  have "wf_table C (ep_channels p) w" using assms(1) pw by simp
  from wf_table_live [OF this assms(2)] obtain ch where ch: "heap w c = Some ch" ..
  have "wf_epoll C (p, store c (ch\<lparr>ch_events := e\<rparr>) w)"
    using assms(1) ch unfolding pw by (rule wf_epoll_set_mask)
  from epoll.update_law [OF this assms(2), of sys] show ?thesis
    unfolding pw by (simp add: epoll_set_events_def ch del: wf_epoll.simps)
qed

lemma epoll_op_law:
  assumes "epoll_ctl_documented sys il" and "wf_epoll C pw" and "synced il pw" and "op_target op \<in> C"
  shows "\<exists>t. epoll_op sys op pw = Inr t \<and> wf_epoll C t \<and> synced il t \<and>
     epoll_registered t = abs_op op (epoll_registered pw)"
proof -
  obtain p w where pw: "pw = (p, w)" by force
  note inv = assms(2) [unfolded pw] assms(3) [unfolded pw]
  show ?thesis
  proof (cases op)
    case (SetEvents e c)
    with assms(4) have c: "c \<in> C" by simp
    from epoll_set_events_law [OF assms(2) c, of sys e] obtain t where
      t: "epoll_set_events sys e c pw = Inr t" "wf_epoll C t"
        "epoll_registered t = insert c (epoll_registered pw)" by blast
    from epoll_set_events_synced [OF assms(1) inv c t(1) [unfolded pw]] t SetEvents
    show ?thesis by simp
  next
    case (RemoveChannel c)
    with assms(4) have c: "c \<in> C" by simp
    from epoll.remove_law [OF assms(2) c, of sys] obtain t where
      t: "epoll_removeChannel sys c pw = Inr t" "wf_epoll C t"
        "epoll_registered t = epoll_registered pw - {c}" by blast
    from epoll_remove_synced [OF assms(1) inv c t(1) [unfolded pw]] t RemoveChannel
    show ?thesis by simp
  qed
qed

interpretation epoll_history: simulation "epoll_op sys" abs_op
    "\<lambda>op. epoll_ctl_documented sys il \<and> op_target op \<in> C" "\<lambda>pw. wf_epoll C pw \<and> synced il pw" epoll_registered
    for sys il C
  using epoll_op_law by unfold_locales blast


section \<open>Polling\<close>

text \<open>
  The documented behaviour of \<^verbatim>\<open>epoll_wait\<close>: it leaves the interest list alone, returns at
  most the requested number of events, at most one per registered descriptor, each with the
  pointer the descriptor was registered with.
\<close>

definition epoll_wait_documented ::
    "'k os \<Rightarrow> ('k \<Rightarrow> int \<Rightarrow> int \<rightharpoonup> epoll_event) \<Rightarrow> bool" where
  "epoll_wait_documented sys il \<longleftrightarrow> (\<forall>epfd n t k.
     (case sys_epoll_wait sys epfd n t k of (res, k') \<Rightarrow> il k' = il k \<and>
       (case res of None \<Rightarrow> True
        | Some evs \<Rightarrow> length evs \<le> n \<and> distinct (map snd evs) \<and>
            (\<forall>ev \<in> set evs. \<exists>fd e. il k epfd fd = Some (e, snd ev)))))"

lemma setRevents_simps [simp]:
  "ch_fd (setRevents m ch) = ch_fd ch" "ch_index (setRevents m ch) = ch_index ch"
  "ch_events (setRevents m ch) = ch_events ch" "ch_reactor (setRevents m ch) = ch_reactor ch"
  "ch_revents (setRevents m ch) = m"
  by (simp_all add: setRevents_def)

section \<open>A kernel that keeps interest lists\<close>

text \<open>
  A concrete system for the witnesses: its state is the interest list of each epoll
  descriptor, and waiting reports descriptor 5 as readable when it is registered.
\<close>

type_synonym interest_kernel = "int \<Rightarrow> int \<rightharpoonup> epoll_event"

definition interest_os :: "interest_kernel os" where
  "interest_os = failing_os\<lparr>
     sys_epoll_ctl := (\<lambda>epfd op fd ev k. (case (op, k epfd fd) of
          (CTL_ADD, None) \<Rightarrow> (0, k(epfd := (k epfd)(fd \<mapsto> ev)))
        | (CTL_MOD, Some _) \<Rightarrow> (0, k(epfd := (k epfd)(fd \<mapsto> ev)))
        | (CTL_DEL, Some _) \<Rightarrow> (0, k(epfd := (k epfd)(fd := None)))
        | _ \<Rightarrow> (- 1, k))),
     sys_epoll_wait := (\<lambda>epfd n t k. (case k epfd 5 of
          None \<Rightarrow> (Some [], k)
        | Some (e, c) \<Rightarrow> (Some (if n = 0 then [] else [(EPOLLIN, c)]), k)))\<rparr>"

lemma interest_os_ctl: "epoll_ctl_documented interest_os (\<lambda>k. k)"
  by (auto simp: epoll_ctl_documented_def interest_os_def split: ctl_op.splits option.splits)

lemma interest_os_wait: "epoll_wait_documented interest_os (\<lambda>k. k)"
  by (auto simp: epoll_wait_documented_def interest_os_def split: option.splits)

text \<open>One new channel on descriptor 5, and one that was added with the read mask.\<close>

definition fresh_net :: "(interest_kernel, unit) net" where
  "fresh_net = \<lparr>kernel = (\<lambda>_. Map.empty), heap = [1 \<mapsto> new_channel 0 5]\<rparr>"

definition fresh_poller :: epoll_poller where
  "fresh_poller = \<lparr>ep_fd = 3, ep_channels = Map.empty, ep_events_size = kInitEventListSize\<rparr>"

definition added_net :: "(interest_kernel, unit) net" where
  "added_net = \<lparr>kernel = (\<lambda>_. Map.empty)(3 := [5 \<mapsto> (EPOLLIN OR EPOLLPRI, 1)]),
     heap = [1 \<mapsto> (new_channel 0 5)\<lparr>ch_events := EPOLLIN OR EPOLLPRI, ch_index := kAdded\<rparr>]\<rparr>"

definition added_poller :: epoll_poller where
  "added_poller = fresh_poller\<lparr>ep_channels := [5 \<mapsto> 1]\<rparr>"

lemma fresh_wf: "wf_epoll {1} (fresh_poller, fresh_net)" "synced (\<lambda>k. k) (fresh_poller, fresh_net)"
  by (auto simp: fresh_net_def fresh_poller_def wf_table_def distinct_fds_def new_channel_def
      index_defs synced_def expected_interest_def)

lemma added_wf: "wf_epoll {1} (added_poller, added_net)" "synced (\<lambda>k. k) (added_poller, added_net)"
  by (auto simp: added_net_def added_poller_def fresh_poller_def wf_table_def distinct_fds_def
      new_channel_def index_defs synced_def expected_interest_def fd_of_def fun_eq_iff)


end
