(* ===== verification/Reactor.thy ===== *)
theory Reactor
  imports Poller
begin

text \<open>
  The event loop, \<^verbatim>\<open>include/network/reactor.h\<close> and \<^verbatim>\<open>src/network/reactor.cpp\<close>, with the
  channel operations that go through it. A reactor owns a poller, a queue of tasks and a
  wakeup descriptor. Tasks and callbacks are values of the type parameters \<open>'t\<close> and
  \<open>'cb\<close>; the functions \<open>run\<close> and \<open>invoke\<close> interpret them. The calling thread is the
  argument \<open>me\<close>. Each operation here runs to its end; the interleaving of the loop with
  other threads is the subject of the theory of wakeups.
\<close>

section \<open>State\<close>

record 't reactor =
  r_quit :: bool
  r_calling_pending_tasks :: bool
  r_poller :: poller
  r_active_channels :: "chan_ptr list"
  r_pending_tasks :: "'t list"
  r_wakeup_fd :: int
  r_wakeup_channel :: chan_ptr
  r_thread_id :: thread_id

record ('k, 'cb, 't) rnet = "('k, 'cb) net" +
  reactors :: "reactor_ptr \<rightharpoonup> 't reactor"
  next_chan :: chan_ptr

definition get_reactor :: "reactor_ptr \<Rightarrow> ('k, 'cb, 't, 'z) rnet_scheme \<Rightarrow> 't reactor outcome" where
  "get_reactor r w = (case reactors w r of None \<Rightarrow> Inl Undefined | Some R \<Rightarrow> Inr R)"

definition put_reactor :: "reactor_ptr \<Rightarrow> 't reactor \<Rightarrow> ('k, 'cb, 't, 'z) rnet_scheme \<Rightarrow>
    ('k, 'cb, 't, 'z) rnet_scheme" where
  "put_reactor r R w = w\<lparr>reactors := (reactors w)(r \<mapsto> R)\<rparr>"

text \<open>A member function that only changes the reactor's own fields.\<close>

definition on_reactor :: "reactor_ptr \<Rightarrow> ('t reactor \<Rightarrow> 't reactor) \<Rightarrow>
    ('k, 'cb, 't, 'z) rnet_scheme \<Rightarrow> ('k, 'cb, 't, 'z) rnet_scheme outcome" where
  "on_reactor r f w = obind (get_reactor r w) (\<lambda>R. Inr (put_reactor r (f R) w))"

definition isInLoopThread :: "thread_id \<Rightarrow> 't reactor \<Rightarrow> bool" where
  "isInLoopThread me R \<longleftrightarrow> r_thread_id R = me"

section \<open>Channels of a reactor\<close>

definition reactor_updateChannel :: "'k build \<Rightarrow> thread_id \<Rightarrow> reactor_ptr \<Rightarrow> chan_ptr \<Rightarrow>
    ('k, 'cb, 't, 'z) rnet_scheme \<Rightarrow> ('k, 'cb, 't, 'z) rnet_scheme outcome" where
  "reactor_updateChannel b me r c w =
     obind (get_reactor r w) (\<lambda>R.
     obind (deref c w) (\<lambda>ch.
     obind (cpp_assert (ndebug b) (ch_reactor ch = r) w) (\<lambda>w.
     obind (cpp_assert (ndebug b) (isInLoopThread me R) w) (\<lambda>w.
     obind (poller_updateChannel (os b) c (r_poller R, w)) (\<lambda>(p, w).
       Inr (put_reactor r (R\<lparr>r_poller := p\<rparr>) w))))))"

definition reactor_removeChannel :: "'k build \<Rightarrow> thread_id \<Rightarrow> reactor_ptr \<Rightarrow> chan_ptr \<Rightarrow>
    ('k, 'cb, 't, 'z) rnet_scheme \<Rightarrow> ('k, 'cb, 't, 'z) rnet_scheme outcome" where
  "reactor_removeChannel b me r c w =
     obind (get_reactor r w) (\<lambda>R.
     obind (deref c w) (\<lambda>ch.
     obind (cpp_assert (ndebug b) (ch_reactor ch = r) w) (\<lambda>w.
     obind (cpp_assert (ndebug b) (isInLoopThread me R) w) (\<lambda>w.
     obind (poller_removeChannel (os b) c (r_poller R, w)) (\<lambda>(p, w).
       Inr (put_reactor r (R\<lparr>r_poller := p\<rparr>) w))))))"

text \<open>\<^verbatim>\<open>Channel::update()\<close>, and the interest operations of \<^verbatim>\<open>channel.h\<close> that call it.\<close>

definition channel_update :: "'k build \<Rightarrow> thread_id \<Rightarrow> chan_ptr \<Rightarrow>
    ('k, 'cb, 't, 'z) rnet_scheme \<Rightarrow> ('k, 'cb, 't, 'z) rnet_scheme outcome" where
  "channel_update b me c w =
     obind (deref c w) (\<lambda>ch. reactor_updateChannel b me (ch_reactor ch) c w)"

definition change_interest :: "'k build \<Rightarrow> thread_id \<Rightarrow> interest \<Rightarrow> chan_ptr \<Rightarrow>
    ('k, 'cb, 't, 'z) rnet_scheme \<Rightarrow> ('k, 'cb, 't, 'z) rnet_scheme outcome" where
  "change_interest b me i c w =
     obind (deref c w) (\<lambda>ch. channel_update b me c (store c (set_interest (platform b) i ch) w))"

definition channel_remove :: "'k build \<Rightarrow> thread_id \<Rightarrow> chan_ptr \<Rightarrow>
    ('k, 'cb, 't, 'z) rnet_scheme \<Rightarrow> ('k, 'cb, 't, 'z) rnet_scheme outcome" where
  "channel_remove b me c w =
     obind (deref c w) (\<lambda>ch.
     obind (cpp_assert (ndebug b) (isNoneEvent ch) w) (\<lambda>w.
       reactor_removeChannel b me (ch_reactor ch) c w))"

text \<open>Construction and destruction of a channel object.\<close>

definition alloc_channel :: "'cb channel \<Rightarrow> ('k, 'cb, 't, 'z) rnet_scheme \<Rightarrow>
    chan_ptr \<times> ('k, 'cb, 't, 'z) rnet_scheme" where
  "alloc_channel ch w = (next_chan w, (store (next_chan w) ch w)\<lparr>next_chan := Suc (next_chan w)\<rparr>)"

definition destroy_channel :: "'k build \<Rightarrow> chan_ptr \<Rightarrow> ('k, 'cb, 't, 'z) rnet_scheme \<Rightarrow>
    ('k, 'cb, 't, 'z) rnet_scheme outcome" where
  "destroy_channel b c w =
     obind (deref c w) (\<lambda>ch.
     obind (cpp_assert (ndebug b) (\<not> isReading (platform b) ch \<and> \<not> isWriting (platform b) ch) w)
       (\<lambda>w. Inr (w\<lparr>heap := (heap w)(c := None)\<rparr>)))"

section \<open>Wakeup, construction, destruction\<close>

text \<open>On Windows the wakeup descriptor is a plain socket, and one byte is sent through it.\<close>

definition createEventfd :: "'k build \<Rightarrow> ('k, 'cb, 't, 'z) rnet_scheme \<Rightarrow>
    (int \<times> ('k, 'cb, 't, 'z) rnet_scheme) outcome" where
  "createEventfd b w =
     (case (case platform b of Win32 \<Rightarrow> sys_socket (os b) (kernel w)
                             | Linux \<Rightarrow> sys_eventfd (os b) (kernel w)) of (efd, k) \<Rightarrow>
        if efd < 0 then Inl Aborted else Inr (efd, w\<lparr>kernel := k\<rparr>))"

text \<open>
  The bytes of \<^verbatim>\<open>one\<close>: a \<^verbatim>\<open>char\<close> on Windows, a \<^verbatim>\<open>uint64_t\<close>, least significant
  byte first, on Linux.
\<close>

fun wakeup_message :: "platform \<Rightarrow> string" where
  "wakeup_message Win32 = [CHR 0x01]"
| "wakeup_message Linux = CHR 0x01 # replicate 7 (CHR 0x00)"

definition wakeup :: "'k build \<Rightarrow> reactor_ptr \<Rightarrow> ('k, 'cb, 't, 'z) rnet_scheme \<Rightarrow>
    ('k, 'cb, 't, 'z) rnet_scheme outcome" where
  "wakeup b r w =
     obind (get_reactor r w) (\<lambda>R.
       case sys_write (os b) (r_wakeup_fd R) (wakeup_message (platform b)) (kernel w) of (n, k) \<Rightarrow>
         Inr (w\<lparr>kernel := k\<rparr>))"

definition handleWakeup :: "'k build \<Rightarrow> reactor_ptr \<Rightarrow> ('k, 'cb, 't, 'z) rnet_scheme \<Rightarrow>
    ('k, 'cb, 't, 'z) rnet_scheme outcome" where
  "handleWakeup b r w =
     obind (get_reactor r w) (\<lambda>R.
       case sys_read (os b) (r_wakeup_fd R) (length (wakeup_message (platform b))) (kernel w) of
         ((n, bytes), k) \<Rightarrow> Inr (w\<lparr>kernel := k\<rparr>))"

definition new_poller :: "'k build \<Rightarrow> ('k, 'cb, 't, 'z) rnet_scheme \<Rightarrow>
    (poller \<times> ('k, 'cb, 't, 'z) rnet_scheme) outcome" where
  "new_poller b w = (case platform b of
       Win32 \<Rightarrow> Inr (Select new_select_poller, w)
     | Linux \<Rightarrow> obind (new_epoll_poller (os b) w) (\<lambda>(p, w). Inr (Epoll p, w)))"

text \<open>\<open>on_wakeup r\<close> is the closure that calls \<open>handleWakeup\<close> on the reactor \<open>r\<close>.\<close>

definition new_reactor :: "'k build \<Rightarrow> thread_id \<Rightarrow> (reactor_ptr \<Rightarrow> 'cb) \<Rightarrow> reactor_ptr \<Rightarrow>
    ('k, 'cb, 't, 'z) rnet_scheme \<Rightarrow> ('k, 'cb, 't, 'z) rnet_scheme outcome" where
  "new_reactor b me on_wakeup r w =
     obind (new_poller b w) (\<lambda>(p, w).
     obind (createEventfd b w) (\<lambda>(efd, w).
     let (c, w) = alloc_channel (setReadCallback (on_wakeup r) (new_channel r efd)) w;
         R = \<lparr>r_quit = False, r_calling_pending_tasks = False, r_poller = p,
              r_active_channels = [], r_pending_tasks = [], r_wakeup_fd = efd,
              r_wakeup_channel = c, r_thread_id = me\<rparr>
     in change_interest b me EnableReading c (put_reactor r R w)))"

definition destroy_reactor :: "'k build \<Rightarrow> thread_id \<Rightarrow> reactor_ptr \<Rightarrow>
    ('k, 'cb, 't, 'z) rnet_scheme \<Rightarrow> ('k, 'cb, 't, 'z) rnet_scheme outcome" where
  "destroy_reactor b me r w =
     obind (get_reactor r w) (\<lambda>R.
     obind (change_interest b me DisableAll (r_wakeup_channel R) w) (\<lambda>w.
     obind (channel_remove b me (r_wakeup_channel R) w) (\<lambda>w.
     let w = w\<lparr>kernel := sys_close (os b) (r_wakeup_fd R) (kernel w)\<rparr>
     in obind (destroy_channel b (r_wakeup_channel R) w) (\<lambda>w.
     obind (get_reactor r w) (\<lambda>R.
       Inr (w\<lparr>kernel := destroy_poller (os b) (r_poller R) (kernel w), reactors := (reactors w)(r := None)\<rparr>))))))"

section \<open>Tasks\<close>

definition queueInLoop :: "'k build \<Rightarrow> thread_id \<Rightarrow> reactor_ptr \<Rightarrow> 't \<Rightarrow>
    ('k, 'cb, 't, 'z) rnet_scheme \<Rightarrow> ('k, 'cb, 't, 'z) rnet_scheme outcome" where
  "queueInLoop b me r task w =
     obind (on_reactor r (\<lambda>R. R\<lparr>r_pending_tasks := r_pending_tasks R @ [task]\<rparr>) w) (\<lambda>w.
     obind (get_reactor r w) (\<lambda>R.
       if \<not> isInLoopThread me R \<or> r_calling_pending_tasks R then wakeup b r w else Inr w))"

definition runInLoop :: "'k build \<Rightarrow> ('t \<Rightarrow> ('k, 'cb, 't, 'z) rnet_scheme \<Rightarrow> ('k, 'cb, 't, 'z) rnet_scheme outcome) \<Rightarrow>
    thread_id \<Rightarrow> reactor_ptr \<Rightarrow> 't \<Rightarrow>
    ('k, 'cb, 't, 'z) rnet_scheme \<Rightarrow> ('k, 'cb, 't, 'z) rnet_scheme outcome" where
  "runInLoop b run me r task w =
     obind (get_reactor r w) (\<lambda>R.
       if isInLoopThread me R then run task w else queueInLoop b me r task w)"

definition doPendingTasks :: "('t \<Rightarrow> ('k, 'cb, 't, 'z) rnet_scheme \<Rightarrow> ('k, 'cb, 't, 'z) rnet_scheme outcome) \<Rightarrow>
    reactor_ptr \<Rightarrow> ('k, 'cb, 't, 'z) rnet_scheme \<Rightarrow> ('k, 'cb, 't, 'z) rnet_scheme outcome" where
  "doPendingTasks run r w =
     obind (on_reactor r (\<lambda>R. R\<lparr>r_calling_pending_tasks := True\<rparr>) w) (\<lambda>w.
     obind (get_reactor r w) (\<lambda>R.
     let tasks = r_pending_tasks R
     in obind (on_reactor r (\<lambda>R. R\<lparr>r_pending_tasks := []\<rparr>) w) (\<lambda>w.
        obind (ofold run tasks w) (\<lambda>w.
          on_reactor r (\<lambda>R. R\<lparr>r_calling_pending_tasks := False\<rparr>) w))))"

definition quit :: "'k build \<Rightarrow> thread_id \<Rightarrow> reactor_ptr \<Rightarrow>
    ('k, 'cb, 't, 'z) rnet_scheme \<Rightarrow> ('k, 'cb, 't, 'z) rnet_scheme outcome" where
  "quit b me r w =
     obind (on_reactor r (\<lambda>R. R\<lparr>r_quit := True\<rparr>) w) (\<lambda>w.
     obind (get_reactor r w) (\<lambda>R.
       if \<not> isInLoopThread me R then wakeup b r w else Inr w))"

section \<open>The loop\<close>

definition handle_channel :: "'k build \<Rightarrow>
    ('cb \<Rightarrow> ('k, 'cb, 't, 'z) rnet_scheme \<Rightarrow> ('k, 'cb, 't, 'z) rnet_scheme outcome) \<Rightarrow>
    chan_ptr \<Rightarrow> ('k, 'cb, 't, 'z) rnet_scheme \<Rightarrow> ('k, 'cb, 't, 'z) rnet_scheme outcome" where
  "handle_channel b invoke c w =
     obind (deref c w) (\<lambda>ch. handleEvent invoke (platform b) ch w)"

text \<open>One round of the loop's body.\<close>

definition loop_round :: "'k build \<Rightarrow>
    ('cb \<Rightarrow> ('k, 'cb, 't, 'z) rnet_scheme \<Rightarrow> ('k, 'cb, 't, 'z) rnet_scheme outcome) \<Rightarrow>
    ('t \<Rightarrow> ('k, 'cb, 't, 'z) rnet_scheme \<Rightarrow> ('k, 'cb, 't, 'z) rnet_scheme outcome) \<Rightarrow>
    reactor_ptr \<Rightarrow> ('k, 'cb, 't, 'z) rnet_scheme \<Rightarrow> ('k, 'cb, 't, 'z) rnet_scheme outcome" where
  "loop_round b invoke run r w =
     obind (on_reactor r (\<lambda>R. R\<lparr>r_active_channels := []\<rparr>) w) (\<lambda>w.
     obind (get_reactor r w) (\<lambda>R.
     obind (poller_poll (os b) 1000 (r_poller R, w) (r_active_channels R)) (\<lambda>(active, p, w).
     let w = put_reactor r (R\<lparr>r_poller := p, r_active_channels := active\<rparr>) w
     in obind (ofold (handle_channel b invoke) active w) (doPendingTasks run r))))"

partial_function (option) loop_while :: "'k build \<Rightarrow>
    ('cb \<Rightarrow> ('k, 'cb, 't, 'z) rnet_scheme \<Rightarrow> ('k, 'cb, 't, 'z) rnet_scheme outcome) \<Rightarrow>
    ('t \<Rightarrow> ('k, 'cb, 't, 'z) rnet_scheme \<Rightarrow> ('k, 'cb, 't, 'z) rnet_scheme outcome) \<Rightarrow>
    reactor_ptr \<Rightarrow> ('k, 'cb, 't, 'z) rnet_scheme \<Rightarrow> ('k, 'cb, 't, 'z) rnet_scheme outcome option" where
  "loop_while b invoke run r w =
     (case get_reactor r w of
        Inl e \<Rightarrow> Some (Inl e)
      | Inr R \<Rightarrow>
          if r_quit R then Some (Inr w)
          else (case loop_round b invoke run r w of
                  Inl e \<Rightarrow> Some (Inl e)
                | Inr w' \<Rightarrow> loop_while b invoke run r w'))"

definition loop :: "'k build \<Rightarrow>
    ('cb \<Rightarrow> ('k, 'cb, 't, 'z) rnet_scheme \<Rightarrow> ('k, 'cb, 't, 'z) rnet_scheme outcome) \<Rightarrow>
    ('t \<Rightarrow> ('k, 'cb, 't, 'z) rnet_scheme \<Rightarrow> ('k, 'cb, 't, 'z) rnet_scheme outcome) \<Rightarrow>
    thread_id \<Rightarrow> reactor_ptr \<Rightarrow> ('k, 'cb, 't, 'z) rnet_scheme \<Rightarrow>
    ('k, 'cb, 't, 'z) rnet_scheme outcome option" where
  "loop b invoke run me r w =
     (case obind (get_reactor r w) (\<lambda>R.
           obind (cpp_assert (ndebug b) (\<not> r_quit R) w) (\<lambda>w.
           cpp_assert (ndebug b) (isInLoopThread me R) w)) of
        Inl e \<Rightarrow> Some (Inl e)
      | Inr w \<Rightarrow> loop_while b invoke run r w)"

section \<open>Framing lemmas\<close>

named_theorems reactor_simps

lemma get_put_reactor [simp, reactor_simps]:
  "get_reactor r (put_reactor r' R w) = (if r = r' then Inr R else get_reactor r w)"
  by (simp add: get_reactor_def put_reactor_def)

lemma get_reactor_Some [simp]: "reactors w r = Some R \<Longrightarrow> get_reactor r w = Inr R"
  by (simp add: get_reactor_def)

lemma get_reactor_Inr_iff: "get_reactor r w = Inr R \<longleftrightarrow> reactors w r = Some R"
  by (simp add: get_reactor_def split: option.splits)

lemma reactors_put [simp]: "reactors (put_reactor r R w) = (reactors w)(r \<mapsto> R)"
  by (simp add: put_reactor_def)

lemma net_put_reactor [simp]:
  "heap (put_reactor r R w) = heap w" "kernel (put_reactor r R w) = kernel w"
  "next_chan (put_reactor r R w) = next_chan w"
  by (simp_all add: put_reactor_def)

lemma reactors_store [simp]: "reactors (store c ch w) = reactors w"
  by (simp add: store_def)

lemma next_chan_store [simp]: "next_chan (store c ch w) = next_chan w"
  by (simp add: store_def)

lemma on_reactor_Some [simp]:
  "reactors w r = Some R \<Longrightarrow> on_reactor r f w = Inr (put_reactor r (f R) w)"
  by (simp add: on_reactor_def)

lemma wakeup_Some:
  "reactors w r = Some R \<Longrightarrow> wakeup b r w =
     Inr (w\<lparr>kernel := snd (sys_write (os b) (r_wakeup_fd R) (wakeup_message (platform b)) (kernel w))\<rparr>)"
  by (simp add: wakeup_def split: prod.splits)

lemma setIndex_same: "setIndex (ch_index ch) ch = ch"
  by (simp add: setIndex_def)

lemma store_same: "heap w c = Some ch \<Longrightarrow> store c ch w = w"
  by (simp add: store_def fun_upd_idem)

text \<open>
  On a live channel the pollers return, and change nothing but the channel's index, the
  poller and the kernel.
\<close>

lemma kernel_id [simp]: "w\<lparr>kernel := kernel w\<rparr> = w"
  by simp

text \<open>What such a call leaves behind; untouched channel and kernel are the degenerate cases.\<close>

definition touched :: "chan_ptr \<Rightarrow> 'cb channel \<Rightarrow> ('k, 'cb, 'z) net_scheme \<Rightarrow>
    ('p \<times> ('k, 'cb, 'z) net_scheme) outcome \<Rightarrow> bool" where
  "touched c ch w res \<longleftrightarrow> (\<exists>p' i k'. res = Inr (p', store c (setIndex i ch) (w\<lparr>kernel := k'\<rparr>)))"

lemma touchedI: "res = Inr (p', store c (setIndex i ch) (w\<lparr>kernel := k'\<rparr>)) \<Longrightarrow> touched c ch w res"
  unfolding touched_def by blast

lemma touched_kernelI:
  "heap w c = Some ch \<Longrightarrow> res = Inr (p', w\<lparr>kernel := k'\<rparr>) \<Longrightarrow> touched c ch w res"
  by (rule touchedI [of _ _ _ "ch_index ch"]) (simp add: setIndex_same store_same)

lemma touched_sameI: "heap w c = Some ch \<Longrightarrow> res = Inr (p', w) \<Longrightarrow> touched c ch w res"
  by (rule touched_kernelI [of _ _ _ _ _ "kernel w"]) simp_all

lemma touched_indexI: "res = Inr (p', store c (setIndex i ch) w) \<Longrightarrow> touched c ch w res"
  by (rule touchedI [where i = i and k' = "kernel w" and p' = p']) simp

lemmas touched_intros = touchedI touched_kernelI touched_sameI touched_indexI

lemma touched_map:
  "touched c ch w m \<Longrightarrow> touched c ch w (obind m (\<lambda>(p, w). Inr (f p, w)))"
  by (auto simp: touched_def) blast

lemma epoll_updateChannel_shape:
  assumes "heap w c = Some ch"
  shows "touched c ch w (epoll_updateChannel sys c (p, w))"
proof -
  consider "ch_index ch = kNew \<or> ch_index ch = kDeleted"
    | "\<not> (ch_index ch = kNew \<or> ch_index ch = kDeleted)" "isNoneEvent ch"
    | "\<not> (ch_index ch = kNew \<or> ch_index ch = kDeleted)" "\<not> isNoneEvent ch" by blast
  then show ?thesis
  proof cases
    case 1
    with assms show ?thesis
      by (cases "ch_index ch = kNew")
        (auto simp: epoll_updateChannel_def epoll_update_eq Let_def intro: touchedI)
  next
    case 2
    with assms show ?thesis
      by (auto simp: epoll_updateChannel_def epoll_update_eq Let_def intro: touchedI)
  next
    case 3
    with assms show ?thesis
      by (auto simp: epoll_updateChannel_def epoll_update_eq Let_def intro: touched_kernelI)
  qed
qed

lemma epoll_removeChannel_shape:
  assumes "heap w c = Some ch"
  shows "touched c ch w (epoll_removeChannel sys c (p, w))"
  using assms by (cases "ch_index ch = kAdded")
    (auto simp: epoll_removeChannel_def epoll_update_eq Let_def intro: touchedI touched_indexI)

lemma poller_updateChannel_shape:
  assumes "heap w c = Some ch"
  shows "touched c ch w (poller_updateChannel sys c (p, w))"
proof (cases p)
  case (Epoll q)
  with touched_map [OF epoll_updateChannel_shape [OF assms, of sys q]] show ?thesis by simp
next
  case (Select q)
  with assms show ?thesis
    by (cases "sp_channels q (ch_fd ch)") (auto simp: select_updateChannel_def intro: touched_sameI)
qed

lemma poller_removeChannel_shape:
  assumes "heap w c = Some ch"
  shows "touched c ch w (poller_removeChannel sys c (p, w))"
proof (cases p)
  case (Epoll q)
  with touched_map [OF epoll_removeChannel_shape [OF assms, of sys q]] show ?thesis by simp
next
  case (Select q)
  with assms show ?thesis
    by (cases "sp_channels q (ch_fd ch)") (auto simp: select_removeChannel_def intro: touched_sameI)
qed

text \<open>The interest operations and the removal, by a thread the assertions accept.\<close>

definition may_touch :: "'k build \<Rightarrow> thread_id \<Rightarrow> 't reactor \<Rightarrow> bool" where
  "may_touch b me R \<longleftrightarrow> ndebug b \<or> isInLoopThread me R"

lemma change_interest_shape:
  assumes "heap w c = Some ch" and "reactors w (ch_reactor ch) = Some R" and "may_touch b me R"
  obtains p' i k' where "change_interest b me op c w =
    Inr (put_reactor (ch_reactor ch) (R\<lparr>r_poller := p'\<rparr>)
      (store c (setIndex i (set_interest (platform b) op ch)) (w\<lparr>kernel := k'\<rparr>)))"
proof -
  let ?ch = "set_interest (platform b) op ch" and ?r = "ch_reactor ch"
  let ?w = "store c ?ch w"
  have same: "ch_reactor ?ch = ?r" by (simp add: set_interest_def)
  have "heap ?w c = Some ?ch" by simp
  then obtain p' i k' where "poller_updateChannel (os b) c (r_poller R, ?w) =
      Inr (p', store c (setIndex i ?ch) (?w\<lparr>kernel := k'\<rparr>))"
    using poller_updateChannel_shape unfolding touched_def by blast
  with that assms same show thesis
    by (auto simp: change_interest_def channel_update_def reactor_updateChannel_def cpp_assert_def
        may_touch_def)
qed

lemma channel_remove_shape:
  assumes "heap w c = Some ch" and "reactors w (ch_reactor ch) = Some R" and "may_touch b me R"
    and "isNoneEvent ch"
  obtains p' i k' where "channel_remove b me c w =
    Inr (put_reactor (ch_reactor ch) (R\<lparr>r_poller := p'\<rparr>) (store c (setIndex i ch) (w\<lparr>kernel := k'\<rparr>)))"
proof -
  obtain p' i k' where "poller_removeChannel (os b) c (r_poller R, w) =
      Inr (p', store c (setIndex i ch) (w\<lparr>kernel := k'\<rparr>))"
    using poller_removeChannel_shape [OF assms(1)] unfolding touched_def by blast
  with that assms show thesis
    by (auto simp: channel_remove_def reactor_removeChannel_def cpp_assert_def may_touch_def)
qed

end
