(* ===== verification/EventLoop.thy ===== *)
theory EventLoop
  imports Reactor
begin

text \<open>
  What the event loop promises: the channel operations of the loop thread refine a set of
  registered channels and never trip an assertion; tasks run once, in order, and a task
  queued by a task waits for the next round; the loop returns exactly when a round leaves
  the quit flag set; construction and destruction of a reactor are inverse; and a reactor
  refuses to loop in a thread other than the one that created it.
\<close>

section \<open>Channels of a reactor\<close>

text \<open>
  The reactor \<open>r\<close> may be used by the thread \<open>me\<close>, and the channels \<open>C\<close> are its own, with
  different descriptors.
\<close>

definition wf_reactor :: "'k build \<Rightarrow> thread_id \<Rightarrow> reactor_ptr \<Rightarrow> chan_ptr set \<Rightarrow>
    ('k, 'cb, 't, 'z) rnet_scheme \<Rightarrow> bool" where
  "wf_reactor b me r C w \<longleftrightarrow> (\<exists>R. reactors w r = Some R \<and> may_touch b me R \<and>
     wf_poller C (r_poller R, w) \<and>
     (\<forall>c \<in> C. \<exists>ch. heap w c = Some ch \<and> ch_reactor ch = r))"

fun registrations :: "poller \<Rightarrow> chan_ptr set" where
  "registrations (Epoll p) = ran (ep_channels p)"
| "registrations (Select p) = set (sp_polled p)"

definition registered_in :: "reactor_ptr \<Rightarrow> ('k, 'cb, 't, 'z) rnet_scheme \<Rightarrow> chan_ptr set" where
  "registered_in r w = (case reactors w r of None \<Rightarrow> {} | Some R \<Rightarrow> registrations (r_poller R))"

definition events_of :: "chan_ptr \<Rightarrow> ('k, 'cb, 'z) net_scheme \<Rightarrow> u32" where
  "events_of c w = (case heap w c of None \<Rightarrow> kNoneEvent | Some ch \<Rightarrow> ch_events ch)"

text \<open>
  The calls the program makes on a channel: an interest change, and the retirement, which is
  always \<^verbatim>\<open>disableAll()\<close> followed by \<^verbatim>\<open>remove()\<close>.
\<close>

datatype chan_call = Interest interest chan_ptr | Retire chan_ptr

fun call_target :: "chan_call \<Rightarrow> chan_ptr" where
  "call_target (Interest i c) = c"
| "call_target (Retire c) = c"

fun channel_call :: "'k build \<Rightarrow> thread_id \<Rightarrow> chan_call \<Rightarrow>
    ('k, 'cb, 't, 'z) rnet_scheme \<Rightarrow> ('k, 'cb, 't, 'z) rnet_scheme outcome" where
  "channel_call b me (Interest i c) w = change_interest b me i c w"
| "channel_call b me (Retire c) w =
     obind (change_interest b me DisableAll c w) (channel_remove b me c)"

text \<open>The same calls on the abstract state: the registered set and the mask of each channel.\<close>

type_synonym registry = "chan_ptr set \<times> (chan_ptr \<Rightarrow> u32)"

fun registry_call :: "platform \<Rightarrow> chan_call \<Rightarrow> registry \<Rightarrow> registry" where
  "registry_call pf (Interest i c) (S, ev) = (insert c S, ev(c := new_events pf i (ev c)))"
| "registry_call pf (Retire c) (S, ev) = (S - {c}, ev(c := kNoneEvent))"

definition registry_of :: "reactor_ptr \<Rightarrow> ('k, 'cb, 't, 'z) rnet_scheme \<Rightarrow> registry" where
  "registry_of r w = (registered_in r w, \<lambda>c. events_of c w)"

lemma wf_poller_net_cong:
  "heap w = heap v \<Longrightarrow> wf_poller C (p, w) \<longleftrightarrow> wf_poller C (p, v)"
  by (cases p) (auto simp: wf_table_def distinct_fds_def fd_of_def fun_eq_iff inj_on_def)

lemma poller_registered_eq [simp]: "poller_registered (p, w) = registrations p"
  by (cases p) auto

lemma wf_reactorE:
  assumes "wf_reactor b me r C w" and "c \<in> C"
  obtains R ch where "reactors w r = Some R" and "may_touch b me R" and "wf_poller C (r_poller R, w)"
    and "\<forall>c \<in> C. \<exists>ch. heap w c = Some ch \<and> ch_reactor ch = r"
    and "heap w c = Some ch" and "ch_reactor ch = r"
  using assms unfolding wf_reactor_def by metis

lemma wf_poller_set_interest:
  assumes "wf_poller C (p, w)" and "heap w c = Some ch"
  shows "wf_poller C (p, store c (set_interest pf i ch) w)"
proof (cases p)
  case (Epoll q)
  with assms wf_epoll_set_mask [of C q w c ch "new_events pf i (ch_events ch)"] show ?thesis
    by (simp add: set_interest_def del: wf_epoll.simps)
next
  case (Select q)
  with assms show ?thesis by (simp add: set_interest_def)
qed

lemma set_interest_simps [simp]:
  "ch_reactor (set_interest pf i ch) = ch_reactor ch"
  "ch_events (set_interest pf i ch) = new_events pf i (ch_events ch)"
  "ch_fd (set_interest pf i ch) = ch_fd ch"
  by (simp_all add: set_interest_def)

text \<open>What one call does, given what the poller's own operation does.\<close>

lemma wf_reactor_touched:
  assumes "reactors w r = Some R" and "may_touch b me R" and "heap w c = Some ch"
    and "\<forall>c \<in> C. \<exists>ch. heap w c = Some ch \<and> ch_reactor ch = r"
    and "wf_poller C (p', store c (setIndex i ch') (w\<lparr>kernel := k'\<rparr>))" and "ch_reactor ch' = ch_reactor ch"
  shows "wf_reactor b me r C
    (put_reactor r (R\<lparr>r_poller := p'\<rparr>) (store c (setIndex i ch') (w\<lparr>kernel := k'\<rparr>)))"
proof -
  let ?w = "store c (setIndex i ch') (w\<lparr>kernel := k'\<rparr>)"
  have "wf_poller C (p', put_reactor r (R\<lparr>r_poller := p'\<rparr>) ?w)"
    using assms(5) wf_poller_net_cong [of "put_reactor r (R\<lparr>r_poller := p'\<rparr>) ?w" ?w] by simp
  moreover have "may_touch b me (R\<lparr>r_poller := p'\<rparr>)"
    using assms(2) by (simp add: may_touch_def isInLoopThread_def)
  ultimately show ?thesis using assms(3,4,6) by (auto simp: wf_reactor_def)
qed

lemma change_interest_law:
  assumes "wf_reactor b me r C w" and "c \<in> C"
  shows "\<exists>w'. change_interest b me i c w = Inr w' \<and> wf_reactor b me r C w' \<and>
     registry_of r w' = registry_call (platform b) (Interest i c) (registry_of r w) \<and>
     (\<forall>r'. r' \<noteq> r \<longrightarrow> reactors w' r' = reactors w r')"
proof -
  obtain R ch where R: "reactors w r = Some R" "may_touch b me R" "wf_poller C (r_poller R, w)"
    and own: "\<forall>c \<in> C. \<exists>ch. heap w c = Some ch \<and> ch_reactor ch = r"
    and ch: "heap w c = Some ch" "ch_reactor ch = r"
    using assms(1,2) by (rule wf_reactorE)
  let ?ch = "set_interest (platform b) i ch" and ?w = "store c (set_interest (platform b) i ch) w"
  have "wf_poller C (r_poller R, ?w)" using R(3) ch(1) by (rule wf_poller_set_interest)
  from poller_update_law [OF this assms(2), of "os b"] obtain t where
    t: "poller_updateChannel (os b) c (r_poller R, ?w) = Inr t" "wf_poller C t"
      "poller_registered t = insert c (poller_registered (r_poller R, ?w))" by blast
  have "heap ?w c = Some ?ch" by simp
  from poller_updateChannel_shape [OF this, of "os b" "r_poller R"] t(1) obtain p' ix k' where
    t': "t = (p', store c (setIndex ix ?ch) (w\<lparr>kernel := k'\<rparr>))" by (auto simp: touched_def)
  let ?w' = "put_reactor r (R\<lparr>r_poller := p'\<rparr>) (store c (setIndex ix ?ch) (w\<lparr>kernel := k'\<rparr>))"
  have "change_interest b me i c w = Inr ?w'"
    using R(1,2) ch t(1) t' by (auto simp: change_interest_def channel_update_def
        reactor_updateChannel_def cpp_assert_def may_touch_def)
  moreover have "wf_reactor b me r C ?w'"
    by (rule wf_reactor_touched [OF R(1,2) ch(1) own]) (use t(2) t' in simp_all)
  moreover have "registry_of r ?w' = registry_call (platform b) (Interest i c) (registry_of r w)"
    using t(3) t' R(1) ch(1)
    by (auto simp: registry_of_def registered_in_def events_of_def fun_eq_iff)
  ultimately show ?thesis by simp
qed

lemma channel_remove_law:
  assumes "wf_reactor b me r C w" and "c \<in> C" and "events_of c w = kNoneEvent"
  shows "\<exists>w'. channel_remove b me c w = Inr w' \<and> wf_reactor b me r C w' \<and>
     registry_of r w' = registry_call (platform b) (Retire c) (registry_of r w) \<and>
     (\<forall>r'. r' \<noteq> r \<longrightarrow> reactors w' r' = reactors w r')"
proof -
  obtain R ch where R: "reactors w r = Some R" "may_touch b me R" "wf_poller C (r_poller R, w)"
    and own: "\<forall>c \<in> C. \<exists>ch. heap w c = Some ch \<and> ch_reactor ch = r"
    and ch: "heap w c = Some ch" "ch_reactor ch = r"
    using assms(1,2) by (rule wf_reactorE)
  from poller_remove_law [OF R(3) assms(2), of "os b"] obtain t where
    t: "poller_removeChannel (os b) c (r_poller R, w) = Inr t" "wf_poller C t"
      "poller_registered t = poller_registered (r_poller R, w) - {c}" by blast
  from poller_removeChannel_shape [OF ch(1), of "os b" "r_poller R"] t(1) obtain p' ix k' where
    t': "t = (p', store c (setIndex ix ch) (w\<lparr>kernel := k'\<rparr>))" by (auto simp: touched_def)
  let ?w' = "put_reactor r (R\<lparr>r_poller := p'\<rparr>) (store c (setIndex ix ch) (w\<lparr>kernel := k'\<rparr>))"
  have none: "isNoneEvent ch" using assms(3) ch by (simp add: events_of_def isNoneEvent_def)
  have "channel_remove b me c w = Inr ?w'"
    using R(1,2) ch t(1) t' none by (auto simp: channel_remove_def
        reactor_removeChannel_def cpp_assert_def may_touch_def)
  moreover have "wf_reactor b me r C ?w'"
    by (rule wf_reactor_touched [OF R(1,2) ch(1) own]) (use t(2) t' in simp_all)
  moreover have "registry_of r ?w' = registry_call (platform b) (Retire c) (registry_of r w)"
    using t(3) t' R(1) ch(1) assms(3)
    by (auto simp: registry_of_def registered_in_def events_of_def fun_eq_iff)
  ultimately show ?thesis by simp
qed

lemma channel_call_law:
  assumes "wf_reactor b me r C w" and "call_target op \<in> C"
  shows "\<exists>w'. channel_call b me op w = Inr w' \<and> wf_reactor b me r C w' \<and>
     registry_of r w' = registry_call (platform b) op (registry_of r w) \<and>
     (\<forall>r'. r' \<noteq> r \<longrightarrow> reactors w' r' = reactors w r')"
proof (cases op)
  case (Interest i c)
  with change_interest_law [OF assms(1), of c i] assms(2) show ?thesis by simp
next
  case (Retire c)
  with assms(2) have c: "c \<in> C" by simp
  from change_interest_law [OF assms(1) c, of DisableAll] obtain v where
    v: "change_interest b me DisableAll c w = Inr v" "wf_reactor b me r C v"
      "registry_of r v = registry_call (platform b) (Interest DisableAll c) (registry_of r w)"
      "\<forall>r'. r' \<noteq> r \<longrightarrow> reactors v r' = reactors w r'" by blast
  have "events_of c v = kNoneEvent" using v(3) by (simp add: registry_of_def fun_eq_iff)
  from channel_remove_law [OF v(2) c this] v Retire show ?thesis
    by (auto simp: registry_of_def)
qed

text \<open>The registry of one reactor, next to the other reactors, which no call touches.\<close>

definition others :: "reactor_ptr \<Rightarrow> ('k, 'cb, 't, 'z) rnet_scheme \<Rightarrow> reactor_ptr \<rightharpoonup> 't reactor" where
  "others r w = (reactors w)(r := None)"

lemma others_eq: "others r w' = others r w \<longleftrightarrow> (\<forall>r'. r' \<noteq> r \<longrightarrow> reactors w' r' = reactors w r')"
  by (auto simp: others_def fun_eq_iff)

interpretation channel_calls: simulation "channel_call b me" "\<lambda>op (reg, rest). (registry_call (platform b) op reg, rest)"
    "\<lambda>op. call_target op \<in> C" "wf_reactor b me r C" "\<lambda>w. (registry_of r w, others r w)" for b me C r
proof unfold_locales
  fix w :: "('a, 'b, 'c, 'd) rnet_scheme" and op
  assume "wf_reactor b me r C w" "call_target op \<in> C"
  from channel_call_law [OF this] show "\<exists>t. channel_call b me op w = Inr t \<and> wf_reactor b me r C t \<and>
      (registry_of r t, others r t) = (case (registry_of r w, others r w) of (reg, rest) \<Rightarrow>
        (registry_call (platform b) op reg, rest))"
    by (simp add: others_eq)
qed

lemma fold_fst: "fold (\<lambda>op (x, y). (f op x, y)) ops (x, y) = (fold f ops x, y)"
  by (induction ops arbitrary: x) simp_all

text \<open>
  C17: in the thread the assertions accept, every sequence of interest changes and retirements of
  a reactor's own channels, with different descriptors, succeeds on both platforms: no
  assertion fires, no pointer is stale. The registered set and the interest masks are those
  of the abstract registry, and no other reactor changes.
\<close>

theorem reactor_channels_refine:
  assumes "wf_reactor b me r C w" and "call_target ` set ops \<subseteq> C"
  shows "\<exists>w'. ofold (channel_call b me) ops w = Inr w' \<and> wf_reactor b me r C w' \<and>
     registry_of r w' = fold (registry_call (platform b)) ops (registry_of r w) \<and>
     (\<forall>r'. r' \<noteq> r \<longrightarrow> reactors w' r' = reactors w r')"
  using channel_calls.history_law [OF assms(1), of ops] assms(2) by (auto simp: fold_fst others_eq)

section \<open>Construction and destruction\<close>

lemma new_poller_frame:
  assumes "new_poller b w = Inr (p, w')"
  shows "\<exists>k. w' = w\<lparr>kernel := k\<rparr>" and "registrations p = {}"
    and "wf_table C Map.empty v \<Longrightarrow> (\<forall>c \<in> C. \<forall>ch. heap v c = Some ch \<longrightarrow> ch_index ch = kNew) \<Longrightarrow> wf_poller C (p, v)"
proof -
  have "(\<exists>k. w' = w\<lparr>kernel := k\<rparr>) \<and> registrations p = {} \<and>
    (wf_table C Map.empty v \<longrightarrow> (\<forall>c \<in> C. \<forall>ch. heap v c = Some ch \<longrightarrow> ch_index ch = kNew) \<longrightarrow> wf_poller C (p, v))"
  proof (cases "platform b")
    case Linux
    with assms show ?thesis
      by (auto simp: new_poller_def new_epoll_poller_def elim!: outcome_elims split: prod.splits if_splits)
  next
    case Win32
    with assms have "p = Select new_select_poller" "w' = w\<lparr>kernel := kernel w\<rparr>"
      by (auto simp: new_poller_def)
    then show ?thesis by (auto simp: new_select_poller_def intro: exI [of _ "kernel w"])
  qed
  then show "\<exists>k. w' = w\<lparr>kernel := k\<rparr>" "registrations p = {}"
    "wf_table C Map.empty v \<Longrightarrow> (\<forall>c \<in> C. \<forall>ch. heap v c = Some ch \<longrightarrow> ch_index ch = kNew) \<Longrightarrow> wf_poller C (p, v)"
    by blast+
qed

lemma createEventfd_frame: "createEventfd b w = Inr (efd, w') \<Longrightarrow> \<exists>k. w' = w\<lparr>kernel := k\<rparr>"
  by (cases "platform b") (auto simp: createEventfd_def split: prod.splits if_splits)

lemma wf_table_single: "heap v c = Some ch \<Longrightarrow> wf_table {c} Map.empty v"
  by (auto simp: wf_table_def distinct_fds_def)

text \<open>The state a new reactor leaves: itself, its wakeup channel and the kernel.\<close>

definition fresh_reactor :: "thread_id \<Rightarrow> chan_ptr \<Rightarrow> 't reactor \<Rightarrow> bool" where
  "fresh_reactor me c R \<longleftrightarrow> \<not> r_quit R \<and> \<not> r_calling_pending_tasks R \<and> r_pending_tasks R = [] \<and>
     r_wakeup_channel R = c \<and> r_thread_id R = me"

lemma new_reactor_steps:
  assumes p: "new_poller b w = Inr (p, w1)" and e: "createEventfd b w1 = Inr (efd, w2)"
  shows "\<exists>w' R ch k. new_reactor b me on_wakeup r w = Inr w' \<and>
     w' = put_reactor r R (store (next_chan w) ch
        (w\<lparr>kernel := k, next_chan := Suc (next_chan w)\<rparr>)) \<and>
     fresh_reactor me (next_chan w) R \<and> ch_reactor ch = r \<and>
     wf_reactor b me r {next_chan w} w' \<and>
     registry_of r w' = registry_call (platform b) (Interest EnableReading (next_chan w))
        ({}, (\<lambda>c. events_of c w)(next_chan w := kNoneEvent))"
proof -
  let ?c = "next_chan w"
  obtain k where w2: "w2 = w\<lparr>kernel := k\<rparr>"
    using new_poller_frame(1) [OF p] createEventfd_frame [OF e] by auto
  define ch where "ch = setReadCallback (on_wakeup r) (new_channel r efd)"
  define R :: "'c reactor" where "R = \<lparr>r_quit = False, r_calling_pending_tasks = False, r_poller = p,
              r_active_channels = [], r_pending_tasks = [], r_wakeup_fd = efd,
              r_wakeup_channel = ?c, r_thread_id = me\<rparr>"
  let ?w3 = "put_reactor r R ((store ?c ch w2)\<lparr>next_chan := Suc ?c\<rparr>)"
  have new: "new_reactor b me on_wakeup r w = change_interest b me EnableReading ?c ?w3"
    using p e w2 by (simp add: new_reactor_def alloc_channel_def ch_def R_def Let_def)
  have ch: "heap ?w3 ?c = Some ch" "ch_reactor ch = r" "ch_index ch = kNew" "ch_events ch = kNoneEvent"
    by (simp_all add: ch_def setReadCallback_def new_channel_def index_defs kNoneEvent_def)
  have R: "reactors ?w3 r = Some R" "may_touch b me R" "fresh_reactor me ?c R"
    by (simp_all add: R_def may_touch_def isInLoopThread_def fresh_reactor_def)
  have "wf_poller {?c} (p, ?w3)"
    using new_poller_frame(3) [OF p wf_table_single [OF ch(1)]] ch by simp
  then have wf: "wf_reactor b me r {?c} ?w3"
    using R ch by (auto simp: wf_reactor_def R_def)
  have reg: "registry_of r ?w3 = ({}, (\<lambda>c. events_of c w)(?c := kNoneEvent))"
    using new_poller_frame(2) [OF p] ch w2
    by (auto simp: registry_of_def registered_in_def R_def events_of_def fun_eq_iff)
  from change_interest_law [OF wf, of ?c EnableReading] new reg obtain w' where
    w': "new_reactor b me on_wakeup r w = Inr w'"
    and law: "wf_reactor b me r {?c} w'" "registry_of r w' =
      registry_call (platform b) (Interest EnableReading ?c) ({}, (\<lambda>c. events_of c w)(?c := kNoneEvent))"
    by auto
  have "reactors ?w3 (ch_reactor ch) = Some R" using R(1) ch(2) by simp
  then obtain p' i k' where "change_interest b me EnableReading ?c ?w3 =
      Inr (put_reactor (ch_reactor ch) (R\<lparr>r_poller := p'\<rparr>)
        (store ?c (setIndex i (set_interest (platform b) EnableReading ch)) (?w3\<lparr>kernel := k'\<rparr>)))"
    using change_interest_shape [OF ch(1) _ R(2), of EnableReading] by blast
  then have "w' = put_reactor r (R\<lparr>r_poller := p'\<rparr>)
      (store ?c (setIndex i (set_interest (platform b) EnableReading ch)) (?w3\<lparr>kernel := k'\<rparr>))"
    using new w' ch(2) by simp
  then have "w' = put_reactor r (R\<lparr>r_poller := p'\<rparr>) (store ?c
      (setIndex i (set_interest (platform b) EnableReading ch)) (w\<lparr>kernel := k', next_chan := Suc ?c\<rparr>))"
    by (simp add: w2 put_reactor_def store_def)
  moreover have "fresh_reactor me ?c (R\<lparr>r_poller := p'\<rparr>)" using R(3) by (simp add: fresh_reactor_def)
  ultimately show ?thesis using w' law ch(2) by (auto intro!: exI)
qed

lemma new_reactor_law:
  assumes "new_reactor b me on_wakeup r w = Inr w'"
  shows "\<exists>R ch k. w' = put_reactor r R (store (next_chan w) ch
        (w\<lparr>kernel := k, next_chan := Suc (next_chan w)\<rparr>)) \<and>
     fresh_reactor me (next_chan w) R \<and> ch_reactor ch = r \<and>
     wf_reactor b me r {next_chan w} w' \<and>
     registry_of r w' = registry_call (platform b) (Interest EnableReading (next_chan w))
        ({}, (\<lambda>c. events_of c w)(next_chan w := kNoneEvent))"
proof -
  obtain p w1 efd w2 where "new_poller b w = Inr (p, w1)" "createEventfd b w1 = Inr (efd, w2)"
    using assms by (auto simp: new_reactor_def elim!: outcome_elims)
  from new_reactor_steps [OF this, of me on_wakeup r] assms show ?thesis by auto
qed

lemma isReading_none: "ch_events ch = kNoneEvent \<Longrightarrow> \<not> isReading pf ch \<and> \<not> isWriting pf ch"
  by (simp add: isReading_def isWriting_def kNoneEvent_def has_bits_def)

text \<open>Disabling and removing a channel, the way it is taken out of service before it is freed.\<close>

lemma retire_shape:
  assumes "heap w c = Some ch" and "reactors w (ch_reactor ch) = Some R" and "may_touch b me R"
  obtains w1 p ch' k where "change_interest b me DisableAll c w = Inr w1"
    and "channel_remove b me c w1 = Inr (put_reactor (ch_reactor ch) (R\<lparr>r_poller := p\<rparr>) (store c ch' (w\<lparr>kernel := k\<rparr>)))"
    and "\<not> isReading (platform b) ch' \<and> \<not> isWriting (platform b) ch'"
proof -
  let ?r = "ch_reactor ch"
  obtain p1 i1 k1 where w1: "change_interest b me DisableAll c w = Inr (put_reactor ?r (R\<lparr>r_poller := p1\<rparr>)
      (store c (setIndex i1 (set_interest (platform b) DisableAll ch)) (w\<lparr>kernel := k1\<rparr>)))"
    using change_interest_shape [OF assms, of DisableAll] by blast
  let ?ch = "setIndex i1 (set_interest (platform b) DisableAll ch)"
  let ?w1 = "put_reactor ?r (R\<lparr>r_poller := p1\<rparr>) (store c ?ch (w\<lparr>kernel := k1\<rparr>))"
  have ch: "heap ?w1 c = Some ?ch" "reactors ?w1 (ch_reactor ?ch) = Some (R\<lparr>r_poller := p1\<rparr>)"
    "may_touch b me (R\<lparr>r_poller := p1\<rparr>)" "ch_events ?ch = kNoneEvent"
    using assms by (simp_all add: may_touch_def isInLoopThread_def)
  have "isNoneEvent ?ch" using ch(4) by (simp add: isNoneEvent_def)
  from channel_remove_shape [OF ch(1-3) this] obtain p2 i2 k2 where
    "channel_remove b me c ?w1 = Inr (put_reactor ?r (R\<lparr>r_poller := p2\<rparr>)
      (store c (setIndex i2 ?ch) (?w1\<lparr>kernel := k2\<rparr>)))" by auto
  moreover have "put_reactor ?r (R\<lparr>r_poller := p2\<rparr>) (store c (setIndex i2 ?ch) (?w1\<lparr>kernel := k2\<rparr>)) =
      put_reactor ?r (R\<lparr>r_poller := p2\<rparr>) (store c (setIndex i2 ?ch) (w\<lparr>kernel := k2\<rparr>))"
    by (simp add: put_reactor_def store_def)
  moreover have "\<not> isReading (platform b) (setIndex i2 ?ch) \<and> \<not> isWriting (platform b) (setIndex i2 ?ch)"
    by (rule isReading_none) (use ch(4) in simp)
  ultimately show thesis using that w1 by simp
qed

lemma destroy_reactor_law:
  assumes "reactors w r = Some R" and "may_touch b me R" and "heap w (r_wakeup_channel R) = Some ch"
    and "ch_reactor ch = r"
  shows "\<exists>w'. destroy_reactor b me r w = Inr w' \<and> heap w' = (heap w)(r_wakeup_channel R := None) \<and>
     reactors w' = (reactors w)(r := None) \<and> next_chan w' = next_chan w \<and>
     rnet.more w' = rnet.more w"
proof -
  have "reactors w (ch_reactor ch) = Some R" using assms(1,4) by simp
  from retire_shape [OF assms(3) this assms(2)] obtain w1 p ch' k where
    "change_interest b me DisableAll (r_wakeup_channel R) w = Inr w1"
    "channel_remove b me (r_wakeup_channel R) w1 =
       Inr (put_reactor r (R\<lparr>r_poller := p\<rparr>) (store (r_wakeup_channel R) ch' (w\<lparr>kernel := k\<rparr>)))"
    "\<not> isReading (platform b) ch' \<and> \<not> isWriting (platform b) ch'" using assms(4) by metis
  with assms(1) show ?thesis
    by (auto simp: destroy_reactor_def Let_def destroy_channel_def put_reactor_def store_def
        get_reactor_def deref_def)
qed

text \<open>
  A reactor that was constructed can be destroyed by the same thread without failing an
  assertion, on both platforms: its wakeup channel is retired and freed, and what remains of
  it is the used channel address.
\<close>

theorem reactor_lifecycle:
  assumes "new_reactor b me on_wakeup r w = Inr w1" and "heap w (next_chan w) = None"
  shows "\<exists>w2. destroy_reactor b me r w1 = Inr w2 \<and> heap w2 = heap w \<and>
     reactors w2 = (reactors w)(r := None) \<and> next_chan w2 = Suc (next_chan w) \<and>
     rnet.more w2 = rnet.more w"
proof -
  obtain R ch k where w1: "w1 = put_reactor r R (store (next_chan w) ch
        (w\<lparr>kernel := k, next_chan := Suc (next_chan w)\<rparr>))"
    and R: "fresh_reactor me (next_chan w) R" and ch: "ch_reactor ch = r"
    using new_reactor_law [OF assms(1)] by blast
  have "may_touch b me R" "r_wakeup_channel R = next_chan w"
    using R by (simp_all add: may_touch_def isInLoopThread_def fresh_reactor_def)
  with destroy_reactor_law [of w1 r R b me ch] w1 ch assms(2) show ?thesis
    by (auto simp: put_reactor_def store_def fun_upd_idem)
qed

text \<open>
  The thread a reactor accepts is the one that constructed it. In a build with assertions
  \<^verbatim>\<open>loop()\<close> in any other thread, which is how the TCP server starts every loop, fails at
  once; the queue is then never served.
\<close>

theorem loop_needs_constructing_thread:
  assumes "new_reactor b me on_wakeup r w = Inr w1"
  shows "loop b invoke run other r w1 =
     (if ndebug b \<or> other = me then loop_while b invoke run r w1 else Some (Inl AssertFailed))"
  using new_reactor_law [OF assms]
  by (auto simp: loop_def fresh_reactor_def isInLoopThread_def cpp_assert_def)

section \<open>Tasks\<close>

text \<open>
  What is asked of the tasks: run on a live reactor, a task returns, is logged (\<open>executed\<close>
  reads the log from the part of the state the network layer does not touch), and does
  nothing to the reactor's queue but append the tasks \<open>spawn t\<close>, as \<^verbatim>\<open>queueInLoop\<close> does.
\<close>

definition task_law :: "('t \<Rightarrow> ('k, 'cb, 't, 'z) rnet_scheme \<Rightarrow> ('k, 'cb, 't, 'z) rnet_scheme outcome) \<Rightarrow>
    ('z \<Rightarrow> 't list) \<Rightarrow> ('t \<Rightarrow> 't list) \<Rightarrow> reactor_ptr \<Rightarrow> bool" where
  "task_law run executed spawn r \<longleftrightarrow> (\<forall>t w R. reactors w r = Some R \<longrightarrow>
     (\<exists>w' R'. run t w = Inr w' \<and> reactors w' r = Some R' \<and>
        r_pending_tasks R' = r_pending_tasks R @ spawn t \<and>
        r_calling_pending_tasks R' = r_calling_pending_tasks R \<and>
        executed (rnet.more w') = executed (rnet.more w) @ [t]))"

text \<open>The history of a queue: threads post tasks, the loop serves the queue.\<close>

datatype 't task_event = Post thread_id 't | Serve

fun queue_op :: "'k build \<Rightarrow>
    ('t \<Rightarrow> ('k, 'cb, 't, 'z) rnet_scheme \<Rightarrow> ('k, 'cb, 't, 'z) rnet_scheme outcome) \<Rightarrow> reactor_ptr \<Rightarrow>
    't task_event \<Rightarrow> ('k, 'cb, 't, 'z) rnet_scheme \<Rightarrow> ('k, 'cb, 't, 'z) rnet_scheme outcome" where
  "queue_op b run r (Post me t) w = queueInLoop b me r t w"
| "queue_op b run r Serve w = doPendingTasks run r w"

text \<open>The abstract queue: the tasks executed so far and the tasks waiting.\<close>

fun abs_queue_op :: "('t \<Rightarrow> 't list) \<Rightarrow> 't task_event \<Rightarrow> 't list \<times> 't list \<Rightarrow> 't list \<times> 't list" where
  "abs_queue_op spawn (Post me t) (dn, q) = (dn, q @ [t])"
| "abs_queue_op spawn Serve (dn, q) = (dn @ q, concat (map spawn q))"

fun posted :: "'t task_event list \<Rightarrow> 't list" where
  "posted [] = []"
| "posted (Post me t # ops) = t # posted ops"
| "posted (Serve # ops) = posted ops"

lemma put_put_reactor [simp]: "put_reactor r R (put_reactor r Q w) = put_reactor r R w"
  by (simp add: put_reactor_def)

lemma more_put_reactor [simp]: "rnet.more (put_reactor r R w) = rnet.more w"
  by (simp add: put_reactor_def)

text \<open>A queued task is at the end of the queue; the rest of the state is kept but the kernel's.\<close>

lemma queueInLoop_law:
  assumes "reactors w r = Some R"
  shows "\<exists>k. queueInLoop b me r t w = Inr ((put_reactor r
     (R\<lparr>r_pending_tasks := r_pending_tasks R @ [t]\<rparr>) w)\<lparr>kernel := k\<rparr>)"
proof (cases "isInLoopThread me R \<and> \<not> r_calling_pending_tasks R")
  case True
  let ?R = "R\<lparr>r_pending_tasks := r_pending_tasks R @ [t]\<rparr>"
  have "queueInLoop b me r t w = Inr ((put_reactor r ?R w)\<lparr>kernel := kernel w\<rparr>)"
    using assms True by (simp add: queueInLoop_def isInLoopThread_def put_reactor_def)
  then show ?thesis by blast
next
  case False
  then show ?thesis
    using assms by (auto simp: queueInLoop_def isInLoopThread_def wakeup_Some)
qed

lemma run_tasks_law:
  assumes "task_law run executed spawn r" and "reactors w r = Some R"
  shows "\<exists>w' R'. ofold run ts w = Inr w' \<and> reactors w' r = Some R' \<and>
     r_pending_tasks R' = r_pending_tasks R @ concat (map spawn ts) \<and>
     r_calling_pending_tasks R' = r_calling_pending_tasks R \<and>
     executed (rnet.more w') = executed (rnet.more w) @ ts"
  using assms(2)
proof (induction ts arbitrary: w R)
  case (Cons t ts)
  then obtain v Q where "run t w = Inr v" "reactors v r = Some Q"
    "r_pending_tasks Q = r_pending_tasks R @ spawn t"
    "r_calling_pending_tasks Q = r_calling_pending_tasks R"
    "executed (rnet.more v) = executed (rnet.more w) @ [t]"
    using assms(1) unfolding task_law_def by metis
  with Cons.IH [of v Q] show ?case by auto
qed simp

lemma doPendingTasks_law:
  assumes "task_law run executed spawn r" and "reactors w r = Some R"
  shows "\<exists>w' R'. doPendingTasks run r w = Inr w' \<and> reactors w' r = Some R' \<and>
     r_pending_tasks R' = concat (map spawn (r_pending_tasks R)) \<and> \<not> r_calling_pending_tasks R' \<and>
     executed (rnet.more w') = executed (rnet.more w) @ r_pending_tasks R"
proof -
  let ?R = "R\<lparr>r_calling_pending_tasks := True, r_pending_tasks := []\<rparr>"
  have "reactors (put_reactor r ?R w) r = Some ?R" by simp
  from run_tasks_law [OF assms(1) this, of "r_pending_tasks R"] obtain v Q where
    v: "ofold run (r_pending_tasks R) (put_reactor r ?R w) = Inr v" "reactors v r = Some Q"
      "r_pending_tasks Q = concat (map spawn (r_pending_tasks R))"
      "executed (rnet.more v) = executed (rnet.more w) @ r_pending_tasks R" by auto
  with assms(2) show ?thesis by (simp add: doPendingTasks_def Let_def)
qed

lemma queue_op_law:
  assumes "task_law run executed spawn r" and "reactors w r = Some R" and "\<not> r_calling_pending_tasks R"
  shows "\<exists>w' R'. queue_op b run r op w = Inr w' \<and> reactors w' r = Some R' \<and>
     \<not> r_calling_pending_tasks R' \<and>
     (executed (rnet.more w'), r_pending_tasks R') =
       abs_queue_op spawn op (executed (rnet.more w), r_pending_tasks R)"
proof (cases op)
  case (Post me t)
  with queueInLoop_law [OF assms(2), of b me t] assms(3) show ?thesis by auto
next
  case Serve
  with doPendingTasks_law [OF assms(1,2)] show ?thesis by auto
qed

text \<open>The tasks executed and waiting, and that the reactor is there and not serving.\<close>

definition queue_of :: "('z \<Rightarrow> 't list) \<Rightarrow> reactor_ptr \<Rightarrow> ('k, 'cb, 't, 'z) rnet_scheme \<Rightarrow> 't list \<times> 't list" where
  "queue_of executed r w = (executed (rnet.more w), case reactors w r of None \<Rightarrow> [] | Some R \<Rightarrow> r_pending_tasks R)"

definition at_leisure :: "reactor_ptr \<Rightarrow> ('k, 'cb, 't, 'z) rnet_scheme \<Rightarrow> bool" where
  "at_leisure r w \<longleftrightarrow> (\<exists>R. reactors w r = Some R \<and> \<not> r_calling_pending_tasks R)"

interpretation task_queue: simulation "queue_op b run r" "abs_queue_op spawn"
    "\<lambda>_. task_law run executed spawn r" "at_leisure r" "queue_of executed r" for b run r spawn executed
proof unfold_locales
  fix w :: "('a, 'c, 'b, 'd) rnet_scheme" and op
  assume "at_leisure r w" "task_law run executed spawn r"
  then show "\<exists>t. queue_op b run r op w = Inr t \<and> at_leisure r t \<and>
      queue_of executed r t = abs_queue_op spawn op (queue_of executed r w)"
    using queue_op_law [of run executed spawn r w _ b op] by (fastforce simp: at_leisure_def queue_of_def)
qed

lemma queue_ops_law:
  assumes "task_law run executed spawn r" and "reactors w r = Some R" and "\<not> r_calling_pending_tasks R"
  shows "\<exists>w' R'. ofold (queue_op b run r) ops w = Inr w' \<and> reactors w' r = Some R' \<and>
     \<not> r_calling_pending_tasks R' \<and>
     (executed (rnet.more w'), r_pending_tasks R') =
       fold (abs_queue_op spawn) ops (executed (rnet.more w), r_pending_tasks R)"
proof -
  have "at_leisure r w" using assms(2,3) by (simp add: at_leisure_def)
  from task_queue.history_law [OF this, of ops run executed spawn b] assms(1,2) show ?thesis
    by (auto simp: at_leisure_def queue_of_def)
qed

text \<open>
  C7: the task queue under any history of posts, from any thread, and of services by the loop:
  every service returns, runs the tasks that were waiting when it began, in the order they
  were queued, and leaves waiting exactly the tasks that these tasks queued.
\<close>

theorem task_queue_refines:
  assumes "task_law run executed spawn r" and "reactors w r = Some R" and "\<not> r_calling_pending_tasks R"
  shows "\<exists>w' R'. ofold (queue_op b run r) ops w = Inr w' \<and> reactors w' r = Some R' \<and>
     \<not> r_calling_pending_tasks R' \<and>
     (executed (rnet.more w'), r_pending_tasks R') =
       fold (abs_queue_op spawn) ops (executed (rnet.more w), r_pending_tasks R)"
  using assms by (rule queue_ops_law)

lemma abs_queue_fifo:
  "fold (abs_queue_op (\<lambda>_. [])) ops (dn, q) = (dn', q') \<Longrightarrow> dn' @ q' = dn @ q @ posted ops"
proof (induction ops arbitrary: dn q)
  case (Cons op ops)
  show ?case
  proof (cases op)
    case (Post me t)
    with Cons.IH [of dn "q @ [t]"] Cons.prems show ?thesis by simp
  next
    case Serve
    then have "concat (map (\<lambda>_. []) q) = ([] :: 'a list)" by simp
    with Serve Cons.IH [of "dn @ q" "[]"] Cons.prems show ?thesis by simp
  qed
qed simp

text \<open>
  Tasks that queue nothing themselves run exactly once and in the order they were posted:
  what has been executed, followed by what is waiting, is the sequence of posted tasks.
\<close>

lemma tasks_run_once_in_order:
  assumes "task_law run executed (\<lambda>_. []) r" and "reactors w r = Some R" and "\<not> r_calling_pending_tasks R"
  shows "\<exists>w' R'. ofold (queue_op b run r) (ops @ [Serve]) w = Inr w' \<and> reactors w' r = Some R' \<and>
     r_pending_tasks R' = [] \<and>
     executed (rnet.more w') = executed (rnet.more w) @ r_pending_tasks R @ posted ops"
proof -
  obtain v Q where v: "ofold (queue_op b run r) ops w = Inr v" "reactors v r = Some Q"
    "(executed (rnet.more v), r_pending_tasks Q) =
       fold (abs_queue_op (\<lambda>_. [])) ops (executed (rnet.more w), r_pending_tasks R)"
    using queue_ops_law [OF assms, of b ops] by blast
  from doPendingTasks_law [OF assms(1) v(2)] abs_queue_fifo [OF v(3) [symmetric]] v(1)
  show ?thesis by (auto simp: ofold_append)
qed

section \<open>The loop\<close>

text \<open>A round in which epoll reports one channel, and the end of a round with no task waiting.\<close>

lemma loop_round_single:
  assumes "platform b = Linux" and "reactors w r = Some R" and "r_poller R = Epoll p"
    and "sys_epoll_wait (os b) (ep_fd p) (ep_events_size p) 1000 (kernel w) = (Some [(ev, c)], k)"
    and "heap w c = Some ch"
  obtains p' where "loop_round b invoke run r w =
     obind (ofold invoke (dispatch Linux (setRevents ev ch))
         (put_reactor r (R\<lparr>r_poller := Epoll p', r_active_channels := [c]\<rparr>)
           (store c (setRevents ev ch) (w\<lparr>kernel := k\<rparr>))))
       (doPendingTasks run r)"
proof -
  let ?p = "if 1 = ep_events_size p then p\<lparr>ep_events_size := ep_events_size p * 2\<rparr> else p"
  have "loop_round b invoke run r w = obind (ofold invoke (dispatch Linux (setRevents ev ch))
      (put_reactor r (R\<lparr>r_poller := Epoll ?p, r_active_channels := [c]\<rparr>)
        (store c (setRevents ev ch) (w\<lparr>kernel := k\<rparr>)))) (doPendingTasks run r)"
    using assms by (simp add: loop_round_def epoll_poll_def fill_active_def handle_channel_def
        handleEvent_dispatch deref_def put_reactor_def store_def)
  then show thesis by (rule that)
qed

lemma doPendingTasks_idle:
  assumes "reactors w r = Some R" and "r_pending_tasks R = []"
  shows "doPendingTasks run r w =
     Inr (put_reactor r (R\<lparr>r_pending_tasks := [], r_calling_pending_tasks := False\<rparr>) w)"
  using assms by (simp add: doPendingTasks_def put_reactor_def)

primrec rounds :: "'k build \<Rightarrow>
    ('cb \<Rightarrow> ('k, 'cb, 't, 'z) rnet_scheme \<Rightarrow> ('k, 'cb, 't, 'z) rnet_scheme outcome) \<Rightarrow>
    ('t \<Rightarrow> ('k, 'cb, 't, 'z) rnet_scheme \<Rightarrow> ('k, 'cb, 't, 'z) rnet_scheme outcome) \<Rightarrow>
    reactor_ptr \<Rightarrow> nat \<Rightarrow> ('k, 'cb, 't, 'z) rnet_scheme \<Rightarrow> ('k, 'cb, 't, 'z) rnet_scheme outcome" where
  "rounds b invoke run r 0 w = Inr w"
| "rounds b invoke run r (Suc n) w = obind (loop_round b invoke run r w) (rounds b invoke run r n)"

definition quit_flag :: "reactor_ptr \<Rightarrow> ('k, 'cb, 't, 'z) rnet_scheme \<Rightarrow> bool option" where
  "quit_flag r w = map_option r_quit (reactors w r)"

lemma loop_while_step:
  "loop_while b invoke run r w = (case quit_flag r w of
       None \<Rightarrow> Some (Inl Undefined)
     | Some True \<Rightarrow> Some (Inr w)
     | Some False \<Rightarrow> (case loop_round b invoke run r w of
           Inl e \<Rightarrow> Some (Inl e) | Inr w' \<Rightarrow> loop_while b invoke run r w'))"
  by (subst loop_while.simps) (auto simp: quit_flag_def get_reactor_def split: option.splits bool.splits)

lemma loop_while_rounds:
  assumes "rounds b invoke run r n w = Inr w'" and "quit_flag r w' = Some True"
    and "\<forall>m < n. \<exists>v. rounds b invoke run r m w = Inr v \<and> quit_flag r v = Some False"
  shows "loop_while b invoke run r w = Some (Inr w')"
  using assms
proof (induction n arbitrary: w)
  case 0
  then show ?case by (simp add: loop_while_step)
next
  case (Suc n)
  then obtain u where u: "loop_round b invoke run r w = Inr u" "rounds b invoke run r n u = Inr w'"
    by (auto elim: outcome_elims)
  have "quit_flag r w = Some False" using Suc.prems(3) by force
  moreover have "\<forall>m < n. \<exists>v. rounds b invoke run r m u = Inr v \<and> quit_flag r v = Some False"
    using Suc.prems(3) u(1) by (metis Suc_less_eq obind_simps(2) rounds.simps(2))
  ultimately show ?case using Suc.IH [OF u(2) Suc.prems(2)] u(1) loop_while_step [of b invoke run r w]
    by simp
qed

lemma loop_while_returnsD:
  assumes "loop_while b invoke run r w = Some res" and "res = Inr w'"
  shows "\<exists>n. rounds b invoke run r n w = Inr w' \<and> quit_flag r w' = Some True \<and>
     (\<forall>m < n. \<exists>v. rounds b invoke run r m w = Inr v \<and> quit_flag r v = Some False)"
  using assms
proof (induction rule: loop_while.raw_induct [rotated 1, consumes 1, case_names step])
  case (step loop b invoke run r w res)
  then obtain R where R: "reactors w r = Some R"
    by (auto simp: get_reactor_def split: option.splits)
  show ?case
  proof (cases "r_quit R")
    case True
    with step R show ?thesis by (intro exI [of _ 0]) (simp add: quit_flag_def)
  next
    case False
    with step R obtain u where u: "loop_round b invoke run r w = Inr u" "loop b invoke run r u = Some res"
      by (auto split: sum.splits)
    from step.IH [OF u(2) step.prems] obtain n where
      n: "rounds b invoke run r n u = Inr w'" "quit_flag r w' = Some True"
        "\<forall>m < n. \<exists>v. rounds b invoke run r m u = Inr v \<and> quit_flag r v = Some False" by blast
    have "\<exists>v. rounds b invoke run r m w = Inr v \<and> quit_flag r v = Some False" if "m < Suc n" for m
      using that u(1) n(3) R False by (cases m) (auto simp: quit_flag_def)
    with n u(1) show ?thesis by (intro exI [of _ "Suc n"]) simp
  qed
qed


section \<open>A kernel for the witnesses\<close>

text \<open>A system that creates descriptors 3 and 4, keeps interest lists and accepts every write.\<close>

definition demo_os :: "interest_kernel os" where
  "demo_os = interest_os\<lparr>sys_epoll_create1 := (\<lambda>k. (3, k)), sys_eventfd := (\<lambda>k. (4, k)),
     sys_socket := (\<lambda>k. (4, k)), sys_write := (\<lambda>_ s k. (int (length s), k))\<rparr>"

definition demo_build :: "platform \<Rightarrow> interest_kernel build" where
  "demo_build pf = \<lparr>os = demo_os, ndebug = False, platform = pf\<rparr>"

definition empty_rnet :: "'z \<Rightarrow> (interest_kernel, unit, 't, 'z) rnet_scheme" where
  "empty_rnet z = \<lparr>kernel = (\<lambda>_. Map.empty), heap = Map.empty, reactors = Map.empty, next_chan = 1, \<dots> = z\<rparr>"

lemma demo_new_reactor:
  "\<exists>w. new_reactor (demo_build pf) me on_wakeup r (empty_rnet z) =
     Inr (w :: (interest_kernel, unit, 't, 'z) rnet_scheme)"
proof -
  let ?b = "demo_build pf"
  obtain p and w1 :: "(interest_kernel, unit, 't, 'z) rnet_scheme" where
    p: "new_poller ?b (empty_rnet z) = Inr (p, w1)"
    by (cases pf) (auto simp: new_poller_def demo_build_def new_epoll_poller_def demo_os_def)
  obtain efd w2 where "createEventfd ?b w1 = Inr (efd, w2)"
    by (cases pf) (auto simp: createEventfd_def demo_build_def demo_os_def)
  from new_reactor_steps [OF p this, of me on_wakeup r] show ?thesis by blast
qed

theorem reactor_channels_refine_witness:
  "\<exists>w1 w2. new_reactor (demo_build Linux) 7 (\<lambda>_. ()) 0 (empty_rnet ()) = Inr (w1 :: (_, _, nat, _) rnet_scheme) \<and>
     ofold (channel_call (demo_build Linux) 7)
       [Interest EnableWriting 1, Interest DisableReading 1, Retire 1] w1 = Inr w2 \<and>
     registered_in 0 w2 = {}"
proof -
  obtain w1 :: "(interest_kernel, unit, nat, unit) rnet_scheme" where
    w1: "new_reactor (demo_build Linux) 7 (\<lambda>_. ()) 0 (empty_rnet ()) = Inr w1"
    using demo_new_reactor by (rule exE)
  let ?ops = "[Interest EnableWriting 1, Interest DisableReading 1, Retire 1]"
  have wf: "wf_reactor (demo_build Linux) 7 0 {1} w1"
    using new_reactor_law [OF w1] by (auto simp: empty_rnet_def)
  have reg: "registered_in 0 w1 = {1}"
    using new_reactor_law [OF w1] by (auto simp: empty_rnet_def registry_of_def)
  have "call_target ` set ?ops \<subseteq> {1}" by simp
  from reactor_channels_refine [OF wf this] obtain w2 where
    "ofold (channel_call (demo_build Linux) 7) ?ops w1 = Inr w2"
    "registry_of 0 w2 = fold (registry_call (platform (demo_build Linux))) ?ops (registry_of 0 w1)" by blast
  with w1 reg show ?thesis by (intro exI conjI) (auto simp: registry_of_def)
qed

theorem reactor_lifecycle_witness:
  "\<exists>w1 w2. new_reactor (demo_build Win32) 7 (\<lambda>_. ()) 0 (empty_rnet ()) = Inr (w1 :: (_, _, nat, _) rnet_scheme) \<and>
     destroy_reactor (demo_build Win32) 7 0 w1 = Inr w2 \<and> heap w2 = Map.empty \<and> reactors w2 = Map.empty"
proof -
  obtain w1 :: "(interest_kernel, unit, nat, unit) rnet_scheme" where
    w1: "new_reactor (demo_build Win32) 7 (\<lambda>_. ()) 0 (empty_rnet ()) = Inr w1"
    using demo_new_reactor by (rule exE)
  have "heap (empty_rnet ()) (next_chan (empty_rnet ())) = None" by (simp add: empty_rnet_def)
  from reactor_lifecycle [OF w1] this w1 show ?thesis by (auto simp: empty_rnet_def)
qed

theorem loop_needs_constructing_thread_witness:
  "\<exists>w1. new_reactor (demo_build Linux) 7 (\<lambda>_. ()) 0 (empty_rnet ()) = Inr (w1 :: (_, _, nat, _) rnet_scheme) \<and>
     loop (demo_build Linux) (\<lambda>_. Inr) (\<lambda>_. Inr) 8 0 w1 = Some (Inl AssertFailed)"
proof -
  obtain w1 :: "(interest_kernel, unit, nat, unit) rnet_scheme" where
    w1: "new_reactor (demo_build Linux) 7 (\<lambda>_. ()) 0 (empty_rnet ()) = Inr w1"
    using demo_new_reactor by (rule exE)
  from loop_needs_constructing_thread [OF this, of "\<lambda>_. Inr" "\<lambda>_. Inr" 8] w1 show ?thesis
    by (simp add: demo_build_def)
qed

text \<open>Numbered tasks that log themselves; a task above zero queues its predecessor.\<close>

definition demo_spawn :: "nat \<Rightarrow> nat list" where
  "demo_spawn t = (if t = 0 then [] else [t - 1])"

definition demo_run :: "(nat \<Rightarrow> nat list) \<Rightarrow> nat \<Rightarrow>
    (interest_kernel, unit, nat, nat list) rnet_scheme \<Rightarrow>
    (interest_kernel, unit, nat, nat list) rnet_scheme outcome" where
  "demo_run spawn t w = obind (ofold (queueInLoop (demo_build Linux) 7 0) (spawn t) w)
     (\<lambda>w. Inr (rnet.more_update (\<lambda>dn. dn @ [t]) w))"

lemma queue_all_law:
  assumes "reactors w r = Some R"
  shows "\<exists>k. ofold (queueInLoop b me r) ts w = Inr ((put_reactor r
     (R\<lparr>r_pending_tasks := r_pending_tasks R @ ts\<rparr>) w)\<lparr>kernel := k\<rparr>)"
  using assms
proof (induction ts arbitrary: w R)
  case Nil
  then have "put_reactor r (R\<lparr>r_pending_tasks := r_pending_tasks R @ []\<rparr>) w\<lparr>kernel := kernel w\<rparr> = w"
    by (simp add: put_reactor_def fun_upd_idem)
  then show ?case by (metis ofold.simps(1))
next
  case (Cons t ts)
  let ?R = "R\<lparr>r_pending_tasks := r_pending_tasks R @ [t]\<rparr>"
  obtain k where k: "queueInLoop b me r t w = Inr ((put_reactor r ?R w)\<lparr>kernel := k\<rparr>)"
    using queueInLoop_law [OF Cons.prems] by blast
  have "reactors (put_reactor r ?R w\<lparr>kernel := k\<rparr>) r = Some ?R" by simp
  from Cons.IH [OF this] k show ?case by (auto simp: put_reactor_def)
qed

lemma demo_task_law: "task_law (demo_run spawn) (\<lambda>dn. dn) spawn 0"
  unfolding task_law_def
proof (intro allI impI)
  fix t and w :: "(interest_kernel, unit, nat, nat list) rnet_scheme" and R
  assume "reactors w 0 = Some R"
  then obtain k where "ofold (queueInLoop (demo_build Linux) 7 0) (spawn t) w = Inr ((put_reactor 0
     (R\<lparr>r_pending_tasks := r_pending_tasks R @ spawn t\<rparr>) w)\<lparr>kernel := k\<rparr>)"
    using queue_all_law by blast
  then show "\<exists>w' R'. demo_run spawn t w = Inr w' \<and> reactors w' 0 = Some R' \<and>
      r_pending_tasks R' = r_pending_tasks R @ spawn t \<and>
      r_calling_pending_tasks R' = r_calling_pending_tasks R \<and> rnet.more w' = rnet.more w @ [t]"
    by (simp add: demo_run_def)
qed

definition demo_reactor :: "nat reactor" where
  "demo_reactor = \<lparr>r_quit = False, r_calling_pending_tasks = False, r_poller = Select new_select_poller,
     r_active_channels = [], r_pending_tasks = [], r_wakeup_fd = 4, r_wakeup_channel = 1, r_thread_id = 7\<rparr>"

definition demo_rnet :: "(interest_kernel, unit, nat, nat list) rnet_scheme" where
  "demo_rnet = put_reactor 0 demo_reactor (empty_rnet [])"

lemma demo_rnet_reactor: "reactors demo_rnet 0 = Some demo_reactor" "\<not> r_calling_pending_tasks demo_reactor"
  "r_pending_tasks demo_reactor = []" "rnet.more demo_rnet = []"
  by (simp_all add: demo_rnet_def demo_reactor_def empty_rnet_def)

theorem task_queue_refines_witness:
  "\<exists>w' R'. ofold (queue_op (demo_build Linux) (demo_run demo_spawn) 0)
       [Post 7 1, Post 8 2, Serve, Post 8 5, Serve] demo_rnet = Inr w' \<and> reactors w' 0 = Some R' \<and>
     rnet.more w' = [1, 2, 0, 1, 5] \<and> r_pending_tasks R' = [0, 4]"
  using task_queue_refines [OF demo_task_law demo_rnet_reactor(1,2), of "demo_build Linux" demo_spawn
      "[Post 7 1, Post 8 2, Serve, Post 8 5, Serve]"]
  by (auto simp add: demo_rnet_reactor demo_spawn_def del: ofold.simps)


end
