(* ===== verification/Wakeup.thy ===== *)
theory Wakeup
  imports EventLoop
begin

text \<open>
  The event loop and the other threads, interleaved. The atomic steps are those of the code:
  the loop thread checks the flag, polls, dispatches, swaps the queue under its mutex and runs
  the tasks; another thread pushes a task (or sets the quit flag) and only later writes to the
  wakeup descriptor. The steps use the operations of the reactor theory. The theory shows that
  no wakeup is lost when the loop runs in the thread that constructed the reactor, and that one
  is lost otherwise.
\<close>

section \<open>The interleaving\<close>

datatype 't loop_pc = AtCheck | AtPoll | AtDispatch | AtSwap | Running "'t list" | Exited

text \<open>
  The shared state, where the loop thread stands, and how many other threads are between
  their push (or their setting of the flag) and their write to the wakeup descriptor.
\<close>

record ('k, 'cb, 't) threads =
  world :: "('k, 'cb, 't) rnet"
  pc :: "'t loop_pc"
  waking :: nat

definition push :: "'t \<Rightarrow> 't reactor \<Rightarrow> 't reactor" where
  "push t R = R\<lparr>r_pending_tasks := r_pending_tasks R @ [t]\<rparr>"

text \<open>Whether \<^verbatim>\<open>queueInLoop\<close>, called by \<open>me\<close>, goes on to \<^verbatim>\<open>wakeup()\<close>.\<close>

definition must_wake :: "thread_id \<Rightarrow> 't reactor \<Rightarrow> bool" where
  "must_wake me R \<longleftrightarrow> \<not> isInLoopThread me R \<or> r_calling_pending_tasks R"

text \<open>
  A change by anything else that runs: other descriptors, other reactors, the poller of this
  one. Only a read of the wakeup descriptor makes it unreadable again.
\<close>

definition elsewhere :: "('k \<Rightarrow> bool) \<Rightarrow> reactor_ptr \<Rightarrow> ('k, 'cb, 't) rnet \<Rightarrow> ('k, 'cb, 't) rnet \<Rightarrow> bool" where
  "elsewhere ready r w w' \<longleftrightarrow> (ready (kernel w) \<longrightarrow> ready (kernel w')) \<and>
     (\<exists>R p a. reactors w r = Some R \<and> reactors w' r = Some (R\<lparr>r_poller := p, r_active_channels := a\<rparr>))"

inductive loop_step :: "'k build \<Rightarrow> ('k \<Rightarrow> bool) \<Rightarrow> thread_id \<Rightarrow> reactor_ptr \<Rightarrow>
    ('k, 'cb, 't) threads \<Rightarrow> ('k, 'cb, 't) threads \<Rightarrow> bool"
  for b :: "'k build" and ready :: "'k \<Rightarrow> bool" and looper :: thread_id and r :: reactor_ptr where
  check: "pc s = AtCheck \<Longrightarrow> get_reactor r (world s) = Inr R \<Longrightarrow>
     loop_step b ready looper r s (s\<lparr>pc := if r_quit R then Exited else AtPoll\<rparr>)"
| poll_returns: "pc s = AtPoll \<Longrightarrow> loop_step b ready looper r s (s\<lparr>pc := AtDispatch\<rparr>)"
| woken: "pc s = AtDispatch \<Longrightarrow> handleWakeup b r (world s) = Inr w \<Longrightarrow>
     loop_step b ready looper r s (s\<lparr>world := w\<rparr>)"
| begin_tasks: "pc s = AtDispatch \<Longrightarrow>
     on_reactor r (\<lambda>R. R\<lparr>r_calling_pending_tasks := True\<rparr>) (world s) = Inr w \<Longrightarrow>
     loop_step b ready looper r s (s\<lparr>world := w, pc := AtSwap\<rparr>)"
| swap: "pc s = AtSwap \<Longrightarrow> get_reactor r (world s) = Inr R \<Longrightarrow>
     on_reactor r (\<lambda>R. R\<lparr>r_pending_tasks := []\<rparr>) (world s) = Inr w \<Longrightarrow>
     loop_step b ready looper r s (s\<lparr>world := w, pc := Running (r_pending_tasks R)\<rparr>)"
| run_task: "pc s = Running (t # ts) \<Longrightarrow> loop_step b ready looper r s (s\<lparr>pc := Running ts\<rparr>)"
| end_tasks: "pc s = Running [] \<Longrightarrow>
     on_reactor r (\<lambda>R. R\<lparr>r_calling_pending_tasks := False\<rparr>) (world s) = Inr w \<Longrightarrow>
     loop_step b ready looper r s (s\<lparr>world := w, pc := AtCheck\<rparr>)"
| self_post: "pc s = AtDispatch \<or> pc s = Running ts \<Longrightarrow> queueInLoop b looper r t (world s) = Inr w \<Longrightarrow>
     loop_step b ready looper r s (s\<lparr>world := w\<rparr>)"
| self_quit: "pc s = AtDispatch \<or> pc s = Running ts \<Longrightarrow> quit b looper r (world s) = Inr w \<Longrightarrow>
     loop_step b ready looper r s (s\<lparr>world := w\<rparr>)"
| post: "me \<noteq> looper \<Longrightarrow> get_reactor r (world s) = Inr R \<Longrightarrow> on_reactor r (push t) (world s) = Inr w \<Longrightarrow>
     loop_step b ready looper r s
       (s\<lparr>world := w, waking := waking s + (if must_wake me R then 1 else 0)\<rparr>)"
| set_quit: "me \<noteq> looper \<Longrightarrow> get_reactor r (world s) = Inr R \<Longrightarrow>
     on_reactor r (\<lambda>R. R\<lparr>r_quit := True\<rparr>) (world s) = Inr w \<Longrightarrow>
     loop_step b ready looper r s
       (s\<lparr>world := w, waking := waking s + (if isInLoopThread me R then 0 else 1)\<rparr>)"
| wake: "waking s = Suc n \<Longrightarrow> wakeup b r (world s) = Inr w \<Longrightarrow>
     loop_step b ready looper r s (s\<lparr>world := w, waking := n\<rparr>)"
| other: "elsewhere ready r (world s) w \<Longrightarrow> loop_step b ready looper r s (s\<lparr>world := w\<rparr>)"

text \<open>The steps are the phases of the code's operations.\<close>

lemma queueInLoop_phases:
  assumes "reactors w r = Some R"
  shows "queueInLoop b me r t w =
     obind (on_reactor r (push t) w) (if must_wake me R then wakeup b r else Inr)"
  using assms by (simp add: queueInLoop_def push_def must_wake_def isInLoopThread_def)

lemma quit_phases:
  assumes "reactors w r = Some R"
  shows "quit b me r w = obind (on_reactor r (\<lambda>R. R\<lparr>r_quit := True\<rparr>) w)
     (if isInLoopThread me R then Inr else wakeup b r)"
  using assms by (simp add: quit_def isInLoopThread_def)

section \<open>No lost wakeup\<close>

text \<open>
  The documented behaviour of an eventfd: after a write of the eight bytes of 1 it is readable,
  whether the write succeeded or failed because the counter was full.
\<close>

definition eventfd_documented :: "'k build \<Rightarrow> ('k \<Rightarrow> bool) \<Rightarrow> int \<Rightarrow> bool" where
  "eventfd_documented b ready efd \<longleftrightarrow>
     (\<forall>k. ready (snd (sys_write (os b) efd (wakeup_message (platform b)) k)))"

text \<open>The loop is about to start, in the thread \<open>looper\<close>, on a reactor that has done nothing.\<close>

definition loop_init :: "thread_id \<Rightarrow> reactor_ptr \<Rightarrow> int \<Rightarrow> ('k, 'cb, 't) threads \<Rightarrow> bool" where
  "loop_init owner r efd s \<longleftrightarrow> pc s = AtCheck \<and> waking s = 0 \<and>
     (\<exists>R c. reactors (world s) r = Some R \<and> fresh_reactor owner c R \<and> r_wakeup_fd R = efd)"

definition signalled :: "('k \<Rightarrow> bool) \<Rightarrow> ('k, 'cb, 't) threads \<Rightarrow> bool" where
  "signalled ready s \<longleftrightarrow> ready (kernel (world s)) \<or> 0 < waking s"

definition wake_inv :: "('k \<Rightarrow> bool) \<Rightarrow> thread_id \<Rightarrow> reactor_ptr \<Rightarrow> int \<Rightarrow> ('k, 'cb, 't) threads \<Rightarrow> bool" where
  "wake_inv ready looper r efd s \<longleftrightarrow> (\<exists>R. reactors (world s) r = Some R \<and>
     r_thread_id R = looper \<and> r_wakeup_fd R = efd \<and>
     (case pc s of
        AtCheck \<Rightarrow> r_pending_tasks R \<noteq> [] \<longrightarrow> signalled ready s
      | AtPoll \<Rightarrow> r_pending_tasks R \<noteq> [] \<or> r_quit R \<longrightarrow> signalled ready s
      | Running ts \<Rightarrow> r_calling_pending_tasks R \<and> (r_pending_tasks R \<noteq> [] \<longrightarrow> signalled ready s)
      | AtSwap \<Rightarrow> r_calling_pending_tasks R
      | _ \<Rightarrow> True))"

lemma wakeup_ready:
  assumes "eventfd_documented b ready efd" and "reactors w r = Some R" and "r_wakeup_fd R = efd"
    and "wakeup b r w = Inr w'"
  shows "ready (kernel w')" and "reactors w' = reactors w"
  using assms by (auto simp: wakeup_Some eventfd_documented_def)

lemma handleWakeup_reactors: "handleWakeup b r w = Inr w' \<Longrightarrow> reactors w' = reactors w"
  by (auto simp: handleWakeup_def elim!: outcome_elims split: prod.splits)

lemma on_reactor_Inr_iff:
  "on_reactor r f w = Inr w' \<longleftrightarrow> (\<exists>R. reactors w r = Some R \<and> w' = put_reactor r (f R) w)"
  by (auto simp: on_reactor_def obind_Inr_iff get_reactor_Inr_iff)

inductive_cases loop_stepE: "loop_step b ready looper r s t"

lemma wake_inv_step:
  assumes "eventfd_documented b ready efd" and "loop_step b ready looper r s t"
    and "wake_inv ready looper r efd s"
  shows "wake_inv ready looper r efd t"
proof -
  obtain R where R: "reactors (world s) r = Some R" "r_thread_id R = looper" "r_wakeup_fd R = efd"
    using assms(3) by (auto simp: wake_inv_def)
  note inv = assms(3) [unfolded wake_inv_def signalled_def]
  from assms(2) show ?thesis
  proof cases
    case (self_post ts u w)
    then obtain v where v: "v = put_reactor r (push u R) (world s)"
      "w = v \<or> must_wake looper R \<and> wakeup b r v = Inr w"
      using R by (auto simp: queueInLoop_phases split: if_splits)
    have vR: "reactors v r = Some (push u R)" "r_wakeup_fd (push u R) = efd"
      using v(1) R by (simp_all add: push_def)
    have "must_wake looper R" if "pc s = Running ts"
      using that inv R by (auto simp: must_wake_def)
    then have "ready (kernel w)" if "pc s = Running ts"
      using that v(2) self_post(3) R wakeup_ready(1) [OF assms(1) vR]
      by (auto simp: queueInLoop_phases v(1))
    moreover have "reactors w r = Some (push u R)"
      using v(2) vR wakeup_ready(2) [OF assms(1) vR] by auto
    ultimately show ?thesis
      using self_post R inv by (auto simp: wake_inv_def signalled_def push_def)
  next
    case (self_quit ts w)
    then have "w = put_reactor r (R\<lparr>r_quit := True\<rparr>) (world s)"
      using R by (simp add: quit_phases isInLoopThread_def)
    with self_quit R inv show ?thesis by (auto simp: wake_inv_def signalled_def)
  next
    case (wake n w)
    then have "ready (kernel w)" "reactors w = reactors (world s)"
      using wakeup_ready [OF assms(1) R(1,3)] by auto
    with wake inv R show ?thesis
      by (auto simp: wake_inv_def signalled_def split: loop_pc.splits)
  next
    case (woken w)
    with handleWakeup_reactors [OF woken(3)] inv show ?thesis by (simp add: wake_inv_def)
  qed (use inv R in \<open>auto simp: wake_inv_def signalled_def push_def must_wake_def isInLoopThread_def
      get_reactor_Inr_iff on_reactor_Inr_iff elsewhere_def split: loop_pc.splits\<close>)
qed

interpretation wakeups: inductive_invariant "loop_init looper r efd" "loop_step b ready looper r"
    "\<lambda>s. eventfd_documented b ready efd \<longrightarrow> wake_inv ready looper r efd s" for looper r efd b ready
proof unfold_locales
  show "eventfd_documented b ready efd \<longrightarrow> wake_inv ready looper r efd s"
    if "loop_init looper r efd s" for s :: "('a, 'b, 'c) threads"
    using that by (auto simp: loop_init_def wake_inv_def fresh_reactor_def)
qed (use wake_inv_step in blast)

text \<open>
  C1: no wakeup is lost. With a wakeup descriptor that behaves as documented and the loop in
  the thread that constructed the reactor, in every state the interleaving can reach: when the
  loop waits in \<^verbatim>\<open>poll\<close> while a task is queued or the quit flag is set, the wakeup descriptor
  is readable or some thread is on its way to write to it.
\<close>

theorem no_lost_wakeup:
  assumes "eventfd_documented b ready efd" and "reach (loop_init looper r efd) (loop_step b ready looper r) s"
    and "pc s = AtPoll" and "reactors (world s) r = Some R" and "r_pending_tasks R \<noteq> [] \<or> r_quit R"
  shows "ready (kernel (world s)) \<or> 0 < waking s"
  using wakeups.reach_inv [OF assms(2)] assms(1,3-5) by (auto simp: wake_inv_def signalled_def)

text \<open>A kernel that counts the writes to the wakeup descriptor.\<close>

definition count_os :: "nat os" where
  "count_os = failing_os\<lparr>sys_write := (\<lambda>_ s k. (int (length s), Suc k)), sys_read := (\<lambda>_ n k. ((int n, []), 0))\<rparr>"

definition count_build :: "bool \<Rightarrow> nat build" where
  "count_build nd = \<lparr>os = count_os, ndebug = nd, platform = Linux\<rparr>"

definition start_state :: "thread_id \<Rightarrow> (nat, unit, nat) threads" where
  "start_state owner = \<lparr>world = \<lparr>kernel = 0, heap = Map.empty,
       reactors = [0 \<mapsto> demo_reactor\<lparr>r_thread_id := owner\<rparr>], next_chan = 2\<rparr>, pc = AtCheck, waking = 0\<rparr>"

definition posted_state :: "thread_id \<Rightarrow> nat \<Rightarrow> (nat, unit, nat) threads" where
  "posted_state owner n = \<lparr>world = \<lparr>kernel = 0, heap = Map.empty,
       reactors = [0 \<mapsto> demo_reactor\<lparr>r_thread_id := owner, r_pending_tasks := [9]\<rparr>], next_chan = 2\<rparr>,
     pc = AtPoll, waking = n\<rparr>"

lemma start_init: "loop_init owner 0 4 (start_state owner)"
  by (auto simp: loop_init_def start_state_def fresh_reactor_def demo_reactor_def)

lemma count_eventfd: "eventfd_documented (count_build nd) (\<lambda>k. 0 < k) 4"
  by (simp add: eventfd_documented_def count_build_def count_os_def)

text \<open>Thread 8 posts task 9 while the loop of thread 7 polls.\<close>

lemma start_posted:
  "reach (loop_init owner 0 4) (loop_step (count_build nd) ready 7 0)
     (posted_state owner (if owner = 8 then 0 else 1))"
proof -
  let ?step = "loop_step (count_build nd) ready 7 0" and ?s = "start_state owner"
  have R: "get_reactor 0 (world ?s) = Inr (demo_reactor\<lparr>r_thread_id := owner\<rparr>)"
    by (simp add: start_state_def)
  have "pc ?s = AtCheck" by (simp add: start_state_def)
  from loop_step.check [OF this R] have step1: "?step ?s (?s\<lparr>pc := AtPoll\<rparr>)"
    by (simp add: demo_reactor_def)
  have "get_reactor 0 (world (?s\<lparr>pc := AtPoll\<rparr>)) = Inr (demo_reactor\<lparr>r_thread_id := owner\<rparr>)"
    using R by simp
  moreover have "on_reactor 0 (push 9) (world (?s\<lparr>pc := AtPoll\<rparr>)) = Inr (world (posted_state owner 0))"
    by (simp add: start_state_def posted_state_def push_def demo_reactor_def put_reactor_def)
  ultimately have "?step (?s\<lparr>pc := AtPoll\<rparr>) (?s\<lparr>pc := AtPoll, world := world (posted_state owner 0),
      waking := waking (?s\<lparr>pc := AtPoll\<rparr>) + (if must_wake 8 (demo_reactor\<lparr>r_thread_id := owner\<rparr>) then 1 else 0)\<rparr>)"
    by (rule loop_step.post [where me = 8, rotated]) simp
  then have "?step (?s\<lparr>pc := AtPoll\<rparr>) (posted_state owner (if owner = 8 then 0 else 1))"
    by (cases "owner = 8")
      (simp_all add: start_state_def posted_state_def must_wake_def isInLoopThread_def demo_reactor_def)
  then show ?thesis
    using start_init step1 by (meson reach_init reach_step)
qed

theorem no_lost_wakeup_witness:
  "reach (loop_init 7 0 4) (loop_step (count_build False) (\<lambda>k. 0 < k) 7 0) (posted_state 7 1) \<and>
   (0 < kernel (world (posted_state 7 1)) \<or> 0 < waking (posted_state 7 1))"
proof -
  have reached: "reach (loop_init 7 0 4) (loop_step (count_build False) (\<lambda>k. 0 < k) 7 0) (posted_state 7 1)"
    using start_posted [of 7 False "\<lambda>k. 0 < k"] by simp
  have "pc (posted_state 7 1) = AtPoll" by (simp add: posted_state_def)
  moreover have "reactors (world (posted_state 7 1)) 0 = Some (demo_reactor\<lparr>r_thread_id := 7, r_pending_tasks := [9]\<rparr>)"
    by (simp add: posted_state_def)
  ultimately show ?thesis
    using no_lost_wakeup [OF count_eventfd reached] reached by simp
qed


end
