(* ===== verification/Timers.thy ===== *)
theory Timers
  imports EventLoop
begin

text \<open>
  The timers of the reactor, \<^verbatim>\<open>runAt\<close>, \<^verbatim>\<open>runAfter\<close> and \<^verbatim>\<open>runEvery\<close>: each delay is slept in a
  detached thread of its own, which then calls \<^verbatim>\<open>runInLoop\<close>. The theory shows that a periodic
  task has exactly one instance under way, never runs more often than its interval allows, and
  keeps running; and what an absolute time far in the future does.
\<close>

section \<open>State and operations\<close>

text \<open>
  The closure \<^verbatim>\<open>runEvery\<close> queues captures the task, the interval and the reactor. The type
  \<open>'d\<close> is that of \<^verbatim>\<open>double\<close>.
\<close>

datatype ('t, 'd) timed = Plain 't | Every "('t, 'd) timed" 'd reactor_ptr

text \<open>A detached thread that sleeps: when it wakes, in milliseconds, and what it will do.\<close>

record ('t, 'd) sleeper =
  wakes_at :: int
  sl_reactor :: reactor_ptr
  sl_task :: "('t, 'd) timed"
  sl_thread :: thread_id

record ('k, 'cb, 't, 'd) tnet = "('k, 'cb, ('t, 'd) timed) rnet" +
  sleepers :: "('t, 'd) sleeper list"
  next_thread :: thread_id
  clock_ms :: int

text \<open>
  What the code uses of \<^verbatim>\<open>double\<close>: the conversion of a number of seconds, the test against
  zero, and \<^verbatim>\<open>static_cast<int>(d * 1000)\<close>, which is undefined outside the range of \<^verbatim>\<open>int\<close>.
\<close>

record 'd floating =
  of_seconds :: "int \<Rightarrow> 'd"
  not_positive :: "'d \<Rightarrow> bool"
  to_millis :: "'d \<Rightarrow> int option"

definition runAfter :: "'d floating \<Rightarrow> reactor_ptr \<Rightarrow> ('t, 'd) timed \<Rightarrow> 'd \<Rightarrow>
    ('k, 'cb, 't, 'd, 'z) tnet_scheme \<Rightarrow> ('k, 'cb, 't, 'd, 'z) tnet_scheme outcome" where
  "runAfter fp r task delay_seconds w =
     (case to_millis fp delay_seconds of
        None \<Rightarrow> Inl Undefined
      | Some ms \<Rightarrow> Inr (w\<lparr>sleepers := sleepers w @ [\<lparr>wakes_at = clock_ms w + max 0 ms, sl_reactor = r,
            sl_task = task, sl_thread = next_thread w\<rparr>], next_thread := Suc (next_thread w)\<rparr>))"

definition runEvery :: "'d floating \<Rightarrow> reactor_ptr \<Rightarrow> ('t, 'd) timed \<Rightarrow> 'd \<Rightarrow>
    ('k, 'cb, 't, 'd, 'z) tnet_scheme \<Rightarrow> ('k, 'cb, 't, 'd, 'z) tnet_scheme outcome" where
  "runEvery fp r task interval_seconds w = runAfter fp r (Every task interval_seconds r) interval_seconds w"

fun run_timed :: "'d floating \<Rightarrow> ('t \<Rightarrow> ('k, 'cb, 't, 'd, 'z) tnet_scheme \<Rightarrow> ('k, 'cb, 't, 'd, 'z) tnet_scheme outcome) \<Rightarrow>
    ('t, 'd) timed \<Rightarrow> ('k, 'cb, 't, 'd, 'z) tnet_scheme \<Rightarrow> ('k, 'cb, 't, 'd, 'z) tnet_scheme outcome" where
  "run_timed fp run (Plain t) w = run t w"
| "run_timed fp run (Every task d r) w = obind (run_timed fp run task w) (runEvery fp r task d)"

text \<open>The difference of the two times is taken to fit a \<^verbatim>\<open>time_t\<close>.\<close>

definition runAt :: "'k build \<Rightarrow> 'd floating \<Rightarrow>
    ('t \<Rightarrow> ('k, 'cb, 't, 'd, 'z) tnet_scheme \<Rightarrow> ('k, 'cb, 't, 'd, 'z) tnet_scheme outcome) \<Rightarrow>
    thread_id \<Rightarrow> reactor_ptr \<Rightarrow> ('t, 'd) timed \<Rightarrow> int \<Rightarrow>
    ('k, 'cb, 't, 'd, 'z) tnet_scheme \<Rightarrow> ('k, 'cb, 't, 'd, 'z) tnet_scheme outcome" where
  "runAt b fp run me r task when_s w =
     (case sys_time (os b) (kernel w) of (now_s, k) \<Rightarrow>
        let w = w\<lparr>kernel := k\<rparr>; delay = of_seconds fp (when_s - now_s)
        in if not_positive fp delay then runInLoop b (run_timed fp run) me r task w
           else runAfter fp r task delay w)"

text \<open>The \<open>i\<close>-th sleeper has slept long enough and calls \<^verbatim>\<open>runInLoop\<close> in its own thread.\<close>

definition wake_sleeper :: "'k build \<Rightarrow> 'd floating \<Rightarrow>
    ('t \<Rightarrow> ('k, 'cb, 't, 'd, 'z) tnet_scheme \<Rightarrow> ('k, 'cb, 't, 'd, 'z) tnet_scheme outcome) \<Rightarrow> nat \<Rightarrow>
    ('k, 'cb, 't, 'd, 'z) tnet_scheme \<Rightarrow> ('k, 'cb, 't, 'd, 'z) tnet_scheme outcome" where
  "wake_sleeper b fp run i w =
     (if i < length (sleepers w) \<and> wakes_at (sleepers w ! i) \<le> clock_ms w then
        (let s = sleepers w ! i
         in runInLoop b (run_timed fp run) (sl_thread s) (sl_reactor s) (sl_task s)
              (w\<lparr>sleepers := take i (sleepers w) @ drop (Suc i) (sleepers w)\<rparr>))
      else Inr w)"

section \<open>Periodic tasks\<close>

text \<open>What can happen to a reactor with timers: time passes, a sleeper wakes, the loop serves its queue.\<close>

datatype timer_op = Tick nat | Wake nat | ServeTimed

fun timer_step :: "'k build \<Rightarrow> 'd floating \<Rightarrow>
    ('t \<Rightarrow> ('k, 'cb, 't, 'd, 'z) tnet_scheme \<Rightarrow> ('k, 'cb, 't, 'd, 'z) tnet_scheme outcome) \<Rightarrow> reactor_ptr \<Rightarrow>
    timer_op \<Rightarrow> ('k, 'cb, 't, 'd, 'z) tnet_scheme \<Rightarrow> ('k, 'cb, 't, 'd, 'z) tnet_scheme outcome" where
  "timer_step b fp run r (Tick n) w = Inr (w\<lparr>clock_ms := clock_ms w + int n\<rparr>)"
| "timer_step b fp run r (Wake i) w = wake_sleeper b fp run i w"
| "timer_step b fp run r ServeTimed w = doPendingTasks (run_timed fp run) r w"

text \<open>What is asked of a plain task: it returns and records that it ran, and nothing else.\<close>

definition plain_law :: "('t \<Rightarrow> ('k, 'cb, 't, 'd, 'z) tnet_scheme \<Rightarrow> ('k, 'cb, 't, 'd, 'z) tnet_scheme outcome) \<Rightarrow>
    ('z \<Rightarrow> 't list) \<Rightarrow> bool" where
  "plain_law run executed \<longleftrightarrow> (\<forall>t w. \<exists>k m. run t w = Inr (tnet.more_update (\<lambda>_. m) (w\<lparr>kernel := k\<rparr>)) \<and>
     executed m = executed (tnet.more w) @ [t])"

text \<open>
  The state of a periodic task \<open>t\<close> that was started at time \<open>T\<close> with an interval of \<open>ms\<close>
  milliseconds and has run \<open>n\<close> times: it sleeps, or it waits in the queue, and not both.
\<close>

definition periodic :: "reactor_ptr \<Rightarrow> 't \<Rightarrow> 'd \<Rightarrow> int \<Rightarrow> int \<Rightarrow> ('z \<Rightarrow> 't list) \<Rightarrow> 't list \<Rightarrow> nat \<Rightarrow>
    ('k, 'cb, 't, 'd, 'z) tnet_scheme \<Rightarrow> bool" where
  "periodic r t d ms T executed before n w \<longleftrightarrow>
     executed (tnet.more w) = before @ replicate n t \<and> T + int n * ms \<le> clock_ms w \<and>
     (\<exists>R. reactors w r = Some R \<and> r_thread_id R < next_thread w \<and> \<not> r_calling_pending_tasks R \<and>
       ((\<exists>s. sleepers w = [s] \<and> r_pending_tasks R = [] \<and> sl_reactor s = r \<and> sl_task s = Every (Plain t) d r \<and>
           r_thread_id R < sl_thread s \<and> T + (int n + 1) * ms \<le> wakes_at s \<and> wakes_at s \<le> clock_ms w + ms) \<or>
        (sleepers w = [] \<and> r_pending_tasks R = [Every (Plain t) d r] \<and> T + (int n + 1) * ms \<le> clock_ms w)))"

text \<open>Serving a queue that holds the periodic task runs it once and sends it to sleep again.\<close>

lemma serve_periodic:
  assumes "plain_law run executed" and "to_millis fp d = Some ms" and "0 \<le> ms"
    and "reactors w r = Some R" and "r_pending_tasks R = [Every (Plain t) d r]"
  shows "\<exists>k m. executed m = executed (tnet.more w) @ [t] \<and>
     doPendingTasks (run_timed fp run) r w = Inr ((tnet.more_update (\<lambda>_. m) (put_reactor r
       (R\<lparr>r_pending_tasks := [], r_calling_pending_tasks := False\<rparr>) w))\<lparr>kernel := k,
       sleepers := sleepers w @ [\<lparr>wakes_at = clock_ms w + ms, sl_reactor = r, sl_task = Every (Plain t) d r,
         sl_thread = next_thread w\<rparr>], next_thread := Suc (next_thread w)\<rparr>)"
proof -
  let ?w = "put_reactor r (R\<lparr>r_calling_pending_tasks := True, r_pending_tasks := []\<rparr>) w"
  obtain k m where m: "run t ?w = Inr (tnet.more_update (\<lambda>_. m) (?w\<lparr>kernel := k\<rparr>))"
    "executed m = executed (tnet.more ?w) @ [t]" using assms(1) unfolding plain_law_def by blast
  have "doPendingTasks (run_timed fp run) r w = Inr ((tnet.more_update (\<lambda>_. m) (put_reactor r
       (R\<lparr>r_pending_tasks := [], r_calling_pending_tasks := False\<rparr>) w))\<lparr>kernel := k,
       sleepers := sleepers w @ [\<lparr>wakes_at = clock_ms w + ms, sl_reactor = r, sl_task = Every (Plain t) d r,
         sl_thread = next_thread w\<rparr>], next_thread := Suc (next_thread w)\<rparr>)"
    using assms(2-5) m(1) by (simp add: doPendingTasks_def runEvery_def runAfter_def put_reactor_def)
  moreover have "executed m = executed (tnet.more w) @ [t]" using m(2) by (simp add: put_reactor_def)
  ultimately show ?thesis by blast
qed

text \<open>The two places a periodic task can be.\<close>

lemma periodicE:
  assumes "periodic r t d ms T executed before n w"
  obtains (asleep) R s where "executed (tnet.more w) = before @ replicate n t" "T + int n * ms \<le> clock_ms w"
      "reactors w r = Some R" "r_thread_id R < next_thread w" "\<not> r_calling_pending_tasks R" "r_pending_tasks R = []"
      "sleepers w = [s]" "sl_reactor s = r" "sl_task s = Every (Plain t) d r" "r_thread_id R < sl_thread s"
      "T + (int n + 1) * ms \<le> wakes_at s" "wakes_at s \<le> clock_ms w + ms"
  | (queued) R where "executed (tnet.more w) = before @ replicate n t" "T + int n * ms \<le> clock_ms w"
      "reactors w r = Some R" "r_thread_id R < next_thread w" "\<not> r_calling_pending_tasks R"
      "r_pending_tasks R = [Every (Plain t) d r]" "sleepers w = []" "T + (int n + 1) * ms \<le> clock_ms w"
  using assms unfolding periodic_def by blast

lemma wake_periodic:
  assumes "0 \<le> ms" and "periodic r t d ms T executed before n w"
  shows "\<exists>w'. wake_sleeper b fp run i w = Inr w' \<and> periodic r t d ms T executed before n w' \<and>
     clock_ms w' = clock_ms w \<and>
     (i = 0 \<and> (\<forall>s \<in> set (sleepers w). wakes_at s \<le> clock_ms w) \<longrightarrow> sleepers w' = [])"
  using assms(2)
proof (cases rule: periodicE)
  case (asleep R s)
  show ?thesis
  proof (cases "i = 0 \<and> wakes_at s \<le> clock_ms w")
    case True
    let ?w = "w\<lparr>sleepers := []\<rparr>"
    obtain k where k: "queueInLoop b (sl_thread s) r (Every (Plain t) d r) ?w =
        Inr ((put_reactor r (R\<lparr>r_pending_tasks := r_pending_tasks R @ [Every (Plain t) d r]\<rparr>) ?w)\<lparr>kernel := k\<rparr>)"
      using queueInLoop_law [of ?w r R b "sl_thread s" "Every (Plain t) d r"] asleep(3) by auto
    let ?w' = "(put_reactor r (R\<lparr>r_pending_tasks := [Every (Plain t) d r]\<rparr>) ?w)\<lparr>kernel := k\<rparr>"
    have "wake_sleeper b fp run i w = Inr ?w'"
      using True asleep k by (simp add: wake_sleeper_def Let_def runInLoop_def isInLoopThread_def)
    moreover have "periodic r t d ms T executed before n ?w'"
      using True asleep by (simp add: periodic_def put_reactor_def)
    ultimately show ?thesis by (auto simp: put_reactor_def)
  next
    case False
    with asleep assms(2) show ?thesis by (auto simp: wake_sleeper_def)
  qed
next
  case (queued R)
  with assms(2) show ?thesis by (simp add: wake_sleeper_def)
qed

lemma serve_step_periodic:
  assumes "plain_law run executed" and "to_millis fp d = Some ms" and "0 \<le> ms"
    and "periodic r t d ms T executed before n w"
  shows "\<exists>w'. doPendingTasks (run_timed fp run) r w = Inr w' \<and>
     periodic r t d ms T executed before (if sleepers w = [] then Suc n else n) w'"
  using assms(4)
proof (cases rule: periodicE)
  case (asleep R s)
  with doPendingTasks_idle [OF asleep(3,6)] show ?thesis
    by (auto simp: periodic_def put_reactor_def)
next
  case (queued R)
  from serve_periodic [OF assms(1-3) queued(3,6)] obtain k m where
    m: "executed m = executed (tnet.more w) @ [t]"
      "doPendingTasks (run_timed fp run) r w = Inr ((tnet.more_update (\<lambda>_. m) (put_reactor r
       (R\<lparr>r_pending_tasks := [], r_calling_pending_tasks := False\<rparr>) w))\<lparr>kernel := k,
       sleepers := sleepers w @ [\<lparr>wakes_at = clock_ms w + ms, sl_reactor = r, sl_task = Every (Plain t) d r,
         sl_thread = next_thread w\<rparr>], next_thread := Suc (next_thread w)\<rparr>)" by blast
  have "replicate n t @ [t] = replicate (Suc n) t" by (simp add: replicate_append_same)
  with m(1) queued(1) have "executed m = before @ replicate (Suc n) t" by simp
  with m(2) queued show ?thesis
    by (simp add: periodic_def put_reactor_def algebra_simps)
qed

lemma timer_step_periodic:
  assumes "plain_law run executed" and "to_millis fp d = Some ms" and "0 \<le> ms"
    and "periodic r t d ms T executed before n w"
  shows "\<exists>w' n'. timer_step b fp run r op w = Inr w' \<and> periodic r t d ms T executed before n' w'"
proof (cases op)
  case (Tick i)
  from assms(4) have "periodic r t d ms T executed before n (w\<lparr>clock_ms := clock_ms w + int i\<rparr>)"
    by (cases rule: periodicE) (auto simp: periodic_def)
  with Tick show ?thesis by auto
next
  case (Wake i)
  from wake_periodic [OF assms(3,4), of b fp run i] obtain w' where
    "wake_sleeper b fp run i w = Inr w'" "periodic r t d ms T executed before n w'" by blast
  with Wake show ?thesis by auto
next
  case ServeTimed
  from serve_step_periodic [OF assms] obtain w' n' where
    "doPendingTasks (run_timed fp run) r w = Inr w'" "periodic r t d ms T executed before n' w'" by blast
  with ServeTimed show ?thesis by auto
qed

interpretation periodic_history: simulation "timer_step b fp run r" "\<lambda>_ _. ()"
    "\<lambda>_. plain_law run executed \<and> to_millis fp d = Some ms \<and> 0 \<le> ms"
    "\<lambda>w. \<exists>n. periodic r t d ms T executed before n w" "\<lambda>_. ()" for b fp run r t d ms T executed before
proof unfold_locales
  fix w :: "('a, 'd, 'c, 'b, 'e) tnet_scheme" and op
  assume "\<exists>n. periodic r t d ms T executed before n w" and laws: "plain_law run executed \<and> to_millis fp d = Some ms \<and> 0 \<le> ms"
  then obtain n where "periodic r t d ms T executed before n w" by blast
  with laws obtain w' n' where "timer_step b fp run r op w = Inr w'" "periodic r t d ms T executed before n' w'"
    using timer_step_periodic [of run executed fp d ms r t T before n w b op] by blast
  then show "\<exists>w'. timer_step b fp run r op w = Inr w' \<and> (\<exists>n. periodic r t d ms T executed before n w') \<and> () = ()"
    by blast
qed

text \<open>After one interval the task runs again.\<close>

lemma periodic_progress:
  assumes "plain_law run executed" and "to_millis fp d = Some ms" and "0 \<le> ms"
    and "periodic r t d ms T executed before n w"
  shows "\<exists>w'. ofold (timer_step b fp run r) [Tick (nat ms), Wake 0, ServeTimed] w = Inr w' \<and>
     periodic r t d ms T executed before (Suc n) w'"
proof -
  let ?w1 = "w\<lparr>clock_ms := clock_ms w + ms\<rparr>"
  have p1: "periodic r t d ms T executed before n ?w1"
    using assms(4,3) by (cases rule: periodicE) (auto simp: periodic_def)
  have "\<forall>s \<in> set (sleepers ?w1). wakes_at s \<le> clock_ms ?w1"
    using assms(4) by (cases rule: periodicE) auto
  with wake_periodic [OF assms(3) p1, of b fp run 0] obtain w2 where
    w2: "wake_sleeper b fp run 0 ?w1 = Inr w2" "periodic r t d ms T executed before n w2" "sleepers w2 = []" by auto
  from serve_step_periodic [OF assms(1-3) w2(2)] w2 assms(3) show ?thesis by auto
qed

lemma runEvery_starts:
  assumes "to_millis fp d = Some ms" and "0 \<le> ms" and "reactors w r = Some R" and "r_thread_id R < next_thread w"
    and "\<not> r_calling_pending_tasks R" and "r_pending_tasks R = []" and "sleepers w = []"
  shows "\<exists>w'. runEvery fp r (Plain t) d w = Inr w' \<and>
     periodic r t d ms (clock_ms w) executed (executed (tnet.more w)) 0 w'"
  using assms by (simp add: runEvery_def runAfter_def periodic_def)


section \<open>Absolute times\<close>

text \<open>
  The documented behaviour of \<^verbatim>\<open>double\<close> on whole seconds: converting keeps the sign, and a
  number of milliseconds that fits an \<^verbatim>\<open>int\<close> is exact; one that does not is undefined.
\<close>

definition floating_documented :: "'d floating \<Rightarrow> bool" where
  "floating_documented fp \<longleftrightarrow> (\<forall>n. not_positive fp (of_seconds fp n) \<longleftrightarrow> n \<le> 0) \<and>
     (\<forall>n. to_millis fp (of_seconds fp n) =
        (if - (2 ^ 31) \<le> 1000 * n \<and> 1000 * n < 2 ^ 31 then Some (1000 * n) else None))"

text \<open>
  C34: \<^verbatim>\<open>runAt\<close> with a time that has come hands the task to the loop, running it at once in the
  loop's thread; a time up to 2147483 seconds (less than 25 days) ahead starts one timer thread
  that sleeps until then; a time further ahead is undefined, because the milliseconds do not
  fit the \<^verbatim>\<open>int\<close> they are converted to.
\<close>

theorem runAt_outcome:
  assumes "floating_documented fp" and "sys_time (os b) (kernel w) = (now_s, k)" and "reactors w r = Some R"
  shows "runAt b fp run me r task when_s w =
     (if when_s \<le> now_s
      then if isInLoopThread me R then run_timed fp run task (w\<lparr>kernel := k\<rparr>)
           else queueInLoop b me r task (w\<lparr>kernel := k\<rparr>)
      else if when_s - now_s \<le> 2147483
      then Inr (w\<lparr>kernel := k, sleepers := sleepers w @ [\<lparr>wakes_at = clock_ms w + 1000 * (when_s - now_s),
             sl_reactor = r, sl_task = task, sl_thread = next_thread w\<rparr>], next_thread := Suc (next_thread w)\<rparr>)
      else Inl Undefined)"
proof -
  let ?n = "when_s - now_s"
  have fp: "not_positive fp (of_seconds fp ?n) \<longleftrightarrow> when_s \<le> now_s"
    "0 < ?n \<Longrightarrow> to_millis fp (of_seconds fp ?n) = (if ?n \<le> 2147483 then Some (1000 * ?n) else None)"
    using assms(1) by (auto simp: floating_documented_def)
  consider "when_s \<le> now_s" | "0 < ?n" "?n \<le> 2147483" | "0 < ?n" "2147483 < ?n" by linarith
  then show ?thesis
  proof cases
    case 1
    then show ?thesis using assms(2,3) fp(1) by (simp add: runAt_def runInLoop_def)
  next
    case 2
    then show ?thesis using assms(2) fp by (simp add: runAt_def runAfter_def)
  next
    case 3
    then show ?thesis using assms(2) fp by (simp add: runAt_def runAfter_def)
  qed
qed

section \<open>An example\<close>

text \<open>Whole seconds for \<^verbatim>\<open>double\<close>, tasks that are numbers and are recorded when they run.\<close>

definition second_floats :: "int floating" where
  "second_floats = \<lparr>of_seconds = (\<lambda>n. n), not_positive = (\<lambda>n. n \<le> 0),
     to_millis = (\<lambda>n. if - (2 ^ 31) \<le> 1000 * n \<and> 1000 * n < 2 ^ 31 then Some (1000 * n) else None)\<rparr>"

lemma second_documented: "floating_documented second_floats"
  by (simp add: floating_documented_def second_floats_def)

definition timer_build :: "unit build" where
  "timer_build = \<lparr>os = failing_os, ndebug = False, platform = Linux\<rparr>"

definition record_run :: "nat \<Rightarrow> (unit, unit, nat, int, nat list) tnet_scheme \<Rightarrow>
    (unit, unit, nat, int, nat list) tnet_scheme outcome" where
  "record_run t w = Inr (tnet.more_update (\<lambda>dn. dn @ [t]) w)"

lemma record_law: "plain_law record_run (\<lambda>dn. dn)"
  unfolding plain_law_def record_run_def
proof (intro allI)
  fix t and w :: "(unit, unit, nat, int, nat list) tnet_scheme"
  show "\<exists>k m. Inr (tnet.more_update (\<lambda>dn. dn @ [t]) w) = Inr (tnet.more_update (\<lambda>_. m) (w\<lparr>kernel := k\<rparr>)) \<and>
      m = tnet.more w @ [t]"
    by (intro exI [of _ "kernel w"] exI [of _ "tnet.more w @ [t]"]) (cases w, simp)
qed

definition timer_net :: "(unit, unit, nat, int, nat list) tnet_scheme" where
  "timer_net = \<lparr>kernel = (), heap = Map.empty, reactors = [0 \<mapsto> \<lparr>r_quit = False, r_calling_pending_tasks = False,
       r_poller = Epoll \<lparr>ep_fd = 3, ep_channels = Map.empty, ep_events_size = 16\<rparr>, r_active_channels = [],
       r_pending_tasks = [], r_wakeup_fd = 4, r_wakeup_channel = 1, r_thread_id = 7\<rparr>],
     next_chan = 2, sleepers = [], next_thread = 8, clock_ms = 0, \<dots> = []\<rparr>"


theorem runAt_outcome_witness:
  "runAt timer_build second_floats record_run 7 0 (Plain 9) 2147484 timer_net = Inl Undefined \<and>
   (\<exists>w. runAt timer_build second_floats record_run 7 0 (Plain 9) 3600 timer_net = Inr w \<and>
     map wakes_at (sleepers w) = [3600000]) \<and>
   (\<exists>w. runAt timer_build second_floats record_run 7 0 (Plain 9) 0 timer_net = Inr w \<and> tnet.more w = [9])"
proof -
  have t: "sys_time (os timer_build) (kernel timer_net) = (0, ())" by (simp add: timer_build_def failing_os_def)
  obtain R where R: "reactors timer_net 0 = Some R" "isInLoopThread 7 R"
    by (simp add: timer_net_def isInLoopThread_def)
  note out = runAt_outcome [OF second_documented t R(1), of record_run 7 "Plain 9"]
  have "sleepers timer_net = []" "clock_ms timer_net = 0" "tnet.more timer_net = []" by (simp_all add: timer_net_def)
  then show ?thesis using R(2) by (simp add: out record_run_def)
qed

end
