(* ===== verification/CppStd.thy ===== *)
theory CppStd
  imports Prelude
begin

text \<open>
  The parts of the C++ standard library the engine's configuration code relies on:
  \<^verbatim>\<open>std::string\<close> searching and editing, \<^verbatim>\<open>std::getline\<close>,
  \<^verbatim>\<open>std::stoi\<close>, \<^verbatim>\<open>std::to_string\<close> and
  \<^verbatim>\<open>tolower\<close>. Positions are natural numbers and \<^verbatim>\<open>std::string::npos\<close>,
  the largest \<^verbatim>\<open>size_t\<close>, is \<^const>\<open>None\<close>: as a count it means "to the end",
  and \<^verbatim>\<open>npos + 1\<close> wraps to 0.
\<close>

section \<open>Searching and editing strings\<close>

definition find_first_not_of :: "string \<Rightarrow> string \<Rightarrow> nat option" where
  "find_first_not_of s cs =
     (let n = length (takeWhile (\<lambda>c. c \<in> set cs) s)
      in if n < length s then Some n else None)"

definition find_last_not_of :: "string \<Rightarrow> string \<Rightarrow> nat option" where
  "find_last_not_of s cs =
     (let n = length (dropWhile (\<lambda>c. c \<in> set cs) (rev s))
      in if n = 0 then None else Some (n - 1))"

definition find_char :: "string \<Rightarrow> char \<Rightarrow> nat option" where
  "find_char s c =
     (let n = length (takeWhile (\<lambda>d. d \<noteq> c) s)
      in if n < length s then Some n else None)"

definition npos_succ :: "nat option \<Rightarrow> nat" where
  "npos_succ p = (case p of None \<Rightarrow> 0 | Some i \<Rightarrow> Suc i)"

definition str_erase :: "string \<Rightarrow> nat \<Rightarrow> nat option \<Rightarrow> string outcome" where
  "str_erase s pos len =
     (if length s < pos then Inl OutOfRange
      else Inr (take pos s @ (case len of None \<Rightarrow> [] | Some n \<Rightarrow> drop (pos + n) s)))"

definition str_substr :: "string \<Rightarrow> nat \<Rightarrow> nat option \<Rightarrow> string outcome" where
  "str_substr s pos len =
     (if length s < pos then Inl OutOfRange
      else Inr (case len of None \<Rightarrow> drop pos s | Some n \<Rightarrow> take n (drop pos s)))"

text \<open>What the two \<^verbatim>\<open>erase\<close> calls of the parser amount to.\<close>

definition trim :: "string \<Rightarrow> string \<Rightarrow> string" where
  "trim cs s = rev (dropWhile (\<lambda>c. c \<in> set cs) (rev (dropWhile (\<lambda>c. c \<in> set cs) s)))"

definition erase_blanks :: "string \<Rightarrow> string \<Rightarrow> string outcome" where
  "erase_blanks cs s =
     obind (str_erase s 0 (find_first_not_of s cs))
       (\<lambda>s. str_erase s (npos_succ (find_last_not_of s cs)) None)"

lemma erase_leading:
  "str_erase s 0 (find_first_not_of s cs) = Inr (dropWhile (\<lambda>c. c \<in> set cs) s)"
proof -
  have "length (takeWhile P s) < length s \<longleftrightarrow> dropWhile P s \<noteq> []" for P
    by (metis length_append length_greater_0_conv less_add_same_cancel1 takeWhile_dropWhile_id)
  then show ?thesis
    by (auto simp: str_erase_def find_first_not_of_def Let_def dropWhile_eq_drop)
qed

lemma erase_trailing:
  "str_erase s (npos_succ (find_last_not_of s cs)) None =
     Inr (rev (dropWhile (\<lambda>c. c \<in> set cs) (rev s)))"
proof -
  have "take (length (dropWhile P (rev s))) s = rev (dropWhile P (rev s))" for P
    by (simp add: dropWhile_eq_drop rev_drop)
  then show ?thesis
    using length_dropWhile_le [of "\<lambda>c. c \<in> set cs" "rev s"]
    by (auto simp: str_erase_def find_last_not_of_def npos_succ_def Let_def)
qed

lemma erase_blanks_trim [simp]: "erase_blanks cs s = Inr (trim cs s)"
  by (simp add: erase_blanks_def trim_def erase_leading erase_trailing)

lemma trim_Nil [simp]: "trim cs [] = []"
  by (simp add: trim_def)

lemma dropWhile_id: "s = [] \<or> \<not> P (hd s) \<Longrightarrow> dropWhile P s = s"
  by (cases s) auto

lemma trim_id:
  assumes "s = [] \<or> hd s \<notin> set cs \<and> last s \<notin> set cs"
  shows "trim cs s = s"
  using assms by (auto simp: trim_def dropWhile_id hd_rev)

lemma dropWhile_all_append: "\<forall>x \<in> set xs. P x \<Longrightarrow> dropWhile P (xs @ ys) = dropWhile P ys"
  by (induction xs) auto

text \<open>Blanks around a text do not matter.\<close>

lemma trim_pad:
  assumes "set pre \<subseteq> set cs" and "set post \<subseteq> set cs"
  shows "trim cs (pre @ s @ post) = trim cs s"
proof -
  let ?P = "\<lambda>c. c \<in> set cs"
  have 1: "dropWhile ?P (pre @ s @ post) = dropWhile ?P (s @ post)"
    using assms(1) by (intro dropWhile_all_append) auto
  have 2: "dropWhile ?P (rev post @ t) = dropWhile ?P t" for t
    using assms(2) by (intro dropWhile_all_append) auto
  show ?thesis
  proof (cases "\<forall>c \<in> set s. ?P c")
    case True
    then have "dropWhile ?P (pre @ s @ post) = []" and "dropWhile ?P s = []"
      using assms by (auto simp: dropWhile_eq_Nil_conv)
    then show ?thesis by (simp only: trim_def)
  next
    case False
    then have "dropWhile ?P (s @ post) = dropWhile ?P s @ post"
      by (meson dropWhile_append1)
    with 1 2 show ?thesis by (simp add: trim_def)
  qed
qed

lemma trim_ends:
  assumes "trim cs s \<noteq> []"
  shows "hd (trim cs s) \<notin> set cs" and "last (trim cs s) \<notin> set cs"
proof -
  let ?P = "\<lambda>c. c \<in> set cs"
  let ?t = "dropWhile ?P s"
  have ne: "dropWhile ?P (rev ?t) \<noteq> []" using assms by (simp add: trim_def)
  then show "last (trim cs s) \<notin> set cs"
    using hd_dropWhile [of ?P "rev ?t"] by (simp add: trim_def last_rev)
  obtain w where "rev ?t = w @ dropWhile ?P (rev ?t)"
    by (metis takeWhile_dropWhile_id)
  then have "?t = trim cs s @ rev w"
    by (metis rev_append rev_rev_ident trim_def)
  moreover from this have "?t \<noteq> []" using assms by auto
  ultimately show "hd (trim cs s) \<notin> set cs"
    using hd_dropWhile [of ?P s] assms by (metis hd_append2)
qed

lemma trim_idem [simp]: "trim cs (trim cs s) = trim cs s"
  by (metis trim_ends trim_id)

lemma set_trim: "set (trim cs s) \<subseteq> set s"
  by (auto simp: trim_def dest!: set_dropWhileD)

section \<open>Reading lines\<close>

text \<open>
  One \<^verbatim>\<open>std::getline(stream, line)\<close> on a string stream: \<^const>\<open>None\<close> when the stream
  is exhausted, otherwise the line without its delimiter and the rest of the stream.
\<close>

abbreviation newline :: char where "newline \<equiv> CHR 0x0A"

definition getline :: "string \<Rightarrow> (string \<times> string) option" where
  "getline stream =
     (if stream = [] then None
      else Some (takeWhile (\<lambda>c. c \<noteq> newline) stream,
                 drop 1 (dropWhile (\<lambda>c. c \<noteq> newline) stream)))"

lemma getline_shorter: "getline stream = Some (line, rest) \<Longrightarrow> length rest < length stream"
  using length_dropWhile_le [of "\<lambda>c. c \<noteq> newline" stream]
  by (cases stream) (auto simp: getline_def split: if_splits)

function lines_of :: "string \<Rightarrow> string list" where
  "lines_of stream =
     (case getline stream of None \<Rightarrow> [] | Some (line, rest) \<Rightarrow> line # lines_of rest)"
  by pat_completeness auto
termination
  by (relation "measure length") (auto intro: getline_shorter)

declare lines_of.simps [simp del]

lemma lines_of_Nil [simp]: "lines_of [] = []"
  by (simp add: lines_of.simps getline_def)

lemma lines_of_line:
  assumes "newline \<notin> set l"
  shows "lines_of (l @ newline # rest) = l # lines_of rest"
proof -
  have *: "\<forall>c \<in> set l. c \<noteq> newline" using assms by metis
  have "takeWhile (\<lambda>c. c \<noteq> newline) (l @ newline # rest) = l"
    and "dropWhile (\<lambda>c. c \<noteq> newline) (l @ newline # rest) = newline # rest"
    using * by (induction l) simp_all
  then show ?thesis by (subst lines_of.simps) (simp add: getline_def)
qed

lemma lines_of_last:
  assumes "newline \<notin> set l" and "l \<noteq> []"
  shows "lines_of l = [l]"
proof -
  have *: "\<forall>c \<in> set l. c \<noteq> newline" using assms(1) by metis
  have "takeWhile (\<lambda>c. c \<noteq> newline) l = l" and "dropWhile (\<lambda>c. c \<noteq> newline) l = []"
    using * by (rule takeWhile_eq_all_conv [THEN iffD2], rule dropWhile_eq_Nil_conv [THEN iffD2])
  then have "getline l = Some (l, [])"
    using assms(2) by (simp only: getline_def if_False drop_Nil)
  then show ?thesis by (subst lines_of.simps) simp
qed

lemma lines_of_no_newline: "l \<in> set (lines_of stream) \<Longrightarrow> newline \<notin> set l"
proof (induction stream rule: lines_of.induct)
  case (1 stream)
  show ?case
  proof (cases "getline stream")
    case None
    with 1 show ?thesis by (simp add: lines_of.simps [of stream])
  next
    case (Some p)
    obtain line rest where p: "p = (line, rest)" by force
    with Some have "newline \<notin> set line"
      by (auto simp: getline_def split: if_splits dest: set_takeWhileD)
    with 1 Some p show ?thesis by (auto simp: lines_of.simps [of stream])
  qed
qed

section \<open>Numbers and letters\<close>

definition is_space :: "char \<Rightarrow> bool" where
  "is_space c \<longleftrightarrow> (of_char c :: nat) = 32 \<or> (9 \<le> (of_char c :: nat) \<and> (of_char c :: nat) \<le> 13)"

definition is_digit :: "char \<Rightarrow> bool" where
  "is_digit c \<longleftrightarrow> 48 \<le> (of_char c :: nat) \<and> (of_char c :: nat) \<le> 57"

definition digit_char :: "nat \<Rightarrow> char" where
  "digit_char d = char_of (48 + d)"

definition digits_value :: "string \<Rightarrow> int" where
  "digits_value ds = foldl (\<lambda>v c. 10 * v + (of_char c - 48)) 0 ds"

text \<open>
  \<^verbatim>\<open>std::stoi\<close> in base 10: leading white space, an optional sign, the longest run of
  digits; what follows is ignored. No digit raises \<^verbatim>\<open>std::invalid_argument\<close>, a
  value outside \<^verbatim>\<open>int\<close> raises \<^verbatim>\<open>std::out_of_range\<close>.
\<close>

definition stoi_sign :: "string \<Rightarrow> bool \<times> string" where
  "stoi_sign s = (case s of [] \<Rightarrow> (False, [])
     | c # r \<Rightarrow> if c = CHR ''-'' then (True, r) else if c = CHR ''+'' then (False, r)
        else (False, s))"

definition stoi :: "string \<Rightarrow> cint outcome" where
  "stoi s =
     (let (neg, r) = stoi_sign (dropWhile is_space s); ds = takeWhile is_digit r
      in if ds = [] then Inl InvalidArgument
         else let v = (if neg then - digits_value ds else digits_value ds)
              in if - (2 ^ 31) \<le> v \<and> v < 2 ^ 31 then Inr (word_of_int v) else Inl OutOfRange)"

text \<open>\<^verbatim>\<open>std::to_string(int)\<close>.\<close>

fun nat_digits :: "nat \<Rightarrow> string" where
  "nat_digits n =
     (if n < 10 then [digit_char n] else nat_digits (n div 10) @ [digit_char (n mod 10)])"

declare nat_digits.simps [simp del]

definition to_string_int :: "cint \<Rightarrow> string" where
  "to_string_int w =
     (let i = sint w in if i < 0 then CHR ''-'' # nat_digits (nat (- i)) else nat_digits (nat i))"

text \<open>\<^verbatim>\<open>tolower\<close> in the "C" locale.\<close>

definition tolower :: "char \<Rightarrow> char" where
  "tolower c = (if 65 \<le> (of_char c :: nat) \<and> (of_char c :: nat) \<le> 90
     then char_of ((of_char c :: nat) + 32) else c)"

lemma of_digit_char: "d < 10 \<Longrightarrow> (of_char (digit_char d) :: nat) = 48 + d"
  by (simp add: digit_char_def)

lemma of_digit_char_int: "d < 10 \<Longrightarrow> (of_char (digit_char d) :: int) = 48 + int d"
  by (metis of_digit_char of_nat_of_char of_nat_add of_nat_numeral)

lemma is_digit_digit_char: "d < 10 \<Longrightarrow> is_digit (digit_char d)"
  by (simp add: is_digit_def of_digit_char)

lemma nat_digits_digits: "c \<in> set (nat_digits n) \<Longrightarrow> is_digit c"
proof (induction n rule: nat_digits.induct)
  case (1 n)
  then show ?case
    by (cases "n < 10") (auto simp: nat_digits.simps [of n] is_digit_digit_char)
qed

lemma nat_digits_nonempty [simp]: "nat_digits n \<noteq> []"
  by (subst nat_digits.simps) simp

lemma digits_value_snoc: "digits_value (ds @ [c]) = 10 * digits_value ds + (of_char c - 48)"
  by (simp add: digits_value_def)

lemma digits_value_nat_digits: "digits_value (nat_digits n) = int n"
proof (induction n rule: nat_digits.induct)
  case (1 n)
  show ?case
  proof (cases "n < 10")
    case True
    then show ?thesis
      by (simp add: nat_digits.simps [of n] digits_value_def of_digit_char_int)
  next
    case False
    with 1 have "digits_value (nat_digits (n div 10)) = int (n div 10)" by simp
    moreover have "10 * int (n div 10) + int (n mod 10) = int n"
      by (simp add: zdiv_int zmod_int)
    ultimately show ?thesis
      using False by (simp add: nat_digits.simps [of n] digits_value_snoc of_digit_char_int)
  qed
qed

lemma digit_not_space: "is_digit c \<Longrightarrow> \<not> is_space c"
  by (auto simp: is_digit_def is_space_def)

lemma digit_not_sign: "is_digit c \<Longrightarrow> c \<noteq> CHR ''-'' \<and> c \<noteq> CHR ''+''"
  by (auto simp: is_digit_def)

lemma nat_digits_hd: "is_digit (hd (nat_digits n))"
  by (rule nat_digits_digits [of _ n]) simp

lemma stoi_sign_digits: "stoi_sign (nat_digits n) = (False, nat_digits n)"
  using nat_digits_hd [of n] digit_not_sign
  by (cases "nat_digits n") (auto simp: stoi_sign_def)

lemma dropWhile_space_digits: "dropWhile is_space (nat_digits n) = nat_digits n"
  using nat_digits_hd [of n] digit_not_space by (auto intro: dropWhile_id)

lemma takeWhile_digits: "takeWhile is_digit (nat_digits n) = nat_digits n"
  by (simp add: takeWhile_eq_all_conv nat_digits_digits)

theorem stoi_to_string_int: "stoi (to_string_int w) = Inr w"
proof (cases "sint w < 0")
  case True
  have "dropWhile is_space (CHR ''-'' # nat_digits n) = CHR ''-'' # nat_digits n" for n
    by (simp add: is_space_def)
  moreover have "stoi_sign (CHR ''-'' # nat_digits n) = (True, nat_digits n)" for n
    by (simp add: stoi_sign_def)
  ultimately show ?thesis
    using True sint_cint_range [of w]
    by (simp add: stoi_def to_string_int_def Let_def takeWhile_digits digits_value_nat_digits)
next
  case False
  then show ?thesis
    using sint_cint_range [of w]
    by (simp add: stoi_def to_string_int_def Let_def dropWhile_space_digits stoi_sign_digits
        takeWhile_digits digits_value_nat_digits)
qed

lemma to_string_int_nonempty [simp]: "to_string_int w \<noteq> []"
  by (simp add: to_string_int_def Let_def)

end
