(* ===== verification/TcpConnection.thy ===== *)
theory TcpConnection
  imports EventLoop CppStd
begin

text \<open>
  A TCP connection, \<^verbatim>\<open>include/network/tcp_connection.h\<close> and
  \<^verbatim>\<open>src/network/tcp_connection.cpp\<close>: its life cycle, the output buffer behind \<^verbatim>\<open>send\<close>
  and \<^verbatim>\<open>handleWrite\<close>, the input path, and the printed peer address. The message and close
  callbacks are values of \<open>'m\<close> and \<open>'c\<close>, interpreted by the arguments \<open>on_message\<close> and
  \<open>on_close\<close>. Connections are objects behind pointers, as channels are; a shared pointer to
  the connection is held by whoever calls it, so the object outlives the call.
\<close>

section \<open>State\<close>

datatype conn_state = kConnecting | kConnected | kDisconnecting | kDisconnected

record ('m, 'c) tcp_connection =
  sockfd :: int
  peer_addr :: sockaddr
  state :: conn_state
  input_buffer :: string
  output_buffer :: string
  message_callback :: "'m option"
  close_callback :: "'c option"
  last_active_time :: int
  conn_channel :: "chan_ptr option"

record ('k, 'cb, 't, 'm, 'c) cnet = "('k, 'cb, 't) rnet" +
  conns :: "conn_ptr \<rightharpoonup> ('m, 'c) tcp_connection"

definition kBufferSize :: nat where "kBufferSize = 65536"

definition get_conn :: "conn_ptr \<Rightarrow> ('k, 'cb, 't, 'm, 'c, 'z) cnet_scheme \<Rightarrow> ('m, 'c) tcp_connection outcome" where
  "get_conn cn w = (case conns w cn of None \<Rightarrow> Inl Undefined | Some x \<Rightarrow> Inr x)"

definition on_conn :: "conn_ptr \<Rightarrow> (('m, 'c) tcp_connection \<Rightarrow> ('m, 'c) tcp_connection) \<Rightarrow>
    ('k, 'cb, 't, 'm, 'c, 'z) cnet_scheme \<Rightarrow> ('k, 'cb, 't, 'm, 'c, 'z) cnet_scheme outcome" where
  "on_conn cn f w = obind (get_conn cn w) (\<lambda>x. Inr (w\<lparr>conns := (conns w)(cn \<mapsto> f x)\<rparr>))"

section \<open>Construction, state and time\<close>

text \<open>\<^verbatim>\<open>time(nullptr)\<close>.\<close>

definition now :: "'k build \<Rightarrow> ('k, 'cb, 't, 'm, 'c, 'z) cnet_scheme \<Rightarrow> int \<times> ('k, 'cb, 't, 'm, 'c, 'z) cnet_scheme" where
  "now b w = (case sys_time (os b) (kernel w) of (t, k) \<Rightarrow> (t, w\<lparr>kernel := k\<rparr>))"

definition set_option :: "'k build \<Rightarrow> int \<Rightarrow> sockopt \<Rightarrow> ('k, 'cb, 't, 'm, 'c, 'z) cnet_scheme \<Rightarrow>
    ('k, 'cb, 't, 'm, 'c, 'z) cnet_scheme" where
  "set_option b fd opt w = w\<lparr>kernel := snd (sys_setsockopt (os b) fd opt (kernel w))\<rparr>"

definition new_connection :: "'k build \<Rightarrow> conn_ptr \<Rightarrow> int \<Rightarrow> sockaddr \<Rightarrow>
    ('k, 'cb, 't, 'm, 'c, 'z) cnet_scheme \<Rightarrow> ('k, 'cb, 't, 'm, 'c, 'z) cnet_scheme" where
  "new_connection b cn fd peer w =
     (case now b w of (t, w) \<Rightarrow>
       let w = w\<lparr>conns := (conns w)(cn \<mapsto> \<lparr>sockfd = fd, peer_addr = peer, state = kConnecting,
             input_buffer = [], output_buffer = [], message_callback = None, close_callback = None,
             last_active_time = t, conn_channel = None\<rparr>)\<rparr>
       in set_option b fd TCP_NODELAY (set_option b fd SO_KEEPALIVE w))"

text \<open>
  The destructor closes the socket. Its channel, if it has one, is destroyed with the object;
  \<^verbatim>\<open>~Channel\<close> has its own assertion.
\<close>

definition destroy_connection :: "'k build \<Rightarrow> conn_ptr \<Rightarrow>
    ('k, 'cb, 't, 'm, 'c, 'z) cnet_scheme \<Rightarrow> ('k, 'cb, 't, 'm, 'c, 'z) cnet_scheme outcome" where
  "destroy_connection b cn w =
     obind (get_conn cn w) (\<lambda>x.
     let w = (if sockfd x \<ge> 0 then w\<lparr>kernel := sys_close (os b) (sockfd x) (kernel w)\<rparr> else w)
     in obind (case conn_channel x of None \<Rightarrow> Inr w | Some c \<Rightarrow> destroy_channel b c w) (\<lambda>w.
       Inr (w\<lparr>conns := (conns w)(cn := None)\<rparr>)))"

definition isConnected :: "('m, 'c) tcp_connection \<Rightarrow> bool" where
  "isConnected x \<longleftrightarrow> state x = kConnected"

definition setMessageCallback :: "'m option \<Rightarrow> ('m, 'c) tcp_connection \<Rightarrow> ('m, 'c) tcp_connection" where
  "setMessageCallback cb x = x\<lparr>message_callback := cb\<rparr>"

definition setConnCloseCallback :: "'c option \<Rightarrow> ('m, 'c) tcp_connection \<Rightarrow> ('m, 'c) tcp_connection" where
  "setConnCloseCallback cb x = x\<lparr>close_callback := cb\<rparr>"

definition setChannel :: "chan_ptr \<Rightarrow> ('m, 'c) tcp_connection \<Rightarrow> ('m, 'c) tcp_connection" where
  "setChannel c x = x\<lparr>conn_channel := Some c\<rparr>"

definition setState :: "conn_state \<Rightarrow> ('m, 'c) tcp_connection \<Rightarrow> ('m, 'c) tcp_connection" where
  "setState s x = x\<lparr>state := s\<rparr>"

definition updateLastActiveTime :: "'k build \<Rightarrow> conn_ptr \<Rightarrow>
    ('k, 'cb, 't, 'm, 'c, 'z) cnet_scheme \<Rightarrow> ('k, 'cb, 't, 'm, 'c, 'z) cnet_scheme outcome" where
  "updateLastActiveTime b cn w =
     (case now b w of (t, w) \<Rightarrow> on_conn cn (\<lambda>x. x\<lparr>last_active_time := t\<rparr>) w)"

definition isTimeout :: "'k build \<Rightarrow> conn_ptr \<Rightarrow> cint \<Rightarrow> ('k, 'cb, 't, 'm, 'c, 'z) cnet_scheme \<Rightarrow>
    (bool \<times> ('k, 'cb, 't, 'm, 'c, 'z) cnet_scheme) outcome" where
  "isTimeout b cn timeout_seconds w =
     (case now b w of (t, w) \<Rightarrow>
       obind (get_conn cn w) (\<lambda>x. Inr (t - last_active_time x > sint timeout_seconds, w)))"

definition establishConnection :: "'k build \<Rightarrow> conn_ptr \<Rightarrow>
    ('k, 'cb, 't, 'm, 'c, 'z) cnet_scheme \<Rightarrow> ('k, 'cb, 't, 'm, 'c, 'z) cnet_scheme outcome" where
  "establishConnection b cn w =
     obind (on_conn cn (setState kConnected) w) (updateLastActiveTime b cn)"

definition closeConnection :: "('c \<Rightarrow> conn_ptr \<Rightarrow> ('k, 'cb, 't, 'm, 'c, 'z) cnet_scheme \<Rightarrow>
      ('k, 'cb, 't, 'm, 'c, 'z) cnet_scheme outcome) \<Rightarrow> conn_ptr \<Rightarrow>
    ('k, 'cb, 't, 'm, 'c, 'z) cnet_scheme \<Rightarrow> ('k, 'cb, 't, 'm, 'c, 'z) cnet_scheme outcome" where
  "closeConnection on_close cn w =
     obind (get_conn cn w) (\<lambda>x.
       if state x = kConnected then
         obind (on_conn cn (setState kDisconnecting) w) (\<lambda>w.
         obind (case close_callback x of None \<Rightarrow> Inr w | Some cb \<Rightarrow> on_close cb cn w) (\<lambda>w.
           on_conn cn (setState kDisconnected) w))
       else Inr w)"

section \<open>Sending\<close>

text \<open>
  \<^verbatim>\<open>output_buffer_.append(data + nwrote, remaining)\<close>, with the pointer arithmetic checked:
  reading past the data is undefined.
\<close>

definition append_rest :: "string \<Rightarrow> int \<Rightarrow> int \<Rightarrow> ('m, 'c) tcp_connection \<Rightarrow> ('m, 'c) tcp_connection outcome" where
  "append_rest data nwrote remaining x =
     (if 0 \<le> nwrote \<and> nwrote + remaining \<le> int (length data)
      then Inr (x\<lparr>output_buffer := output_buffer x @ take (nat remaining) (drop (nat nwrote) data)\<rparr>)
      else Inl Undefined)"

text \<open>
  The direct write: the byte count when everything went out, otherwise \<open>(nwrote, remaining,
  fault_error)\<close>. The subtraction \<^verbatim>\<open>len - nwrote\<close> is one of \<^verbatim>\<open>size_t\<close>.
\<close>

definition direct_write :: "'k build \<Rightarrow> int \<Rightarrow> string \<Rightarrow> 'k \<Rightarrow> (int + int \<times> int \<times> bool) \<times> 'k" where
  "direct_write b fd data k =
     (case sys_write (os b) fd data k of (nwrote, k) \<Rightarrow>
        if nwrote \<ge> 0 then
          let remaining = (int (length data) - nwrote) mod 2 ^ 64
          in (if remaining = 0 then Inl nwrote else Inr (nwrote, remaining, False), k)
        else
          let errno = sys_errno (os b) k
          in (Inr (0, int (length data),
                   errno \<noteq> EWOULDBLOCK \<and> (errno = EPIPE \<or> errno = ECONNRESET)), k))"

text \<open>The write is tried only when no earlier bytes wait.\<close>

definition try_write :: "'k build \<Rightarrow> ('m, 'c) tcp_connection \<Rightarrow> string \<Rightarrow> 'k \<Rightarrow>
    (int + int \<times> int \<times> bool) \<times> 'k" where
  "try_write b x data k =
     (if output_buffer x = [] then direct_write b (sockfd x) data k
      else (Inr (0, int (length data), False), k))"

definition send :: "'k build \<Rightarrow> conn_ptr \<Rightarrow> string \<Rightarrow> ('k, 'cb, 't, 'm, 'c, 'z) cnet_scheme \<Rightarrow>
    (int \<times> ('k, 'cb, 't, 'm, 'c, 'z) cnet_scheme) outcome" where
  "send b cn data w =
     obind (get_conn cn w) (\<lambda>x.
     if state x \<noteq> kConnected then Inr (- 1, w)
     else obind (updateLastActiveTime b cn w) (\<lambda>w.
       case try_write b x data (kernel w) of
         (Inl nwrote, k) \<Rightarrow> Inr (nwrote, w\<lparr>kernel := k\<rparr>)
       | (Inr (nwrote, remaining, fault_error), k) \<Rightarrow>
           let w = w\<lparr>kernel := k\<rparr>
           in obind (cpp_assert (ndebug b) (remaining \<le> int (length data)) w) (\<lambda>w.
              obind (if \<not> fault_error \<and> remaining > 0 then
                       obind (get_conn cn w) (\<lambda>x.
                       obind (append_rest data nwrote remaining x) (\<lambda>x.
                         Inr (w\<lparr>conns := (conns w)(cn \<mapsto> x)\<rparr>)))
                     else Inr w) (\<lambda>w.
                Inr (if fault_error then - 1 else int (length data), w)))))"

section \<open>Readiness\<close>

definition handleError :: "'k build \<Rightarrow> ('c \<Rightarrow> conn_ptr \<Rightarrow> ('k, 'cb, 't, 'm, 'c, 'z) cnet_scheme \<Rightarrow>
      ('k, 'cb, 't, 'm, 'c, 'z) cnet_scheme outcome) \<Rightarrow> conn_ptr \<Rightarrow>
    ('k, 'cb, 't, 'm, 'c, 'z) cnet_scheme \<Rightarrow> ('k, 'cb, 't, 'm, 'c, 'z) cnet_scheme outcome" where
  "handleError b on_close cn w =
     obind (get_conn cn w) (\<lambda>x.
       case sys_getsockopt_error (os b) (sockfd x) (kernel w) of ((ret, err), k) \<Rightarrow>
         closeConnection on_close cn (w\<lparr>kernel := k\<rparr>))"

definition handleRead :: "'k build \<Rightarrow>
    ('m \<Rightarrow> conn_ptr \<Rightarrow> string \<Rightarrow> ('k, 'cb, 't, 'm, 'c, 'z) cnet_scheme \<Rightarrow>
      ('k, 'cb, 't, 'm, 'c, 'z) cnet_scheme outcome) \<Rightarrow>
    ('c \<Rightarrow> conn_ptr \<Rightarrow> ('k, 'cb, 't, 'm, 'c, 'z) cnet_scheme \<Rightarrow>
      ('k, 'cb, 't, 'm, 'c, 'z) cnet_scheme outcome) \<Rightarrow> conn_ptr \<Rightarrow>
    ('k, 'cb, 't, 'm, 'c, 'z) cnet_scheme \<Rightarrow> ('k, 'cb, 't, 'm, 'c, 'z) cnet_scheme outcome" where
  "handleRead b on_message on_close cn w =
     obind (updateLastActiveTime b cn w) (\<lambda>w.
     obind (get_conn cn w) (\<lambda>x.
       case sys_read (os b) (sockfd x) kBufferSize (kernel w) of ((n, buffer), k) \<Rightarrow>
         let w = w\<lparr>kernel := k\<rparr>
         in if n > 0 then
              obind (on_conn cn (\<lambda>x. x\<lparr>input_buffer := input_buffer x @ take (nat n) buffer\<rparr>) w) (\<lambda>w.
              obind (get_conn cn w) (\<lambda>x.
                case message_callback x of
                  None \<Rightarrow> Inr w
                | Some cb \<Rightarrow> obind (on_message cb cn (input_buffer x) w)
                    (on_conn cn (\<lambda>x. x\<lparr>input_buffer := []\<rparr>))))
            else if n = 0 then closeConnection on_close cn w
            else let errno = sys_errno (os b) k
              in if errno \<noteq> EWOULDBLOCK \<and> errno \<noteq> EAGAIN then handleError b on_close cn w else Inr w))"

definition handleWrite :: "'k build \<Rightarrow>
    ('c \<Rightarrow> conn_ptr \<Rightarrow> ('k, 'cb, 't, 'm, 'c, 'z) cnet_scheme \<Rightarrow>
      ('k, 'cb, 't, 'm, 'c, 'z) cnet_scheme outcome) \<Rightarrow> conn_ptr \<Rightarrow>
    ('k, 'cb, 't, 'm, 'c, 'z) cnet_scheme \<Rightarrow> ('k, 'cb, 't, 'm, 'c, 'z) cnet_scheme outcome" where
  "handleWrite b on_close cn w =
     obind (updateLastActiveTime b cn w) (\<lambda>w.
     obind (get_conn cn w) (\<lambda>x.
       if output_buffer x = [] then Inr w
       else case sys_write (os b) (sockfd x) (output_buffer x) (kernel w) of (n, k) \<Rightarrow>
         let w = w\<lparr>kernel := k\<rparr>
         in if n > 0 then on_conn cn (\<lambda>x. x\<lparr>output_buffer := drop (nat n) (output_buffer x)\<rparr>) w
            else let errno = sys_errno (os b) k
              in if errno \<noteq> EWOULDBLOCK \<and> errno \<noteq> EAGAIN then handleError b on_close cn w else Inr w))"

section \<open>The peer's address\<close>

unbundle bit_operations_syntax

text \<open>
  \<^verbatim>\<open>inet_ntoa\<close> prints the four bytes of the address in memory order, \<^verbatim>\<open>ntohs\<close> swaps the
  two bytes of the port (both on a little-endian machine).
\<close>

definition byte_of :: "nat \<Rightarrow> u32 \<Rightarrow> nat" where
  "byte_of i a = unat (take_bit 8 (drop_bit (8 * i) a))"

definition inet_ntoa :: "u32 \<Rightarrow> string" where
  "inet_ntoa a = nat_digits (byte_of 0 a) @ ''.'' @ nat_digits (byte_of 1 a) @ ''.'' @
     nat_digits (byte_of 2 a) @ ''.'' @ nat_digits (byte_of 3 a)"

definition ntohs :: "u16 \<Rightarrow> u16" where
  "ntohs p = push_bit 8 p OR drop_bit 8 p"

definition getPeerAddress :: "('m, 'c) tcp_connection \<Rightarrow> string" where
  "getPeerAddress x = take 63 (inet_ntoa (sin_addr (peer_addr x)) @ '':'' @
     nat_digits (unat (ntohs (sin_port (peer_addr x)))))"

end
