(* ===== verification/ConnectionProps.thy ===== *)
theory ConnectionProps
  imports TcpConnection
begin

text \<open>
  What a connection promises: the bytes given to \<^verbatim>\<open>send\<close> leave the socket once, in order
  and without gaps, across partial writes and buffering; the life cycle never runs backwards
  and the close callback runs once; received bytes reach the message callback in order.
\<close>

section \<open>Documented behaviour of sockets\<close>

text \<open>
  \<open>sent k fd\<close> is what the peer of \<open>fd\<close> will have received once the kernel has delivered it.
  A write that succeeds takes a prefix of its bytes, one that fails takes nothing, and the
  other calls take nothing.
\<close>

definition socket_documented :: "'k os \<Rightarrow> ('k \<Rightarrow> int \<Rightarrow> string) \<Rightarrow> bool" where
  "socket_documented sys sent \<longleftrightarrow>
     (\<forall>fd data k. case sys_write sys fd data k of (n, k') \<Rightarrow>
        n \<le> int (length data) \<and>
        sent k' = (if n < 0 then sent k else (sent k)(fd := sent k fd @ take (nat n) data))) \<and>
     (\<forall>k. sent (snd (sys_time sys k)) = sent k) \<and>
     (\<forall>fd n k. sent (snd (sys_read sys fd n k)) = sent k) \<and>
     (\<forall>fd k. sent (snd (sys_getsockopt_error sys fd k)) = sent k)"

lemma socket_write:
  assumes "socket_documented sys sent" and "sys_write sys fd data k = (n, k')"
  shows "n \<le> int (length data)"
    and "sent k' = (if n < 0 then sent k else (sent k)(fd := sent k fd @ take (nat n) data))"
  using assms by (auto simp: socket_documented_def split: prod.splits)

lemma socket_quiet:
  assumes "socket_documented sys sent"
  shows "sys_time sys k = (t, k') \<Longrightarrow> sent k' = sent k"
    and "sys_read sys fd m k = (res, k') \<Longrightarrow> sent k' = sent k"
    and "sys_getsockopt_error sys fd k = (err, k') \<Longrightarrow> sent k' = sent k"
  using assms unfolding socket_documented_def by (metis snd_conv)+

text \<open>
  The output of a connection: what has left it followed by what waits in the output buffer.
\<close>

definition stream_of :: "('k \<Rightarrow> int \<Rightarrow> string) \<Rightarrow> conn_ptr \<Rightarrow> ('k, 'cb, 't, 'm, 'c, 'z) cnet_scheme \<Rightarrow> string" where
  "stream_of sent cn w = (case conns w cn of None \<Rightarrow> []
     | Some x \<Rightarrow> sent (kernel w) (sockfd x) @ output_buffer x)"

section \<open>Execution of the operations\<close>

text \<open>
  The operations change a connection and the kernel; channels, reactors and everything else
  of the state, and the connection's identity, stay.
\<close>

definition conn_touched :: "conn_ptr \<Rightarrow> ('m, 'c) tcp_connection \<Rightarrow> ('m, 'c) tcp_connection \<Rightarrow>
    ('k, 'cb, 't, 'm, 'c, 'z) cnet_scheme \<Rightarrow> ('k, 'cb, 't, 'm, 'c, 'z) cnet_scheme \<Rightarrow> bool" where
  "conn_touched cn x x' w w' \<longleftrightarrow> w' = w\<lparr>kernel := kernel w', conns := (conns w)(cn \<mapsto> x')\<rparr> \<and>
     sockfd x' = sockfd x \<and> peer_addr x' = peer_addr x \<and> conn_channel x' = conn_channel x \<and>
     message_callback x' = message_callback x \<and> close_callback x' = close_callback x"

lemma conn_touchedD:
  assumes "conn_touched cn x x' w w'"
  shows "conns w' = (conns w)(cn \<mapsto> x')" "heap w' = heap w" "reactors w' = reactors w"
    "cnet.more w' = cnet.more w" "sockfd x' = sockfd x" "close_callback x' = close_callback x"
    "message_callback x' = message_callback x" "conn_channel x' = conn_channel x"
proof -
  have w': "w' = w\<lparr>kernel := kernel w', conns := (conns w)(cn \<mapsto> x')\<rparr>"
    using assms unfolding conn_touched_def by blast
  from arg_cong [OF w', of conns] show "conns w' = (conns w)(cn \<mapsto> x')" by simp
  from arg_cong [OF w', of heap] show "heap w' = heap w" by simp
  from arg_cong [OF w', of reactors] show "reactors w' = reactors w" by simp
  from arg_cong [OF w', of cnet.more] show "cnet.more w' = cnet.more w" by simp
qed (use assms in \<open>simp_all add: conn_touched_def\<close>)

lemma get_conn_Some [simp]: "conns w cn = Some x \<Longrightarrow> get_conn cn w = Inr x"
  by (simp add: get_conn_def)

lemma on_conn_Some [simp]:
  "conns w cn = Some x \<Longrightarrow> on_conn cn f w = Inr (w\<lparr>conns := (conns w)(cn \<mapsto> f x)\<rparr>)"
  by (simp add: on_conn_def)

lemma get_conn_kernel [simp]: "get_conn cn (w\<lparr>kernel := k\<rparr>) = get_conn cn w"
  by (simp add: get_conn_def)

lemma cnet_update_order [simp]:
  "w\<lparr>conns := cs, kernel := k\<rparr> = (w :: ('k, 'cb, 't, 'm, 'c, 'z) cnet_scheme)\<lparr>kernel := k, conns := cs\<rparr>"
  by simp

lemma updateLastActiveTime_eq:
  "conns w cn = Some x \<Longrightarrow> updateLastActiveTime b cn w =
     Inr (w\<lparr>kernel := snd (sys_time (os b) (kernel w)),
            conns := (conns w)(cn \<mapsto> x\<lparr>last_active_time := fst (sys_time (os b) (kernel w))\<rparr>)\<rparr>)"
  by (simp add: updateLastActiveTime_def now_def split: prod.splits)

text \<open>The errors \<^verbatim>\<open>send\<close> gives up on can occur.\<close>

definition fatal_errno :: "'k os \<Rightarrow> bool" where
  "fatal_errno sys \<longleftrightarrow> (\<exists>k. sys_errno sys k \<in> {EPIPE, ECONNRESET})"

text \<open>
  What the direct write reports: everything went out, or the part that went out and the part
  that is left, of which none went out on a fatal error.
\<close>

lemma direct_write_law:
  assumes "socket_documented (os b) sent" and "int (length data) < 2 ^ 64"
    and "direct_write b fd data k = (res, k')"
  shows "case res of
      Inl n \<Rightarrow> n = int (length data) \<and> sent k' = (sent k)(fd := sent k fd @ data)
    | Inr (nwrote, remaining, fault_error) \<Rightarrow>
        0 \<le> nwrote \<and> 0 \<le> remaining \<and> nwrote + remaining = int (length data) \<and>
        sent k' = (sent k)(fd := sent k fd @ take (nat nwrote) data) \<and>
        (fault_error \<longrightarrow> nwrote = 0 \<and> fatal_errno (os b))"
proof -
  obtain n k1 where wr: "sys_write (os b) fd data k = (n, k1)" by force
  note sent = socket_write [OF assms(1) wr]
  have "(int (length data) - n) mod 2 ^ 64 = int (length data) - n" if "0 \<le> n"
    using that sent(1) assms(2) by (intro mod_pos_pos_trivial) auto
  with assms(3) sent show ?thesis
    by (cases "n < 0") (auto simp: direct_write_def wr Let_def fatal_errno_def split: if_splits)
qed

text \<open>
  The result of a \<^verbatim>\<open>send\<close>: refused or fatal with nothing taken, or everything taken, sent
  and buffered in order.
\<close>

lemma try_write_law:
  assumes "socket_documented (os b) sent" and "int (length data) < 2 ^ 64"
    and "try_write b x data k = (res, k')"
  shows "case res of
      Inl n \<Rightarrow> n = int (length data) \<and>
        sent k' (sockfd x) @ output_buffer x = sent k (sockfd x) @ output_buffer x @ data
    | Inr (nwrote, remaining, fault_error) \<Rightarrow>
        0 \<le> nwrote \<and> 0 \<le> remaining \<and> nwrote + remaining = int (length data) \<and>
        sent k' (sockfd x) @ output_buffer x @ drop (nat nwrote) data =
          sent k (sockfd x) @ output_buffer x @ data \<and>
        (fault_error \<longrightarrow> sent k' (sockfd x) = sent k (sockfd x) \<and> fatal_errno (os b))"
    and "fd \<noteq> sockfd x \<Longrightarrow> sent k' fd = sent k fd"
  using assms(3) direct_write_law [OF assms(1,2), of "sockfd x" k res k']
  by (auto simp: try_write_def split: sum.splits if_splits)

lemma append_rest_all:
  assumes "0 \<le> nwrote" and "0 \<le> remaining" and "nwrote + remaining = int (length data)"
  shows "append_rest data nwrote remaining x =
     Inr (x\<lparr>output_buffer := output_buffer x @ drop (nat nwrote) data\<rparr>)"
proof -
  have "take (nat remaining) (drop (nat nwrote) data) = drop (nat nwrote) data"
    using assms by (intro take_all) auto
  with assms show ?thesis by (simp only: append_rest_def) simp
qed

lemma send_law:
  assumes doc: "socket_documented (os b) sent" and x: "conns w cn = Some x"
    and len: "int (length data) < 2 ^ 64"
  shows "\<exists>n w' x'. send b cn data w = Inr (n, w') \<and> conn_touched cn x x' w w' \<and>
     state x' = state x \<and> input_buffer x' = input_buffer x \<and>
     (\<forall>fd. fd \<noteq> sockfd x \<longrightarrow> sent (kernel w') fd = sent (kernel w) fd) \<and>
     (n = - 1 \<and> stream_of sent cn w' = stream_of sent cn w \<and> (state x = kConnected \<longrightarrow> fatal_errno (os b)) \<or>
      n = int (length data) \<and> stream_of sent cn w' = stream_of sent cn w @ data \<and> state x = kConnected)"
proof (cases "state x = kConnected")
  case False
  have "conn_touched cn x x w w" using x by (simp add: conn_touched_def fun_upd_idem)
  with False x show ?thesis by (auto simp: send_def)
next
  case True
  obtain t k0 where t: "sys_time (os b) (kernel w) = (t, k0)" by force
  obtain res k where res: "try_write b x data k0 = (res, k)" by force
  note quiet = socket_quiet(1) [OF doc t] and law = try_write_law(1) [OF doc len res]
    and others = try_write_law(2) [OF doc len res]
  let ?x = "\<lambda>buf. x\<lparr>last_active_time := t, output_buffer := buf\<rparr>"
  let ?w = "\<lambda>k buf. w\<lparr>kernel := k, conns := (conns w)(cn \<mapsto> ?x buf)\<rparr>"
  have touch: "conn_touched cn x (?x buf) w (?w k buf)" for k buf by (simp add: conn_touched_def)
  note run = send_def updateLastActiveTime_eq [OF x] t res cpp_assert_def
  show ?thesis
  proof (cases res)
    case (Inl n)
    then have "send b cn data w = Inr (n, ?w k (output_buffer x))" using True x by (simp add: run)
    moreover have "n = int (length data) \<and>
        stream_of sent cn (?w k (output_buffer x)) = stream_of sent cn w @ data"
      using law Inl quiet x by (simp add: stream_of_def)
    ultimately show ?thesis using touch [of "output_buffer x" k] others quiet True
      by (intro exI [of _ n] exI [of _ "?w k (output_buffer x)"] exI [of _ "?x (output_buffer x)"]) simp
  next
    case (Inr part)
    obtain nw rm fault where part: "part = (nw, rm, fault)" by (cases part)
    have law: "0 \<le> nw" "0 \<le> rm" "nw + rm = int (length data)"
      "sent k (sockfd x) @ output_buffer x @ drop (nat nw) data =
         sent k0 (sockfd x) @ output_buffer x @ data" "fault \<longrightarrow> sent k (sockfd x) = sent k0 (sockfd x) \<and> fatal_errno (os b)"
      using law Inr part by simp_all
    let ?buf = "if fault then output_buffer x else output_buffer x @ drop (nat nw) data"
    have rest: "append_rest data nw rm y = Inr (y\<lparr>output_buffer := output_buffer y @ drop (nat nw) data\<rparr>)" for y
      using law(1-3) by (rule append_rest_all)
    have len: "rm \<le> int (length data)" using law(1,3) by linarith
    have "send b cn data w = Inr (if fault then - 1 else int (length data), ?w k ?buf)"
    proof (cases "rm > 0")
      case True
      with x Inr part \<open>state x = kConnected\<close> len show ?thesis by (cases fault) (simp_all add: run rest)
    next
      case False
      then have "drop (nat nw) data = []" using law(2,3) by simp
      with False x Inr part \<open>state x = kConnected\<close> len show ?thesis
        by (cases fault) (simp_all add: run)
    qed
    moreover have "stream_of sent cn (?w k ?buf) =
        (if fault then stream_of sent cn w else stream_of sent cn w @ data)"
      using law(4,5) quiet x by (simp add: stream_of_def)
    ultimately show ?thesis using touch [of ?buf k] others quiet law(5) True
      by (intro exI [of _ "if fault then - 1 else int (length data)"] exI [of _ "?w k ?buf"]
          exI [of _ "?x ?buf"]) simp
  qed
qed

section \<open>Callbacks\<close>

text \<open>
  What is asked of the callbacks here: they return, leave connections, channels and sockets
  alone, and are logged in the part of the state that belongs to the application, where
  \<open>closes\<close> counts the calls of the close callback and \<open>delivered\<close> is the concatenation of
  the messages.
\<close>

definition callbacks_law :: "('m \<Rightarrow> conn_ptr \<Rightarrow> string \<Rightarrow> ('k, 'cb, 't, 'm, 'c, 'z) cnet_scheme \<Rightarrow>
      ('k, 'cb, 't, 'm, 'c, 'z) cnet_scheme outcome) \<Rightarrow>
    ('c \<Rightarrow> conn_ptr \<Rightarrow> ('k, 'cb, 't, 'm, 'c, 'z) cnet_scheme \<Rightarrow>
      ('k, 'cb, 't, 'm, 'c, 'z) cnet_scheme outcome) \<Rightarrow>
    ('z \<Rightarrow> nat) \<Rightarrow> ('z \<Rightarrow> string) \<Rightarrow> bool" where
  "callbacks_law on_message on_close closes delivered \<longleftrightarrow>
     (\<forall>cb cn msg w. \<exists>w'. on_message cb cn msg w = Inr w' \<and>
        conns w' = conns w \<and> heap w' = heap w \<and> kernel w' = kernel w \<and>
        closes (cnet.more w') = closes (cnet.more w) \<and>
        delivered (cnet.more w') = delivered (cnet.more w) @ msg) \<and>
     (\<forall>cb cn w. \<exists>w'. on_close cb cn w = Inr w' \<and>
        conns w' = conns w \<and> heap w' = heap w \<and> kernel w' = kernel w \<and>
        closes (cnet.more w') = Suc (closes (cnet.more w)) \<and>
        delivered (cnet.more w') = delivered (cnet.more w))"

text \<open>
  The effect of an operation on what can be observed of a connection: its identity and the
  channels stay, other connections are not touched, and it either keeps its state or goes from
  connected to disconnected with one call of the close callback.
\<close>

definition conn_evolves :: "('z \<Rightarrow> nat) \<Rightarrow> conn_ptr \<Rightarrow> ('m, 'c) tcp_connection \<Rightarrow> ('m, 'c) tcp_connection \<Rightarrow>
    ('k, 'cb, 't, 'm, 'c, 'z) cnet_scheme \<Rightarrow> ('k, 'cb, 't, 'm, 'c, 'z) cnet_scheme \<Rightarrow> bool" where
  "conn_evolves closes cn x x' w w' \<longleftrightarrow>
     conns w' = (conns w)(cn \<mapsto> x') \<and> heap w' = heap w \<and>
     sockfd x' = sockfd x \<and> close_callback x' = close_callback x \<and>
     message_callback x' = message_callback x \<and>
     (state x' = state x \<and> closes (cnet.more w') = closes (cnet.more w) \<or>
      state x = kConnected \<and> state x' = kDisconnected \<and>
      closes (cnet.more w') = Suc (closes (cnet.more w)))"

lemma conn_touched_evolves:
  "conn_touched cn x x' w w' \<Longrightarrow> state x' = state x \<Longrightarrow> conn_evolves closes cn x x' w w'"
  by (simp add: conn_evolves_def conn_touchedD)

lemma conn_evolves_after_kernel:
  "conn_evolves closes cn y x' (w\<lparr>kernel := k, conns := (conns w)(cn \<mapsto> y)\<rparr>) w' \<Longrightarrow>
     sockfd y = sockfd x \<and> close_callback y = close_callback x \<and>
     message_callback y = message_callback x \<and> state y = state x \<Longrightarrow> conn_evolves closes cn x x' w w'"
  by (auto simp: conn_evolves_def)

lemma closeConnection_law:
  assumes "callbacks_law on_message on_close closes delivered" and "conns w cn = Some x"
    and "close_callback x = Some cb"
  shows "\<exists>w' x'. closeConnection on_close cn w = Inr w' \<and> conn_evolves closes cn x x' w w' \<and>
     kernel w' = kernel w \<and> output_buffer x' = output_buffer x \<and> input_buffer x' = input_buffer x \<and>
     delivered (cnet.more w') = delivered (cnet.more w) \<and>
     (state x = kConnected \<longrightarrow> state x' = kDisconnected)"
proof (cases "state x = kConnected")
  case True
  let ?w1 = "w\<lparr>conns := (conns w)(cn \<mapsto> setState kDisconnecting x)\<rparr>"
  obtain w2 where w2: "on_close cb cn ?w1 = Inr w2" "conns w2 = conns ?w1" "heap w2 = heap w"
    "kernel w2 = kernel w" "closes (cnet.more w2) = Suc (closes (cnet.more w))"
    "delivered (cnet.more w2) = delivered (cnet.more w)"
    using assms(1) [unfolded callbacks_law_def, THEN conjunct2, rule_format, of cb cn ?w1] by auto
  let ?x' = "setState kDisconnected (setState kDisconnecting x)"
  have "closeConnection on_close cn w = Inr (w2\<lparr>conns := (conns w2)(cn \<mapsto> ?x')\<rparr>)"
    using True assms(2,3) w2(1,2) by (simp add: closeConnection_def)
  moreover have "conn_evolves closes cn x ?x' w (w2\<lparr>conns := (conns w2)(cn \<mapsto> ?x')\<rparr>)"
    using True w2 by (simp add: conn_evolves_def setState_def)
  ultimately show ?thesis
    using w2 by (intro exI [of _ "w2\<lparr>conns := (conns w2)(cn \<mapsto> ?x')\<rparr>"] exI [of _ ?x'])
      (simp add: setState_def)
next
  case False
  have "conn_evolves closes cn x x w w" using assms(2) by (simp add: conn_evolves_def fun_upd_idem)
  with False assms(2) show ?thesis
    by (intro exI [of _ w] exI [of _ x]) (simp add: closeConnection_def)
qed

lemma handleError_law:
  assumes "socket_documented (os b) sent" and "callbacks_law on_message on_close closes delivered"
    and "conns w cn = Some x" and "close_callback x = Some cb"
  shows "\<exists>w' x'. handleError b on_close cn w = Inr w' \<and> conn_evolves closes cn x x' w w' \<and>
     sent (kernel w') = sent (kernel w) \<and> output_buffer x' = output_buffer x \<and>
     input_buffer x' = input_buffer x \<and> delivered (cnet.more w') = delivered (cnet.more w) \<and>
     (state x = kConnected \<longrightarrow> state x' = kDisconnected)"
proof -
  obtain err k where err: "sys_getsockopt_error (os b) (sockfd x) (kernel w) = (err, k)" by (rule prod.exhaust)
  have "conns (w\<lparr>kernel := k\<rparr>) cn = Some x" using assms(3) by simp
  from closeConnection_law [OF assms(2) this assms(4)] obtain w' x' where
    "closeConnection on_close cn (w\<lparr>kernel := k\<rparr>) = Inr w'" "conn_evolves closes cn x x' (w\<lparr>kernel := k\<rparr>) w'"
    "kernel w' = k" "output_buffer x' = output_buffer x" "input_buffer x' = input_buffer x"
    "delivered (cnet.more w') = delivered (cnet.more w)" "state x = kConnected \<longrightarrow> state x' = kDisconnected"
    by auto
  with assms(3) socket_quiet(3) [OF assms(1) err] show ?thesis
    by (intro exI [of _ w'] exI [of _ x']) (auto simp: handleError_def err conn_evolves_def split: prod.splits)
qed

lemma stream_evolves:
  assumes "conn_evolves closes cn x x' w w'" and "conns w cn = Some x"
    and "sent (kernel w') (sockfd x) @ output_buffer x' = sent (kernel w) (sockfd x) @ output_buffer x"
  shows "stream_of sent cn w' = stream_of sent cn w"
  using assms by (simp add: stream_of_def conn_evolves_def)

lemma handleWrite_law:
  assumes doc: "socket_documented (os b) sent" and cbs: "callbacks_law on_message on_close closes delivered"
    and x: "conns w cn = Some x" and cb: "close_callback x = Some cb"
  shows "\<exists>w' x'. handleWrite b on_close cn w = Inr w' \<and> conn_evolves closes cn x x' w w' \<and>
     stream_of sent cn w' = stream_of sent cn w"
proof -
  obtain t k0 where t: "sys_time (os b) (kernel w) = (t, k0)" by (rule prod.exhaust)
  note quiet = socket_quiet(1) [OF doc t]
  let ?x = "x\<lparr>last_active_time := t\<rparr>"
  let ?w = "\<lambda>k y. w\<lparr>kernel := k, conns := (conns w)(cn \<mapsto> y)\<rparr>"
  obtain n k where wr: "sys_write (os b) (sockfd x) (output_buffer x) k0 = (n, k)" by (rule prod.exhaust)
  note sent = socket_write [OF doc wr]
  note run = handleWrite_def updateLastActiveTime_eq [OF x] t wr Let_def
  have "\<exists>w' x'. handleWrite b on_close cn w = Inr w' \<and> conn_evolves closes cn x x' w w' \<and>
     sent (kernel w') (sockfd x) @ output_buffer x' = sent (kernel w) (sockfd x) @ output_buffer x"
  proof (cases "output_buffer x = [] \<or> n > 0")
    case True
    let ?x' = "if output_buffer x = [] then ?x else ?x\<lparr>output_buffer := drop (nat n) (output_buffer x)\<rparr>"
    let ?k = "if output_buffer x = [] then k0 else k"
    have "handleWrite b on_close cn w = Inr (?w ?k ?x')" using True x by (auto simp: run)
    moreover have "conn_evolves closes cn x ?x' w (?w ?k ?x')" by (simp add: conn_evolves_def)
    moreover have "sent ?k (sockfd x) @ output_buffer ?x' = sent k0 (sockfd x) @ output_buffer x"
      using True sent by auto
    ultimately show ?thesis using quiet by (intro exI [of _ "?w ?k ?x'"] exI [of _ ?x']) simp
  next
    case False
    then have same: "sent k = sent k0" using sent by (auto split: if_splits)
    have "handleWrite b on_close cn w = (if sys_errno (os b) k \<noteq> EWOULDBLOCK \<and> sys_errno (os b) k \<noteq> EAGAIN
        then handleError b on_close cn (?w k ?x) else Inr (?w k ?x))"
      using False x by (simp add: run)
    moreover obtain w' x' where "handleError b on_close cn (?w k ?x) = Inr w'"
      "conn_evolves closes cn ?x x' (?w k ?x) w'" "sent (kernel w') = sent k" "output_buffer x' = output_buffer x"
      using handleError_law [OF doc cbs, of "?w k ?x" cn ?x cb] cb by auto
    moreover have "conn_evolves closes cn x ?x w (?w k ?x)" by (simp add: conn_evolves_def)
    moreover have "conn_evolves closes cn x x' w w'"
      by (rule conn_evolves_after_kernel [OF calculation(3)]) simp
    ultimately show ?thesis using quiet same
      by (cases "sys_errno (os b) k \<noteq> EWOULDBLOCK \<and> sys_errno (os b) k \<noteq> EAGAIN") fastforce+
  qed
  then show ?thesis using stream_evolves [of closes cn x _ w _ sent] x by blast
qed

text \<open>
  The input side: \<open>received k fd\<close> is what the program has read from \<open>fd\<close>.
\<close>

definition input_documented :: "'k os \<Rightarrow> ('k \<Rightarrow> int \<Rightarrow> string) \<Rightarrow> bool" where
  "input_documented sys received \<longleftrightarrow>
     (\<forall>fd m k. case sys_read sys fd m k of ((n, buf), k') \<Rightarrow>
        received k' = (if n > 0 then (received k)(fd := received k fd @ take (nat n) buf) else received k)) \<and>
     (\<forall>k. received (snd (sys_time sys k)) = received k) \<and>
     (\<forall>fd k. received (snd (sys_getsockopt_error sys fd k)) = received k)"

definition intake_of :: "('k \<Rightarrow> int \<Rightarrow> string) \<Rightarrow> ('z \<Rightarrow> string) \<Rightarrow> conn_ptr \<Rightarrow>
    ('k, 'cb, 't, 'm, 'c, 'z) cnet_scheme \<Rightarrow> string \<times> string" where
  "intake_of received delivered cn w = (case conns w cn of None \<Rightarrow> ([], [])
     | Some x \<Rightarrow> (received (kernel w) (sockfd x), delivered (cnet.more w) @ input_buffer x))"

text \<open>
  One read takes some bytes \<open>d\<close> in (none when the peer closed or nothing was there), and each
  of them is delivered, or waits in the input buffer when there is no message callback.
\<close>

definition took_in :: "('k \<Rightarrow> int \<Rightarrow> string) \<Rightarrow> ('z \<Rightarrow> string) \<Rightarrow> conn_ptr \<Rightarrow>
    ('k, 'cb, 't, 'm, 'c, 'z) cnet_scheme \<Rightarrow> ('k, 'cb, 't, 'm, 'c, 'z) cnet_scheme \<Rightarrow> bool" where
  "took_in received delivered cn w w' \<longleftrightarrow> (\<exists>d. intake_of received delivered cn w' =
     (fst (intake_of received delivered cn w) @ d, snd (intake_of received delivered cn w) @ d))"

lemma handleRead_data:
  assumes cbs: "callbacks_law on_message on_close closes delivered" and x: "conns w cn = Some x"
    and t: "sys_time (os b) (kernel w) = (t, k0)"
    and rd: "sys_read (os b) (sockfd x) kBufferSize k0 = ((n, buf), k)" and n: "n > 0"
  shows "\<exists>w' x'. handleRead b on_message on_close cn w = Inr w' \<and> conn_evolves closes cn x x' w w' \<and>
     kernel w' = k \<and> output_buffer x' = output_buffer x \<and>
     delivered (cnet.more w') @ input_buffer x' = delivered (cnet.more w) @ input_buffer x @ take (nat n) buf"
proof -
  let ?x = "x\<lparr>last_active_time := t, input_buffer := input_buffer x @ take (nat n) buf\<rparr>"
  let ?w = "w\<lparr>kernel := k, conns := (conns w)(cn \<mapsto> ?x)\<rparr>"
  note run = handleRead_def updateLastActiveTime_eq [OF x] t rd Let_def
  show ?thesis
  proof (cases "message_callback x")
    case None
    then have "handleRead b on_message on_close cn w = Inr ?w" using n x by (simp add: run)
    then show ?thesis by (intro exI [of _ ?w] exI [of _ ?x]) (simp add: conn_evolves_def)
  next
    case (Some m)
    obtain v where v: "on_message m cn (input_buffer ?x) ?w = Inr v" "conns v = conns ?w" "heap v = heap w"
      "kernel v = k" "closes (cnet.more v) = closes (cnet.more w)"
      "delivered (cnet.more v) = delivered (cnet.more w) @ input_buffer ?x"
      using cbs [unfolded callbacks_law_def, THEN conjunct1, rule_format, of m cn "input_buffer ?x" ?w]
      by auto
    let ?y = "?x\<lparr>input_buffer := []\<rparr>"
    have "handleRead b on_message on_close cn w = Inr (v\<lparr>conns := (conns v)(cn \<mapsto> ?y)\<rparr>)"
      using n x Some v(1,2) by (simp add: run)
    then show ?thesis using v
      by (intro exI [of _ "v\<lparr>conns := (conns v)(cn \<mapsto> ?y)\<rparr>"] exI [of _ ?y]) (simp add: conn_evolves_def)
  qed
qed

lemma handleRead_end:
  assumes doc: "socket_documented (os b) sent" and cbs: "callbacks_law on_message on_close closes delivered"
    and x: "conns w cn = Some x" and cb: "close_callback x = Some cb"
    and t: "sys_time (os b) (kernel w) = (t, k0)"
    and rd: "sys_read (os b) (sockfd x) kBufferSize k0 = ((n, buf), k)" and n: "\<not> n > 0"
  shows "\<exists>w' x'. handleRead b on_message on_close cn w = Inr w' \<and> conn_evolves closes cn x x' w w' \<and>
     (kernel w' = k \<or> kernel w' = snd (sys_getsockopt_error (os b) (sockfd x) k)) \<and>
     output_buffer x' = output_buffer x \<and>
     delivered (cnet.more w') @ input_buffer x' = delivered (cnet.more w) @ input_buffer x"
proof -
  let ?x = "x\<lparr>last_active_time := t\<rparr>"
  let ?w = "\<lambda>k. w\<lparr>kernel := k, conns := (conns w)(cn \<mapsto> ?x)\<rparr>"
  let ?k = "snd (sys_getsockopt_error (os b) (sockfd x) k)"
  have err: "handleError b on_close cn (?w k) = closeConnection on_close cn (?w ?k)"
    by (simp add: handleError_def split: prod.splits)
  have closing: "\<exists>w' x'. closeConnection on_close cn (?w kk) = Inr w' \<and> conn_evolves closes cn x x' w w' \<and>
      kernel w' = kk \<and> output_buffer x' = output_buffer x \<and>
      delivered (cnet.more w') @ input_buffer x' = delivered (cnet.more w) @ input_buffer x" for kk
  proof -
    obtain w' x' where w': "closeConnection on_close cn (?w kk) = Inr w'"
      "conn_evolves closes cn ?x x' (?w kk) w'" "kernel w' = kk" "output_buffer x' = output_buffer x"
      "input_buffer x' = input_buffer x" "delivered (cnet.more w') = delivered (cnet.more w)"
      using closeConnection_law [OF cbs, of "?w kk" cn ?x cb] cb by auto
    from conn_evolves_after_kernel [where x = x, OF w'(2)] w' show ?thesis by auto
  qed
  have "handleRead b on_message on_close cn w = (if n = 0 then closeConnection on_close cn (?w k)
      else if sys_errno (os b) k \<noteq> EWOULDBLOCK \<and> sys_errno (os b) k \<noteq> EAGAIN
      then handleError b on_close cn (?w k) else Inr (?w k))"
    using n x by (simp add: handleRead_def updateLastActiveTime_eq [OF x] t rd Let_def)
  then consider "handleRead b on_message on_close cn w = Inr (?w k)"
    | "handleRead b on_message on_close cn w = closeConnection on_close cn (?w k)"
    | "handleRead b on_message on_close cn w = closeConnection on_close cn (?w ?k)"
    unfolding err by presburger
  then show ?thesis
  proof cases
    case 1
    then show ?thesis by (intro exI [of _ "?w k"] exI [of _ ?x]) (simp add: conn_evolves_def)
  next
    case 2
    with closing [of k] show ?thesis by auto
  next
    case 3
    with closing [of ?k] show ?thesis by auto
  qed
qed

lemma handleRead_law:
  assumes doc: "socket_documented (os b) sent" and cbs: "callbacks_law on_message on_close closes delivered"
    and x: "conns w cn = Some x" and cb: "close_callback x = Some cb"
  shows "\<exists>w' x'. handleRead b on_message on_close cn w = Inr w' \<and> conn_evolves closes cn x x' w w' \<and>
     stream_of sent cn w' = stream_of sent cn w \<and>
     (input_documented (os b) received \<longrightarrow> took_in received delivered cn w w')"
proof -
  obtain t k0 where t: "sys_time (os b) (kernel w) = (t, k0)" by (rule prod.exhaust)
  obtain n buf k where rd: "sys_read (os b) (sockfd x) kBufferSize k0 = ((n, buf), k)"
    by (metis prod.exhaust)
  let ?k = "snd (sys_getsockopt_error (os b) (sockfd x) k)" and ?fd = "sockfd x"
  have out: "sent k = sent (kernel w)" "sent ?k = sent (kernel w)"
    using socket_quiet(1) [OF doc t] socket_quiet(2) [OF doc rd] socket_quiet(3) [OF doc]
    by (auto simp: prod_eq_iff)
  have inp: "received k ?fd = received (kernel w) ?fd @ (if n > 0 then take (nat n) buf else [])"
    "received ?k = received k" if "input_documented (os b) received"
    using that t rd unfolding input_documented_def by (auto split: prod.splits simp: prod_eq_iff)
  show ?thesis
  proof (cases "n > 0")
    case True
    from handleRead_data [where b = b, OF cbs x t rd True] obtain w' x' where
      w': "handleRead b on_message on_close cn w = Inr w'" "conn_evolves closes cn x x' w w'"
      "kernel w' = k" "output_buffer x' = output_buffer x"
      "delivered (cnet.more w') @ input_buffer x' = delivered (cnet.more w) @ input_buffer x @ take (nat n) buf"
      by blast
    moreover have "stream_of sent cn w' = stream_of sent cn w"
      by (rule stream_evolves [OF w'(2) x]) (simp add: w' out)
    moreover have "took_in received delivered cn w w'" if "input_documented (os b) received"
      using inp [OF that] w' x True by (auto simp: took_in_def intake_of_def conn_evolves_def)
    ultimately show ?thesis by blast
  next
    case False
    from handleRead_end [where b = b, OF doc cbs x cb t rd False] obtain w' x' where
      w': "handleRead b on_message on_close cn w = Inr w'" "conn_evolves closes cn x x' w w'"
      "kernel w' = k \<or> kernel w' = ?k" "output_buffer x' = output_buffer x"
      "delivered (cnet.more w') @ input_buffer x' = delivered (cnet.more w) @ input_buffer x"
      by blast
    moreover have "stream_of sent cn w' = stream_of sent cn w"
      by (rule stream_evolves [OF w'(2) x]) (use w' out in auto)
    moreover have "took_in received delivered cn w w'" if "input_documented (os b) received"
      using inp [OF that] w' x False by (auto simp: took_in_def intake_of_def conn_evolves_def)
    ultimately show ?thesis by blast
  qed
qed

section \<open>Sequences of events\<close>

text \<open>
  What happens to a connection: the application sends, the loop reports it readable or
  writable, somebody closes it. The first component of the state collects the data whose
  \<^verbatim>\<open>send\<close> did not return -1.
\<close>

datatype happening = Send string | Readable | Writable | Close

fun conn_event :: "'k build \<Rightarrow>
    ('m \<Rightarrow> conn_ptr \<Rightarrow> string \<Rightarrow> ('k, 'cb, 't, 'm, 'c, 'z) cnet_scheme \<Rightarrow>
      ('k, 'cb, 't, 'm, 'c, 'z) cnet_scheme outcome) \<Rightarrow>
    ('c \<Rightarrow> conn_ptr \<Rightarrow> ('k, 'cb, 't, 'm, 'c, 'z) cnet_scheme \<Rightarrow>
      ('k, 'cb, 't, 'm, 'c, 'z) cnet_scheme outcome) \<Rightarrow> conn_ptr \<Rightarrow> happening \<Rightarrow>
    string \<times> ('k, 'cb, 't, 'm, 'c, 'z) cnet_scheme \<Rightarrow>
    (string \<times> ('k, 'cb, 't, 'm, 'c, 'z) cnet_scheme) outcome" where
  "conn_event b on_message on_close cn (Send data) (acc, w) =
     obind (send b cn data w) (\<lambda>(n, w). Inr (if n = - 1 then acc else acc @ data, w))"
| "conn_event b on_message on_close cn Readable (acc, w) =
     obind (handleRead b on_message on_close cn w) (\<lambda>w. Inr (acc, w))"
| "conn_event b on_message on_close cn Writable (acc, w) =
     obind (handleWrite b on_close cn w) (\<lambda>w. Inr (acc, w))"
| "conn_event b on_message on_close cn Close (acc, w) =
     obind (closeConnection on_close cn w) (\<lambda>w. Inr (acc, w))"

text \<open>A \<^verbatim>\<open>std::string\<close> is shorter than the address space.\<close>

fun sendable :: "happening \<Rightarrow> bool" where
  "sendable (Send data) \<longleftrightarrow> int (length data) < 2 ^ 64"
| "sendable _ \<longleftrightarrow> True"

lemma conn_event_law:
  assumes "socket_documented (os b) sent" and "callbacks_law on_message on_close closes delivered"
    and "conns w cn = Some x" and "close_callback x = Some cb" and "sendable ev"
  shows "\<exists>d w' x'. conn_event b on_message on_close cn ev (acc, w) = Inr (acc @ d, w') \<and>
     conn_evolves closes cn x x' w w' \<and> stream_of sent cn w' = stream_of sent cn w @ d"
proof (cases ev)
  case (Send data)
  then have "int (length data) < 2 ^ 64" using assms(5) by simp
  from send_law [OF assms(1,3) this] obtain n w' x' where
    n: "send b cn data w = Inr (n, w')" "conn_touched cn x x' w w'" "state x' = state x"
    "n = - 1 \<and> stream_of sent cn w' = stream_of sent cn w \<or>
     n = int (length data) \<and> stream_of sent cn w' = stream_of sent cn w @ data" by blast
  with Send conn_touched_evolves [OF n(2,3)] show ?thesis
    by (intro exI [of _ "if n = - 1 then [] else data"] exI [of _ w'] exI [of _ x']) auto
next
  case Readable
  with handleRead_law [OF assms(1-4)] show ?thesis by (fastforce intro: exI [of _ "[]"])
next
  case Writable
  with handleWrite_law [OF assms(1-4)] show ?thesis by (fastforce intro: exI [of _ "[]"])
next
  case Close
  from closeConnection_law [OF assms(2-4)] obtain w' x' where
    w': "closeConnection on_close cn w = Inr w'" "conn_evolves closes cn x x' w w'"
    "kernel w' = kernel w" "output_buffer x' = output_buffer x" by blast
  have "stream_of sent cn w' = stream_of sent cn w"
    by (rule stream_evolves [OF w'(2) assms(3)]) (simp add: w')
  with Close w' show ?thesis by (fastforce intro: exI [of _ "[]"])
qed

lemma conn_events_law:
  assumes "socket_documented (os b) sent" and "callbacks_law on_message on_close closes delivered"
    and "conns w cn = Some x" and "close_callback x = Some cb" and "list_all sendable evs"
    and "state x \<in> {kConnected, kDisconnected}"
  shows "\<exists>d w' x'. ofold (conn_event b on_message on_close cn) evs (acc, w) = Inr (acc @ d, w') \<and>
     conn_evolves closes cn x x' w w' \<and> stream_of sent cn w' = stream_of sent cn w @ d"
  using assms(3-6)
proof (induction evs arbitrary: acc w x)
  case Nil
  then have "conn_evolves closes cn x x w w" by (simp add: conn_evolves_def fun_upd_idem)
  then show ?case by (intro exI [of _ "[]"] exI [of _ w] exI [of _ x]) simp
next
  case (Cons ev evs)
  then obtain d w1 x1 where 1: "conn_event b on_message on_close cn ev (acc, w) = Inr (acc @ d, w1)"
    "conn_evolves closes cn x x1 w w1" "stream_of sent cn w1 = stream_of sent cn w @ d"
    using conn_event_law [OF assms(1,2), of w cn x cb ev acc] by auto
  have "conns w1 cn = Some x1" "close_callback x1 = Some cb" "state x1 \<in> {kConnected, kDisconnected}"
    using 1(2) Cons.prems by (auto simp: conn_evolves_def)
  then obtain d' w2 x2 where 2: "ofold (conn_event b on_message on_close cn) evs (acc @ d, w1) =
      Inr ((acc @ d) @ d', w2)" "conn_evolves closes cn x1 x2 w1 w2"
      "stream_of sent cn w2 = stream_of sent cn w1 @ d'"
    using Cons.IH [of w1 x1 "acc @ d"] Cons.prems by auto
  have "conn_evolves closes cn x x2 w w2"
    using 1(2) 2(2) Cons.prems(4) by (auto simp: conn_evolves_def)
  with 1 2 show ?case by (intro exI [of _ "d @ d'"] exI [of _ w2] exI [of _ x2]) simp
qed

text \<open>
  C3: the output of a connection is the data accepted by \<^verbatim>\<open>send\<close>, each byte once and in
  order: whatever sends, read and write events and closes happen, with partial writes and
  full socket buffers, every operation returns, and what left the socket followed by the
  output buffer is what it was before followed by the accepted data.
\<close>

theorem output_stream_intact:
  assumes "socket_documented (os b) sent" and "callbacks_law on_message on_close closes delivered"
    and "conns w cn = Some x" and "close_callback x = Some cb" and "list_all sendable evs"
    and "state x \<in> {kConnected, kDisconnected}"
  shows "\<exists>accepted w'. ofold (conn_event b on_message on_close cn) evs ([], w) = Inr (accepted, w') \<and>
     stream_of sent cn w' = stream_of sent cn w @ accepted"
  using conn_events_law [OF assms, of "[]"] by auto

text \<open>
  C12: an established connection ends at most once: after any events it is connected, and the
  close callback has not run, or it is disconnected, and the close callback has run exactly
  once. No event touches a channel, so none enables write events for a full output buffer.
\<close>

theorem connection_closes_once:
  assumes "socket_documented (os b) sent" and "callbacks_law on_message on_close closes delivered"
    and "conns w cn = Some x" and "close_callback x = Some cb" and "list_all sendable evs"
    and "state x = kConnected"
  shows "\<exists>accepted w' x'. ofold (conn_event b on_message on_close cn) evs ([], w) = Inr (accepted, w') \<and>
     conns w' = (conns w)(cn \<mapsto> x') \<and> state x' \<in> {kConnected, kDisconnected} \<and>
     closes (cnet.more w') = closes (cnet.more w) + (if state x' = kDisconnected then 1 else 0) \<and>
     heap w' = heap w"
proof -
  from assms(6) have "state x \<in> {kConnected, kDisconnected}" by simp
  from conn_events_law [OF assms(1-5) this, of "[]"] show ?thesis
    using assms(6) by (fastforce simp: conn_evolves_def)
qed

text \<open>
  C37: input is complete and in order: over any number of read events the bytes taken from the
  socket are exactly the bytes handed to the message callback (or kept, when there is none).
\<close>

theorem input_delivered_in_order:
  assumes "socket_documented (os b) sent" and "input_documented (os b) received"
    and "callbacks_law on_message on_close closes delivered"
    and "conns w cn = Some x" and "close_callback x = Some cb"
  shows "\<exists>w' d. ((\<lambda>m. obind m (handleRead b on_message on_close cn)) ^^ n) (Inr w) = Inr w' \<and>
     intake_of received delivered cn w' = (fst (intake_of received delivered cn w) @ d,
       snd (intake_of received delivered cn w) @ d)"
proof -
  have "\<exists>w' x'. ((\<lambda>m. obind m (handleRead b on_message on_close cn)) ^^ n) (Inr w) = Inr w' \<and>
     conns w' cn = Some x' \<and> close_callback x' = Some cb \<and> took_in received delivered cn w w'"
  proof (induction n)
    case 0
    with assms(4,5) show ?case by (auto simp: took_in_def prod_eq_iff)
  next
    case (Suc n)
    then obtain v y where v: "((\<lambda>m. obind m (handleRead b on_message on_close cn)) ^^ n) (Inr w) = Inr v"
      "conns v cn = Some y" "close_callback y = Some cb" "took_in received delivered cn w v" by blast
    from handleRead_law [OF assms(1,3) v(2,3), of received] assms(2) obtain w' x' where
      "handleRead b on_message on_close cn v = Inr w'" "conn_evolves closes cn y x' v w'"
      "took_in received delivered cn v w'" by blast
    with v show ?case by (fastforce simp: took_in_def conn_evolves_def)
  qed
  then show ?thesis by (auto simp: took_in_def)
qed

section \<open>The printed address\<close>

lemma length_nat_digits: "n < 10 ^ Suc k \<Longrightarrow> length (nat_digits n) \<le> Suc k"
proof (induction k arbitrary: n)
  case (Suc k)
  then have "n div 10 < 10 ^ Suc k" by (simp add: less_mult_imp_div_less mult.commute)
  from Suc.IH [OF this] show ?case by (subst nat_digits.simps) simp
qed (simp add: nat_digits.simps)

lemma byte_of_less: "byte_of i a < 256"
  using take_bit_nat_less_exp [of 8 "unat (drop_bit (8 * i) a)"]
  by (simp add: byte_of_def unsigned_take_bit_eq)

lemma length_byte_digits: "length (nat_digits (byte_of i a)) \<le> 3"
  using length_nat_digits [of "byte_of i a" 2] byte_of_less [of i a] by simp

lemma length_port_digits: "length (nat_digits (unat (p :: u16))) \<le> 5"
proof -
  have "unat p < 2 ^ LENGTH(16)" by (rule unsigned_less)
  then show ?thesis using length_nat_digits [of "unat p" 4] by simp
qed

lemma ntohs_ntohs: "ntohs (ntohs p) = p"
proof (rule bit_word_eqI)
  fix n
  assume "n < LENGTH(16)"
  then show "bit (ntohs (ntohs p)) n = bit p n" by (auto simp: ntohs_def bit_simps)
qed

text \<open>
  The 64 byte buffer of \<^verbatim>\<open>getPeerAddress\<close> always holds the whole address, at most 21
  characters, and the port printed is the one whose network byte order the address carries.
\<close>

theorem peer_address_fits:
  "getPeerAddress x = inet_ntoa (sin_addr (peer_addr x)) @ '':'' @
     nat_digits (unat (ntohs (sin_port (peer_addr x)))) \<and>
   length (getPeerAddress x) \<le> 21 \<and>
   getPeerAddress (x\<lparr>peer_addr := \<lparr>sin_addr = 0x0100007F, sin_port = ntohs p\<rparr>\<rparr>) =
     ''127.0.0.1:'' @ nat_digits (unat p)"
proof -
  have len: "length (inet_ntoa a @ '':'' @ nat_digits (unat q)) \<le> 21" for a and q :: u16
    using length_byte_digits [of 0 a] length_byte_digits [of 1 a] length_byte_digits [of 2 a]
      length_byte_digits [of 3 a] length_port_digits [of q]
    by (simp add: inet_ntoa_def)
  then have whole: "getPeerAddress y = inet_ntoa (sin_addr (peer_addr y)) @ '':'' @
     nat_digits (unat (ntohs (sin_port (peer_addr y))))" for y :: "('a, 'b) tcp_connection"
    unfolding getPeerAddress_def by (intro take_all order_trans [OF len]) simp
  have "inet_ntoa 0x0100007F = ''127.0.0.1''"
    by code_simp
  then show ?thesis using whole [of x] whole len by (simp add: ntohs_ntohs)
qed

section \<open>A socket for the witnesses\<close>

text \<open>
  A kernel of bytes sent, bytes received and the chunks still to arrive. It takes at most four
  bytes per write; when no chunk is left a read would block.
\<close>

type_synonym sock_kernel = "(int \<Rightarrow> string) \<times> (int \<Rightarrow> string) \<times> string list"

definition sock_os :: "sock_kernel os" where
  "sock_os = failing_os\<lparr>
     sys_write := (\<lambda>fd data (s, r, q). (int (min 4 (length data)), (s(fd := s fd @ take 4 data), r, q))),
     sys_read := (\<lambda>fd n (s, r, q). case q of [] \<Rightarrow> ((- 1, []), (s, r, q))
        | c # q \<Rightarrow> ((int (length c), c), (s, r(fd := r fd @ c), q))),
     sys_errno := (\<lambda>_. EAGAIN)\<rparr>"

definition sock_build :: "sock_kernel build" where
  "sock_build = \<lparr>os = sock_os, ndebug = False, platform = Linux\<rparr>"

definition log_message :: "unit \<Rightarrow> conn_ptr \<Rightarrow> string \<Rightarrow>
    ('k, 'cb, 't, unit, unit, nat \<times> string) cnet_scheme \<Rightarrow>
    ('k, 'cb, 't, unit, unit, nat \<times> string) cnet_scheme outcome" where
  "log_message cb cn msg w = Inr (cnet.more_update (\<lambda>(c, d). (c, d @ msg)) w)"

definition log_close :: "unit \<Rightarrow> conn_ptr \<Rightarrow> ('k, 'cb, 't, unit, unit, nat \<times> string) cnet_scheme \<Rightarrow>
    ('k, 'cb, 't, unit, unit, nat \<times> string) cnet_scheme outcome" where
  "log_close cb cn w = Inr (cnet.more_update (\<lambda>(c, d). (Suc c, d)) w)"

definition sock_conn :: "(unit, unit) tcp_connection" where
  "sock_conn = \<lparr>sockfd = 5, peer_addr = \<lparr>sin_addr = 0x0100007F, sin_port = 0x901F\<rparr>, state = kConnected,
     input_buffer = [], output_buffer = [], message_callback = Some (), close_callback = Some (),
     last_active_time = 0, conn_channel = None\<rparr>"

definition sock_net :: "string list \<Rightarrow> (sock_kernel, unit, unit, unit, unit, nat \<times> string) cnet_scheme" where
  "sock_net q = \<lparr>kernel = (\<lambda>_. [], \<lambda>_. [], q), heap = Map.empty, reactors = Map.empty, next_chan = 0,
     conns = [2 \<mapsto> sock_conn], \<dots> = (0, [])\<rparr>"

lemma sock_documented: "socket_documented (os sock_build) fst"
  by (auto simp: socket_documented_def sock_build_def sock_os_def failing_os_def min_def fun_eq_iff
      split: list.splits)

lemma sock_input: "input_documented (os sock_build) (fst \<circ> snd)"
  by (auto simp: input_documented_def sock_build_def sock_os_def failing_os_def fun_eq_iff
      split: list.splits)

lemma log_callbacks: "callbacks_law log_message log_close fst snd"
  by (auto simp: callbacks_law_def log_message_def log_close_def split: prod.splits)

lemma sock_conn_facts: "conns (sock_net q) 2 = Some sock_conn" "close_callback sock_conn = Some ()"
  "state sock_conn = kConnected" "stream_of fst 2 (sock_net q) = []"
  by (simp_all add: sock_net_def sock_conn_def stream_of_def)

theorem output_stream_intact_witness:
  "\<exists>w'. ofold (conn_event sock_build log_message log_close 2)
       [Send ''abcdef'', Send ''gh'', Writable, Close, Send ''lost''] ([], sock_net []) = Inr (''abcdefgh'', w') \<and>
     stream_of fst 2 w' = ''abcdefgh''"
proof -
  let ?evs = "[Send ''abcdef'', Send ''gh'', Writable, Close, Send ''lost'']"
  have "list_all sendable ?evs" "state sock_conn \<in> {kConnected, kDisconnected}"
    by (simp_all add: sock_conn_facts)
  from output_stream_intact [OF sock_documented log_callbacks sock_conn_facts(1,2) this, of "[]"]
  obtain accepted w' where
    w': "ofold (conn_event sock_build log_message log_close 2) ?evs ([], sock_net []) = Inr (accepted, w')"
    "stream_of fst 2 w' = stream_of fst 2 (sock_net []) @ accepted" by (elim exE conjE)
  moreover have "accepted = ''abcdefgh''"
    using w'(1) by (simp add: send_def sock_net_def sock_conn_def updateLastActiveTime_def now_def sock_build_def
        sock_os_def failing_os_def try_write_def direct_write_def append_rest_def get_conn_def on_conn_def
        handleWrite_def closeConnection_def log_close_def setState_def)
  ultimately show ?thesis by (simp add: sock_conn_facts del: ofold.simps)
qed

theorem connection_closes_once_witness:
  "\<exists>accepted w' x'. ofold (conn_event sock_build log_message log_close 2)
       [Readable, Readable, Close] ([], sock_net [''hi'', []]) = Inr (accepted, w') \<and>
     conns w' 2 = Some x' \<and> state x' \<in> {kConnected, kDisconnected} \<and>
     fst (cnet.more w') = (if state x' = kDisconnected then 1 else 0)"
proof -
  have "list_all sendable [Readable, Readable, Close]" by simp
  from connection_closes_once [OF sock_documented log_callbacks sock_conn_facts(1,2) this sock_conn_facts(3),
      of "[''hi'', []]"]
  obtain accepted w' x' where
    "ofold (conn_event sock_build log_message log_close 2)
       [Readable, Readable, Close] ([], sock_net [''hi'', []]) = Inr (accepted, w')"
    "conns w' = (conns (sock_net [''hi'', []]))(2 \<mapsto> x')" "state x' \<in> {kConnected, kDisconnected}"
    "fst (cnet.more w') = fst (cnet.more (sock_net [''hi'', []])) + (if state x' = kDisconnected then 1 else 0)"
    by (elim exE conjE)
  then show ?thesis
    by (intro exI [of _ accepted] exI [of _ w'] exI [of _ x']) (simp add: sock_net_def del: ofold.simps)
qed

theorem input_delivered_in_order_witness:
  "\<exists>w'. ((\<lambda>m. obind m (handleRead sock_build log_message log_close 2)) ^^ 3) (Inr (sock_net [''ab'', ''c''])) = Inr w' \<and>
     (\<exists>d. intake_of (fst \<circ> snd) snd 2 w' = (d, d))"
  using input_delivered_in_order [OF sock_documented sock_input log_callbacks sock_conn_facts(1,2),
      of 3 "[''ab'', ''c'']"]
  by (auto simp: intake_of_def [of _ _ _ "sock_net _"] sock_conn_facts(1))
    (auto simp: sock_net_def sock_conn_def)

end
