(* ===== verification/TcpServer.thy ===== *)
theory TcpServer
  imports ConnectionProps
begin

text \<open>
  The TCP server, \<^verbatim>\<open>include/network/tcp_server.h\<close> and \<^verbatim>\<open>src/network/tcp_server.cpp\<close>:
  starting and stopping, accepting, the round-robin choice of a sub-reactor, the connection
  table and broadcasting. The closures the server creates are constructors of datatypes: the
  callbacks of its channels, the task that registers a connection with its reactor, and the
  close callback of its connections. The application's two callbacks are values of \<open>'m\<close> and
  \<open>'u\<close>, interpreted by arguments. \<^verbatim>\<open>connections_mutex_\<close> is a flag: an operation that runs to
  its end and finds it locked is waiting for itself.
\<close>

section \<open>State\<close>

datatype chan_cb = OnWakeup reactor_ptr | OnAccept | OnRead conn_ptr | OnWrite conn_ptr
  | OnClose conn_ptr | OnError conn_ptr

datatype task = Register conn_ptr reactor_ptr

datatype close_cb = RemoveAndNotify

text \<open>
  The table \<^verbatim>\<open>connections_\<close> is a list of pairs; the code's map has no order, and the theorems
  hold for every order of the list. A started thread is named by the reactor it loops;
  \<open>reactor_threads\<close> lists those not joined yet.
\<close>

record ('m, 'u) tcp_server =
  srv_ip :: string
  srv_port :: u16
  listen_fd :: int
  main_reactor :: "reactor_ptr option"
  sub_reactors :: "reactor_ptr list"
  reactor_threads :: "reactor_ptr list"
  thread_num :: cint
  running :: bool
  next_reactor :: cint
  srv_message_callback :: "'m option"
  connection_callback :: "'u option"
  connections :: "(int \<times> conn_ptr) list"
  connections_locked :: bool
  accept_channel :: "chan_ptr option"
  main_thread :: "reactor_ptr option"

record ('k, 'm, 'u) snet = "('k, chan_cb, task, 'm, close_cb) cnet" +
  server :: "('m, 'u) tcp_server"
  next_conn :: conn_ptr
  next_rptr :: reactor_ptr

type_synonym ('k, 'm, 'u, 'z) world_op =
  "('k, 'm, 'u, 'z) snet_scheme \<Rightarrow> ('k, 'm, 'u, 'z) snet_scheme outcome"

definition on_server :: "(('m, 'u) tcp_server \<Rightarrow> ('m, 'u) tcp_server) \<Rightarrow>
    ('k, 'm, 'u, 'z) snet_scheme \<Rightarrow> ('k, 'm, 'u, 'z) snet_scheme" where
  "on_server f w = w\<lparr>server := f (server w)\<rparr>"

text \<open>
  The constructor. \<open>hw\<close> is \<^verbatim>\<open>std::thread::hardware_concurrency()\<close>, which may be 0.
\<close>

definition new_server :: "string \<Rightarrow> u16 \<Rightarrow> cint \<Rightarrow> cint \<Rightarrow> ('m, 'u) tcp_server" where
  "new_server ip port threads hw = \<lparr>srv_ip = ip, srv_port = port, listen_fd = - 1, main_reactor = None,
     sub_reactors = [], reactor_threads = [], thread_num = (if sint threads \<le> 0 then hw else threads),
     running = False, next_reactor = 0, srv_message_callback = None, connection_callback = None,
     connections = [], connections_locked = False, accept_channel = None, main_thread = None\<rparr>"

definition srv_setMessageCallback :: "'m \<Rightarrow> ('m, 'u) tcp_server \<Rightarrow> ('m, 'u) tcp_server" where
  "srv_setMessageCallback cb s = s\<lparr>srv_message_callback := Some cb\<rparr>"

definition setConnectionCallback :: "'u \<Rightarrow> ('m, 'u) tcp_server \<Rightarrow> ('m, 'u) tcp_server" where
  "setConnectionCallback cb s = s\<lparr>connection_callback := Some cb\<rparr>"

definition isRunning :: "('m, 'u) tcp_server \<Rightarrow> bool" where
  "isRunning s \<longleftrightarrow> running s"

section \<open>The connection table\<close>

definition lock_connections :: "('k, 'm, 'u, 'z) world_op" where
  "lock_connections w = (if connections_locked (server w) then Inl SelfDeadlock
     else Inr (on_server (\<lambda>s. s\<lparr>connections_locked := True\<rparr>) w))"

definition unlock_connections :: "('k, 'm, 'u, 'z) snet_scheme \<Rightarrow> ('k, 'm, 'u, 'z) snet_scheme" where
  "unlock_connections w = on_server (\<lambda>s. s\<lparr>connections_locked := False\<rparr>) w"

text \<open>The scope of a \<^verbatim>\<open>lock_guard\<close>.\<close>

definition guarded :: "('k, 'm, 'u, 'z) world_op \<Rightarrow> ('k, 'm, 'u, 'z) world_op" where
  "guarded f w = obind (lock_connections w) (\<lambda>w. obind (f w) (\<lambda>w. Inr (unlock_connections w)))"

definition table_erase :: "int \<Rightarrow> (int \<times> conn_ptr) list \<Rightarrow> (int \<times> conn_ptr) list" where
  "table_erase fd cs = filter (\<lambda>p. fst p \<noteq> fd) cs"

definition table_put :: "int \<Rightarrow> conn_ptr \<Rightarrow> (int \<times> conn_ptr) list \<Rightarrow> (int \<times> conn_ptr) list" where
  "table_put fd cn cs = table_erase fd cs @ [(fd, cn)]"

definition getConnectionCount :: "('k, 'm, 'u, 'z) snet_scheme \<Rightarrow> cint outcome" where
  "getConnectionCount w = obind (lock_connections w)
     (\<lambda>w. Inr (word_of_nat (length (connections (server w)))))"

definition removeConnection :: "conn_ptr \<Rightarrow> ('k, 'm, 'u, 'z) world_op" where
  "removeConnection cn w =
     obind (get_conn cn w) (\<lambda>x.
     obind (guarded (\<lambda>w. Inr (on_server (\<lambda>s. s\<lparr>connections := table_erase (sockfd x) (connections s)\<rparr>) w)) w)
       (\<lambda>w. obind (getConnectionCount w) (\<lambda>_. Inr w)))"

text \<open>The connection callback of the application, if one is set.\<close>

definition notify :: "('u \<Rightarrow> conn_ptr \<Rightarrow> ('k, 'm, 'u, 'z) world_op) \<Rightarrow> conn_ptr \<Rightarrow> ('k, 'm, 'u, 'z) world_op" where
  "notify on_connection cn w = (case connection_callback (server w) of
       None \<Rightarrow> Inr w | Some u \<Rightarrow> on_connection u cn w)"

text \<open>The close callback the server gives its connections.\<close>

definition server_close :: "('u \<Rightarrow> conn_ptr \<Rightarrow> ('k, 'm, 'u, 'z) world_op) \<Rightarrow>
    close_cb \<Rightarrow> conn_ptr \<Rightarrow> ('k, 'm, 'u, 'z) world_op" where
  "server_close on_connection cb cn w = obind (removeConnection cn w) (notify on_connection cn)"

section \<open>New connections\<close>

text \<open>The task that runs in the chosen reactor's loop.\<close>

fun run_task :: "'k build \<Rightarrow> thread_id \<Rightarrow> ('u \<Rightarrow> conn_ptr \<Rightarrow> ('k, 'm, 'u, 'z) world_op) \<Rightarrow>
    task \<Rightarrow> ('k, 'm, 'u, 'z) world_op" where
  "run_task b me on_connection (Register cn r) w =
     obind (get_conn cn w) (\<lambda>x.
     let ch = setErrorCallback (OnError cn) (setCloseCallback (OnClose cn)
           (setWriteCallback (OnWrite cn) (setReadCallback (OnRead cn) (new_channel r (sockfd x)))));
         (c, w) = alloc_channel ch w
     in obind (change_interest b me EnableReading c w) (\<lambda>w.
        obind (on_conn cn (setChannel c) w) (\<lambda>w.
        obind (establishConnection b cn w) (\<lambda>w.
          notify on_connection cn w))))"

text \<open>
  \<^verbatim>\<open>next_reactor_.fetch_add(1) % thread_num_\<close>: the old value is used, the counter wraps, the
  remainder has the sign of the counter; a remainder by zero and an index outside the vector
  are undefined.
\<close>

definition cpp_rem :: "int \<Rightarrow> int \<Rightarrow> int" where
  "cpp_rem a n = sgn a * (\<bar>a\<bar> mod \<bar>n\<bar>)"

definition choose_reactor :: "('m, 'u) tcp_server \<Rightarrow> (reactor_ptr \<times> ('m, 'u) tcp_server) outcome" where
  "choose_reactor s =
     (let s' = s\<lparr>next_reactor := next_reactor s + 1\<rparr>
      in if thread_num s = 0 then Inl Undefined
         else let i = cpp_rem (sint (next_reactor s)) (sint (thread_num s))
           in if 0 \<le> i \<and> i < int (length (sub_reactors s)) then Inr (sub_reactors s ! nat i, s')
              else Inl Undefined)"

definition handleNewConnection :: "'k build \<Rightarrow> thread_id \<Rightarrow> ('u \<Rightarrow> conn_ptr \<Rightarrow> ('k, 'm, 'u, 'z) world_op) \<Rightarrow>
    int \<Rightarrow> sockaddr \<Rightarrow> ('k, 'm, 'u, 'z) world_op" where
  "handleNewConnection b me on_connection connfd peer w =
     obind (choose_reactor (server w)) (\<lambda>(r, s).
     let w = w\<lparr>server := s\<rparr>;
         cn = next_conn w;
         w = new_connection b cn connfd peer (w\<lparr>next_conn := Suc cn\<rparr>)
     in obind (on_conn cn (setMessageCallback (srv_message_callback s)) w) (\<lambda>w.
        obind (on_conn cn (setConnCloseCallback (Some RemoveAndNotify)) w) (\<lambda>w.
        obind (runInLoop b (run_task b me on_connection) me r (Register cn r) w) (\<lambda>w.
        obind (guarded (\<lambda>w. Inr (on_server (\<lambda>s. s\<lparr>connections := table_put connfd cn (connections s)\<rparr>) w)) w)
          (\<lambda>w. obind (getConnectionCount w) (\<lambda>_. Inr w))))))"

text \<open>
  The accept loop ends when the backlog is empty or on an error other than an interruption;
  it may run as long as connections keep coming.
\<close>

partial_function (option) acceptConnection :: "'k build \<Rightarrow> thread_id \<Rightarrow>
    ('u \<Rightarrow> conn_ptr \<Rightarrow> ('k, 'm, 'u, 'z) world_op) \<Rightarrow>
    ('k, 'm, 'u, 'z) snet_scheme \<Rightarrow> ('k, 'm, 'u, 'z) snet_scheme outcome option" where
  "acceptConnection b me on_connection w =
     (case sys_accept4 (os b) (listen_fd (server w)) (kernel w) of ((connfd, peer), k) \<Rightarrow>
        let w = w\<lparr>kernel := k\<rparr>
        in if connfd \<ge> 0 then
             (case handleNewConnection b me on_connection connfd peer w of
                Inl e \<Rightarrow> Some (Inl e) | Inr w \<Rightarrow> acceptConnection b me on_connection w)
           else if sys_errno (os b) k = EAGAIN \<or> sys_errno (os b) k = EWOULDBLOCK then Some (Inr w)
           else if sys_errno (os b) k = EINTR then acceptConnection b me on_connection w
           else Some (Inr w))"

text \<open>
  The closures the channels hold: of a reactor's wakeup channel, of the accepting channel and
  of the channel of a connection. The latter's error callback closes the connection too.
\<close>

fun invoke :: "'k build \<Rightarrow> thread_id \<Rightarrow> ('m \<Rightarrow> conn_ptr \<Rightarrow> string \<Rightarrow> ('k, 'm, 'u, 'z) world_op) \<Rightarrow>
    ('u \<Rightarrow> conn_ptr \<Rightarrow> ('k, 'm, 'u, 'z) world_op) \<Rightarrow> chan_cb \<Rightarrow> ('k, 'm, 'u, 'z) world_op" where
  "invoke b me on_message on_connection (OnWakeup r) w = handleWakeup b r w"
| "invoke b me on_message on_connection OnAccept w =
     (case acceptConnection b me on_connection w of None \<Rightarrow> Inl Unending | Some res \<Rightarrow> res)"
| "invoke b me on_message on_connection (OnRead cn) w = handleRead b on_message (server_close on_connection) cn w"
| "invoke b me on_message on_connection (OnWrite cn) w = handleWrite b (server_close on_connection) cn w"
| "invoke b me on_message on_connection (OnClose cn) w = closeConnection (server_close on_connection) cn w"
| "invoke b me on_message on_connection (OnError cn) w = closeConnection (server_close on_connection) cn w"

section \<open>Broadcast, start, stop\<close>

definition broadcast_one :: "'k build \<Rightarrow> string \<Rightarrow> int \<times> conn_ptr \<Rightarrow> ('k, 'm, 'u, 'z) world_op" where
  "broadcast_one b message p w = (case p of (fd, cn) \<Rightarrow> obind (get_conn cn w) (\<lambda>x.
     if isConnected x then obind (send b cn message w) (\<lambda>(n, w). Inr w) else Inr w))"

definition broadcast :: "'k build \<Rightarrow> string \<Rightarrow> ('k, 'm, 'u, 'z) world_op" where
  "broadcast b message w =
     guarded (\<lambda>w. ofold (broadcast_one b message) (connections (server w)) w) w"

text \<open>
  Creating, binding and listening, on the kernel alone. The result is the flag \<^verbatim>\<open>start\<close>
  returns early with, or \<^const>\<open>None\<close> when the socket listens, and the descriptor.
\<close>

definition bind_and_listen :: "'k build \<Rightarrow> int \<Rightarrow> sockaddr \<Rightarrow> 'k \<Rightarrow> bool option \<times> 'k" where
  "bind_and_listen b fd addr k =
     (case sys_bind (os b) fd addr k of (ret, k) \<Rightarrow>
        if ret < 0 then (Some False, sys_close (os b) fd k)
        else (case sys_listen (os b) fd k of (ret, k) \<Rightarrow>
          if ret < 0 then (Some False, sys_close (os b) fd k) else (None, k)))"

definition listen_on :: "'k build \<Rightarrow> string \<Rightarrow> u16 \<Rightarrow> 'k \<Rightarrow> bool option \<times> int \<times> 'k" where
  "listen_on b ip port k =
     (case sys_socket (os b) k of (fd, k) \<Rightarrow>
        if fd < 0 then (Some False, fd, k)
        else let k = snd (sys_setsockopt (os b) fd SO_REUSEADDR k);
                 k = snd (sys_setsockopt (os b) fd SO_REUSEPORT k)
          in case (if ip = ''0.0.0.0'' then Some 0 else sys_inet_pton (os b) ip) of
               None \<Rightarrow> (Some False, fd, sys_close (os b) fd k)
             | Some addr \<Rightarrow>
                 (case bind_and_listen b fd \<lparr>sin_addr = addr, sin_port = ntohs port\<rparr> k of (res, k) \<Rightarrow> (res, fd, k)))"

definition open_listener :: "'k build \<Rightarrow> ('k, 'm, 'u, 'z) snet_scheme \<Rightarrow>
    bool option \<times> ('k, 'm, 'u, 'z) snet_scheme" where
  "open_listener b w =
     (case listen_on b (srv_ip (server w)) (srv_port (server w)) (kernel w) of (res, fd, k) \<Rightarrow>
        (res, on_server (\<lambda>s. s\<lparr>listen_fd := fd\<rparr>) (w\<lparr>kernel := k\<rparr>)))"

text \<open>\<^verbatim>\<open>std::make_unique<Reactor>()\<close>.\<close>

definition make_reactor :: "'k build \<Rightarrow> thread_id \<Rightarrow> ('k, 'm, 'u, 'z) snet_scheme \<Rightarrow>
    (reactor_ptr \<times> ('k, 'm, 'u, 'z) snet_scheme) outcome" where
  "make_reactor b me w =
     (let r = next_rptr w
      in obind (new_reactor b me OnWakeup r (w\<lparr>next_rptr := Suc r\<rparr>)) (\<lambda>w. Inr (r, w)))"

definition start_sub_reactor :: "'k build \<Rightarrow> thread_id \<Rightarrow> ('k, 'm, 'u, 'z) world_op" where
  "start_sub_reactor b me w = obind (make_reactor b me w) (\<lambda>(r, w).
     Inr (on_server (\<lambda>s. s\<lparr>sub_reactors := sub_reactors s @ [r],
                          reactor_threads := reactor_threads s @ [r]\<rparr>) w))"

definition start :: "'k build \<Rightarrow> thread_id \<Rightarrow> ('k, 'm, 'u, 'z) snet_scheme \<Rightarrow>
    (bool \<times> ('k, 'm, 'u, 'z) snet_scheme) outcome" where
  "start b me w =
     (if running (server w) then Inr (True, w)
      else case open_listener b w of
        (Some res, w) \<Rightarrow> Inr (res, w)
      | (None, w) \<Rightarrow>
          obind (make_reactor b me w) (\<lambda>(r, w).
          obind (case main_reactor (server w) of None \<Rightarrow> Inr w | Some old \<Rightarrow> destroy_reactor b me old w) (\<lambda>w.
          let w = on_server (\<lambda>s. s\<lparr>main_reactor := Some r\<rparr>) w
          in obind (ofold (\<lambda>_. start_sub_reactor b me) [0..<nat (sint (thread_num (server w)))] w) (\<lambda>w.
             let (c, w) = alloc_channel (setReadCallback OnAccept (new_channel r (listen_fd (server w)))) w;
                 w = on_server (\<lambda>s. s\<lparr>accept_channel := Some c\<rparr>) w
             in obind (change_interest b me EnableReading c w) (\<lambda>w.
                Inr (True, on_server (\<lambda>s. s\<lparr>running := True, main_thread := Some r\<rparr>) w))))))"

text \<open>Closing every connection of the table, under the lock, then clearing it.\<close>

definition close_all :: "('u \<Rightarrow> conn_ptr \<Rightarrow> ('k, 'm, 'u, 'z) world_op) \<Rightarrow> ('k, 'm, 'u, 'z) world_op" where
  "close_all on_connection w = guarded (\<lambda>w.
     obind (ofold (\<lambda>(fd, cn). closeConnection (server_close on_connection) cn) (connections (server w)) w)
       (\<lambda>w. Inr (on_server (\<lambda>s. s\<lparr>connections := []\<rparr>) w))) w"

definition close_acceptor :: "'k build \<Rightarrow> thread_id \<Rightarrow> ('k, 'm, 'u, 'z) world_op" where
  "close_acceptor b me w =
     obind (case accept_channel (server w) of
        None \<Rightarrow> Inr w
      | Some c \<Rightarrow> obind (change_interest b me DisableAll c w) (\<lambda>w.
          obind (channel_remove b me c w) (\<lambda>w.
          obind (destroy_channel b c w) (\<lambda>w.
            Inr (on_server (\<lambda>s. s\<lparr>accept_channel := None\<rparr>) w))))) (\<lambda>w.
     Inr (if listen_fd (server w) \<ge> 0
          then on_server (\<lambda>s. s\<lparr>listen_fd := - 1\<rparr>) (w\<lparr>kernel := sys_close (os b) (listen_fd (server w)) (kernel w)\<rparr>)
          else w))"

text \<open>
  \<open>join r\<close> stands for what happens until the thread that loops \<open>r\<close> has ended. Joining leaves
  a thread not joinable; the vectors of reactors and threads are kept.
\<close>

definition stop :: "'k build \<Rightarrow> thread_id \<Rightarrow> (reactor_ptr \<Rightarrow> ('k, 'm, 'u, 'z) world_op) \<Rightarrow>
    ('u \<Rightarrow> conn_ptr \<Rightarrow> ('k, 'm, 'u, 'z) world_op) \<Rightarrow> ('k, 'm, 'u, 'z) world_op" where
  "stop b me join on_connection w =
     (if \<not> running (server w) then Inr w
      else obind (close_acceptor b me (on_server (\<lambda>s. s\<lparr>running := False\<rparr>) w)) (\<lambda>w.
        obind (case main_reactor (server w) of None \<Rightarrow> Inr w | Some r \<Rightarrow> quit b me r w) (\<lambda>w.
        obind (case main_thread (server w) of None \<Rightarrow> Inr w
               | Some r \<Rightarrow> obind (join r w) (\<lambda>w. Inr (on_server (\<lambda>s. s\<lparr>main_thread := None\<rparr>) w))) (\<lambda>w.
        obind (ofold (quit b me) (sub_reactors (server w)) w) (\<lambda>w.
        obind (ofold join (reactor_threads (server w)) w) (\<lambda>w.
          close_all on_connection (on_server (\<lambda>s. s\<lparr>reactor_threads := []\<rparr>) w)))))))"

text \<open>
  The destructor stops the server, then the members go in the reverse order of their
  declaration. Destroying a thread that is still joinable ends the program.
\<close>

definition destroy_server :: "'k build \<Rightarrow> thread_id \<Rightarrow> (reactor_ptr \<Rightarrow> ('k, 'm, 'u, 'z) world_op) \<Rightarrow>
    ('u \<Rightarrow> conn_ptr \<Rightarrow> ('k, 'm, 'u, 'z) world_op) \<Rightarrow> ('k, 'm, 'u, 'z) world_op" where
  "destroy_server b me join on_connection w =
     obind (stop b me join on_connection w) (\<lambda>w.
     if main_thread (server w) \<noteq> None then Inl Aborted
     else obind (case accept_channel (server w) of None \<Rightarrow> Inr w | Some c \<Rightarrow> destroy_channel b c w) (\<lambda>w.
     if reactor_threads (server w) \<noteq> [] then Inl Aborted
     else obind (ofold (destroy_reactor b me) (sub_reactors (server w)) w) (\<lambda>w.
       case main_reactor (server w) of None \<Rightarrow> Inr w | Some r \<Rightarrow> destroy_reactor b me r w)))"

end
