(* ===== verification/ServerProps.thy ===== *)
theory ServerProps
  imports TcpServer
begin

text \<open>
  What the server promises, and where it does not keep it: the round-robin choice is balanced
  until its counter wraps; an accepted connection is in the table, unestablished, with its
  registration queued in the chosen loop; registering makes it readable and connected; a
  connection that closes leaves the table; a broadcast reaches every connected client; and
  stopping with a connected client waits for a lock it holds itself.
\<close>

section \<open>Round robin\<close>

text \<open>The vector of sub-reactors has as many elements as the server has threads.\<close>

definition wf_pool :: "('m, 'u) tcp_server \<Rightarrow> bool" where
  "wf_pool s \<longleftrightarrow> sint (thread_num s) = int (length (sub_reactors s)) \<and> sub_reactors s \<noteq> []"

lemma cpp_rem_nonneg: "0 \<le> a \<Longrightarrow> 0 < n \<Longrightarrow> cpp_rem a n = a mod n"
  by (cases "a = 0") (auto simp: cpp_rem_def)

lemma cpp_rem_neg: "a < 0 \<Longrightarrow> 0 < n \<Longrightarrow> cpp_rem a n = - (- a mod n)"
  by (simp add: cpp_rem_def)

lemma wf_pool_pos: "wf_pool s \<Longrightarrow> 0 < sint (thread_num s) \<and> thread_num s \<noteq> 0"
  by (auto simp: wf_pool_def)

text \<open>
  A server that is asked to find out the number of threads, on a system that does not know it, has none, and
  its first client is undefined behaviour.
\<close>

lemma no_threads_undefined:
  "sint threads \<le> 0 \<Longrightarrow> choose_reactor (new_server ip port threads 0) = Inl Undefined"
  by (simp add: new_server_def choose_reactor_def Let_def)

text \<open>
  C30: the choice of a sub-reactor is defined as long as the counter has not wrapped; once it is
  negative, the index is negative, and the vector is read out of bounds, except at multiples
  of the number of threads.
\<close>

theorem choose_reactor_defined_iff:
  assumes "wf_pool s"
  shows "returns (choose_reactor s) \<longleftrightarrow>
     0 \<le> sint (next_reactor s) \<or> sint (thread_num s) dvd sint (next_reactor s)"
proof -
  let ?n = "sint (thread_num s)" and ?c = "sint (next_reactor s)"
  have n: "0 < ?n" "thread_num s \<noteq> 0" "int (length (sub_reactors s)) = ?n"
    using assms wf_pool_pos by (auto simp: wf_pool_def)
  show ?thesis
  proof (cases "0 \<le> ?c")
    case True
    with n show ?thesis by (simp add: choose_reactor_def cpp_rem_nonneg Let_def)
  next
    case False
    then have "cpp_rem ?c ?n = - (- ?c mod ?n)" using n by (simp add: cpp_rem_neg)
    moreover have "0 \<le> - (- ?c mod ?n) \<longleftrightarrow> ?n dvd ?c"
    proof -
      have "0 \<le> - ?c mod ?n" using n(1) by (rule pos_mod_sign)
      then have "0 \<le> - (- ?c mod ?n) \<longleftrightarrow> - ?c mod ?n = 0" by linarith
      then show ?thesis by (simp add: mod_eq_0_iff_dvd)
    qed
    ultimately show ?thesis using False n
      by (auto simp: choose_reactor_def Let_def mod_eq_0_iff_dvd)
  qed
qed

primrec choose_many :: "nat \<Rightarrow> ('m, 'u) tcp_server \<Rightarrow> (reactor_ptr list \<times> ('m, 'u) tcp_server) outcome" where
  "choose_many 0 s = Inr ([], s)"
| "choose_many (Suc k) s = obind (choose_reactor s) (\<lambda>(r, s).
     obind (choose_many k s) (\<lambda>(rs, s). Inr (r # rs, s)))"

lemma choose_reactor_step:
  assumes "wf_pool s" and "0 \<le> sint (next_reactor s)"
  shows "choose_reactor s = Inr
     (sub_reactors s ! (nat (sint (next_reactor s)) mod length (sub_reactors s)),
      s\<lparr>next_reactor := next_reactor s + 1\<rparr>)"
proof -
  let ?n = "length (sub_reactors s)" and ?c = "sint (next_reactor s)"
  have n: "0 < int ?n" "thread_num s \<noteq> 0" "sint (thread_num s) = int ?n"
    using assms(1) wf_pool_pos by (auto simp: wf_pool_def)
  have "nat (?c mod int ?n) = nat ?c mod ?n" using assms(2) by (simp add: nat_mod_distrib)
  with n assms(2) show ?thesis by (simp add: choose_reactor_def cpp_rem_nonneg Let_def)
qed

lemma sint_succ_cint: "sint (c :: cint) + 1 < 2 ^ 31 \<Longrightarrow> sint (c + 1) = sint c + 1"
  using sint_cint_range [of c] sint_of_int_cint [of "sint c + 1"] by simp

text \<open>
  Connections are dealt out in turn: from a counter value \<open>c\<close>, and until the counter reaches
  its largest value, the successive choices are the sub-reactors \<open>c mod n\<close>, \<open>(c + 1) mod n\<close>,
  and so on.
\<close>

lemma round_robin:
  assumes "wf_pool s" and "0 \<le> sint (next_reactor s)" and "sint (next_reactor s) + int k < 2 ^ 31"
  shows "\<exists>s'. choose_many k s = Inr
     (map (\<lambda>i. sub_reactors s ! ((nat (sint (next_reactor s)) + i) mod length (sub_reactors s))) [0..<k], s') \<and>
     s' = s\<lparr>next_reactor := next_reactor s + of_nat k\<rparr>"
  using assms
proof (induction k arbitrary: s)
  case (Suc k)
  let ?s = "s\<lparr>next_reactor := next_reactor s + 1\<rparr>"
  have c: "sint (next_reactor s + 1) = sint (next_reactor s) + 1"
    using Suc.prems(3) by (intro sint_succ_cint) simp
  have "wf_pool ?s" using Suc.prems(1) by (simp add: wf_pool_def)
  then have "choose_many k ?s = Inr (map (\<lambda>i. sub_reactors s !
      ((nat (sint (next_reactor s) + 1) + i) mod length (sub_reactors s))) [0..<k],
      ?s\<lparr>next_reactor := next_reactor s + 1 + of_nat k\<rparr>)"
    using Suc.IH [of ?s] Suc.prems c by simp
  moreover have "nat (sint (next_reactor s) + 1) + i = nat (sint (next_reactor s)) + Suc i" for i
    using Suc.prems(2) by simp
  moreover have "map f [0..<Suc k] = f 0 # map (\<lambda>i. f (Suc i)) [0..<k]" for f :: "nat \<Rightarrow> nat"
    by (simp add: map_upt_Suc del: upt_Suc)
  ultimately show ?case
    using choose_reactor_step [OF Suc.prems(1,2)] by (simp add: algebra_simps del: upt_Suc)
qed simp

section \<open>The connection table\<close>

text \<open>
  The table is not locked, has one entry per descriptor, and every entry leads to a live
  connection on that descriptor that will call the server back when it closes.
\<close>

definition wf_connections :: "('k, 'm, 'u, 'z) snet_scheme \<Rightarrow> bool" where
  "wf_connections w \<longleftrightarrow> \<not> connections_locked (server w) \<and> distinct (map fst (connections (server w))) \<and>
     (\<forall>(fd, cn) \<in> set (connections (server w)). \<exists>x. conns w cn = Some x \<and> sockfd x = fd \<and>
        close_callback x = Some RemoveAndNotify)"

definition client_connected :: "('k, 'm, 'u, 'z) snet_scheme \<Rightarrow> conn_ptr \<Rightarrow> bool" where
  "client_connected w cn \<longleftrightarrow> (case conns w cn of None \<Rightarrow> False | Some x \<Rightarrow> isConnected x)"

lemma guarded_unlocked:
  "\<not> connections_locked (server w) \<Longrightarrow> guarded f w =
     obind (f (on_server (\<lambda>s. s\<lparr>connections_locked := True\<rparr>) w)) (\<lambda>w. Inr (unlock_connections w))"
  by (simp add: guarded_def lock_connections_def)

lemma guarded_locked: "connections_locked (server w) \<Longrightarrow> guarded f w = Inl SelfDeadlock"
  by (simp add: guarded_def lock_connections_def)

lemma on_server_simps [simp]:
  "server (on_server f w) = f (server w)" "conns (on_server f w) = conns w"
  "heap (on_server f w) = heap w" "kernel (on_server f w) = kernel w"
  "reactors (on_server f w) = reactors w" "next_conn (on_server f w) = next_conn w"
  "next_chan (on_server f w) = next_chan w" "on_server f (on_server g w) = on_server (\<lambda>s. f (g s)) w"
  by (simp_all add: on_server_def)

lemma get_conn_on_server [simp]: "get_conn cn (on_server f w) = get_conn cn w"
  by (simp add: get_conn_def)

text \<open>Under the lock, closing an unconnected connection does nothing, closing a connected one blocks.\<close>

lemma close_list_locked:
  assumes "connections_locked (server w)"
    and "\<forall>(fd, cn) \<in> set cs. \<exists>x. conns w cn = Some x \<and> close_callback x = Some RemoveAndNotify"
  shows "ofold (\<lambda>(fd, cn). closeConnection (server_close on_connection) cn) cs w =
     (if \<exists>p \<in> set cs. client_connected w (snd p) then Inl SelfDeadlock else Inr w)"
  using assms(2)
proof (induction cs)
  case (Cons p cs)
  obtain fd cn where p: "p = (fd, cn)" by force
  with Cons.prems obtain x where x: "conns w cn = Some x" "close_callback x = Some RemoveAndNotify" by auto
  show ?case
  proof (cases "isConnected x")
    case True
    then have "closeConnection (server_close on_connection) cn w = Inl SelfDeadlock"
      using x assms(1) by (simp add: closeConnection_def isConnected_def server_close_def
          removeConnection_def guarded_locked)
    with True x p show ?thesis by (simp add: client_connected_def)
  next
    case False
    then have "closeConnection (server_close on_connection) cn w = Inr w"
      using x by (simp add: closeConnection_def isConnected_def)
    with False Cons x p show ?thesis by (simp add: client_connected_def)
  qed
qed simp

text \<open>
  The last phase of \<^verbatim>\<open>stop()\<close> closes the connections while it holds the lock that their
  close callback takes: with a connected client in the table it never returns; without one it
  empties the table.
\<close>

lemma close_all_law:
  assumes "wf_connections w"
  shows "close_all on_connection w =
     (if \<exists>p \<in> set (connections (server w)). client_connected w (snd p) then Inl SelfDeadlock
      else Inr (on_server (\<lambda>s. s\<lparr>connections := [], connections_locked := False\<rparr>) w))"
proof -
  let ?w = "on_server (\<lambda>s. s\<lparr>connections_locked := True\<rparr>) w"
  have "\<not> connections_locked (server w)"
    "\<forall>(fd, cn) \<in> set (connections (server w)). \<exists>x. conns ?w cn = Some x \<and> close_callback x = Some RemoveAndNotify"
    using assms by (auto simp: wf_connections_def)
  with close_list_locked [of ?w "connections (server w)" on_connection] show ?thesis
    by (simp add: close_all_def guarded_unlocked client_connected_def unlock_connections_def)
qed

text \<open>
  What is asked of the application's connection callback: called with a live connection, it
  returns and leaves the network layer alone.
\<close>

definition net_same :: "('k, 'm, 'u, 'z) snet_scheme \<Rightarrow> ('k, 'm, 'u, 'z) snet_scheme \<Rightarrow> bool" where
  "net_same w w' \<longleftrightarrow> server w' = server w \<and> heap w' = heap w \<and> reactors w' = reactors w \<and>
     next_conn w' = next_conn w \<and> next_chan w' = next_chan w"

lemma net_same_refl [simp]: "net_same w w" "net_same w (w\<lparr>kernel := k\<rparr>)" "net_same w (w\<lparr>conns := cs\<rparr>)"
  "net_same w (w\<lparr>kernel := k, conns := cs\<rparr>)"
  by (simp_all add: net_same_def)

lemma net_same_trans: "net_same u v \<Longrightarrow> net_same v w \<Longrightarrow> net_same u w"
  by (simp add: net_same_def)

lemma net_sameD:
  assumes "net_same w w'"
  shows "server w' = server w" "heap w' = heap w" "reactors w' = reactors w"
    "next_conn w' = next_conn w" "next_chan w' = next_chan w"
  using assms by (simp_all add: net_same_def)

definition app_law :: "('u \<Rightarrow> conn_ptr \<Rightarrow> ('k, 'm, 'u, 'z) world_op) \<Rightarrow> bool" where
  "app_law on_connection \<longleftrightarrow> (\<forall>u cn w. conns w cn \<noteq> None \<longrightarrow>
     (\<exists>w'. on_connection u cn w = Inr w' \<and> net_same w w' \<and> conns w' = conns w \<and> kernel w' = kernel w))"

lemma notify_law:
  assumes "app_law on_connection" and "conns w cn = Some x"
  obtains w' where "notify on_connection cn w = Inr w'" and "net_same w w'" and "conns w' = conns w"
    and "kernel w' = kernel w"
proof (cases "connection_callback (server w)")
  case (Some u)
  obtain w' where "on_connection u cn w = Inr w'" "net_same w w'" "conns w' = conns w" "kernel w' = kernel w"
    using assms unfolding app_law_def by blast
  with Some that show thesis by (simp add: notify_def)
qed (use that in \<open>simp add: notify_def\<close>)

lemma removeConnection_law:
  assumes "\<not> connections_locked (server w)" and "conns w cn = Some x"
  shows "removeConnection cn w =
     Inr (on_server (\<lambda>s. s\<lparr>connections := table_erase (sockfd x) (connections s), connections_locked := False\<rparr>) w)"
  using assms by (simp add: removeConnection_def guarded_unlocked unlock_connections_def
      getConnectionCount_def lock_connections_def)

lemma table_erase_distinct: "distinct (map fst cs) \<Longrightarrow> distinct (map fst (table_erase fd cs))"
  by (induction cs) (auto simp: table_erase_def)

lemma length_table_erase:
  "distinct (map fst cs) \<Longrightarrow> (fd, cn) \<in> set cs \<Longrightarrow> Suc (length (table_erase fd cs)) = length cs"
proof (induction cs)
  case (Cons p cs)
  show ?case
  proof (cases "fst p = fd")
    case True
    then have "fd \<notin> fst ` set cs" using Cons.prems by auto
    then have "table_erase fd cs = cs" unfolding table_erase_def by (intro filter_True) auto
    with True show ?thesis by (simp add: table_erase_def)
  next
    case False
    with Cons show ?thesis by (auto simp: table_erase_def)
  qed
qed simp

text \<open>
  What an operation on one connection of the server does to the world: the connection keeps its
  socket, channel and callbacks; it either keeps its state, and the server is as it was, or goes
  from connected to disconnected, and its descriptor leaves the table.
\<close>

definition same_conn :: "('m, 'c) tcp_connection \<Rightarrow> ('m, 'c) tcp_connection \<Rightarrow> bool" where
  "same_conn x x' \<longleftrightarrow> sockfd x' = sockfd x \<and> conn_channel x' = conn_channel x \<and>
     message_callback x' = message_callback x \<and> close_callback x' = close_callback x"

definition conn_effect :: "conn_ptr \<Rightarrow> ('m, close_cb) tcp_connection \<Rightarrow> ('m, close_cb) tcp_connection \<Rightarrow>
    ('k, 'm, 'u, 'z) snet_scheme \<Rightarrow> ('k, 'm, 'u, 'z) snet_scheme \<Rightarrow> bool" where
  "conn_effect cn x x' w w' \<longleftrightarrow> conns w' = (conns w)(cn \<mapsto> x') \<and> same_conn x x' \<and>
     (state x' = state x \<and> net_same w w' \<or>
      state x = kConnected \<and> state x' = kDisconnected \<and>
      net_same (on_server (\<lambda>s. s\<lparr>connections := table_erase (sockfd x) (connections s)\<rparr>) w) w')"

lemma conn_effect_refl: "conns w cn = Some x \<Longrightarrow> conn_effect cn x x w w"
  by (simp add: conn_effect_def same_conn_def fun_upd_idem)

lemma conn_effect_after:
  assumes "conn_effect cn y z v w" and "conns v = (conns u)(cn \<mapsto> y)" and "net_same u v"
    and "same_conn x y" and "state y = state x"
  shows "conn_effect cn x z u w"
  using assms by (auto simp: conn_effect_def same_conn_def net_same_def)

lemma close_effect:
  assumes "app_law on_connection" and "\<not> connections_locked (server w)" and "conns w cn = Some x"
    and "close_callback x = Some RemoveAndNotify"
  obtains w' x' where "closeConnection (server_close on_connection) cn w = Inr w'"
    and "conn_effect cn x x' w w'" and "x' = (if isConnected x then x\<lparr>state := kDisconnected\<rparr> else x)"
    and "kernel w' = kernel w"
proof (cases "isConnected x")
  case True
  let ?w1 = "w\<lparr>conns := (conns w)(cn \<mapsto> setState kDisconnecting x)\<rparr>"
  let ?w2 = "on_server (\<lambda>s. s\<lparr>connections := table_erase (sockfd x) (connections s), connections_locked := False\<rparr>) ?w1"
  have rem: "removeConnection cn ?w1 = Inr ?w2"
    using removeConnection_law [of ?w1 cn "setState kDisconnecting x"] assms(2) by (simp add: setState_def)
  have "conns ?w2 cn = Some (setState kDisconnecting x)" by simp
  then obtain w3 where w3: "notify on_connection cn ?w2 = Inr w3" "net_same ?w2 w3" "conns w3 = conns ?w2"
    "kernel w3 = kernel ?w2" by (rule notify_law [OF assms(1)])
  let ?w' = "w3\<lparr>conns := (conns w3)(cn \<mapsto> x\<lparr>state := kDisconnected\<rparr>)\<rparr>"
  have "closeConnection (server_close on_connection) cn w = Inr ?w'"
    using True assms(3,4) rem w3(1,3)
    by (simp add: closeConnection_def isConnected_def server_close_def setState_def)
  moreover have "conn_effect cn x (x\<lparr>state := kDisconnected\<rparr>) w ?w'"
    using True assms(2) w3(2,3) by (simp add: conn_effect_def same_conn_def isConnected_def net_same_def)
  ultimately show thesis using that True w3(4) by simp
next
  case False
  then have "closeConnection (server_close on_connection) cn w = Inr w"
    using assms(3) by (simp add: closeConnection_def isConnected_def)
  then show thesis using that conn_effect_refl [OF assms(3)] False by simp
qed

text \<open>
  C23: when a connected client closes, by whatever path, its own entry and no other leaves the
  table, it ends disconnected, and the count drops by one; the mutex is free again.
\<close>

theorem close_leaves_table:
  assumes "app_law on_connection" and "wf_connections w" and "(fd, cn) \<in> set (connections (server w))"
    and "conns w cn = Some x" and "isConnected x"
  shows "\<exists>w'. closeConnection (server_close on_connection) cn w = Inr w' \<and> wf_connections w' \<and>
     connections (server w') = table_erase fd (connections (server w)) \<and>
     conns w' = (conns w)(cn \<mapsto> x\<lparr>state := kDisconnected\<rparr>) \<and>
     getConnectionCount w' = Inr (word_of_nat (length (connections (server w)) - 1))"
proof -
  let ?cs = "connections (server w)"
  have wf: "\<not> connections_locked (server w)" "distinct (map fst ?cs)" "sockfd x = fd"
    "close_callback x = Some RemoveAndNotify"
    using assms(2-4) by (auto simp: wf_connections_def)
  obtain w' where run: "closeConnection (server_close on_connection) cn w = Inr w'"
    and eff: "conn_effect cn x (x\<lparr>state := kDisconnected\<rparr>) w w'"
    using close_effect [OF assms(1) wf(1) assms(4) wf(4)] assms(5) by metis
  have conns: "conns w' = (conns w)(cn \<mapsto> x\<lparr>state := kDisconnected\<rparr>)"
    and table: "connections (server w') = table_erase fd ?cs" "\<not> connections_locked (server w')"
    using eff assms(5) wf by (auto simp: conn_effect_def net_same_def isConnected_def)
  have "set (table_erase fd ?cs) \<subseteq> set ?cs" by (auto simp: table_erase_def)
  then have "wf_connections w'"
    using assms(2,4) table_erase_distinct [OF wf(2)] table conns wf(3)
    by (fastforce simp: wf_connections_def)
  moreover have "length (table_erase fd ?cs) = length ?cs - 1"
    using length_table_erase [OF wf(2) assms(3)] by simp
  ultimately show ?thesis using run conns table
    by (intro exI [of _ w']) (simp add: getConnectionCount_def lock_connections_def)
qed

section \<open>Accepting and registering\<close>

text \<open>The object a new connection starts as, with the callbacks the server sets.\<close>

definition accepted_conn :: "int \<Rightarrow> sockaddr \<Rightarrow> int \<Rightarrow> 'm option \<Rightarrow> ('m, close_cb) tcp_connection" where
  "accepted_conn fd peer t mcb = \<lparr>sockfd = fd, peer_addr = peer, state = kConnecting,
     input_buffer = [], output_buffer = [], message_callback = mcb, close_callback = Some RemoveAndNotify,
     last_active_time = t, conn_channel = None\<rparr>"

lemma new_connection_eq:
  "\<exists>t k. new_connection b cn fd peer w = w\<lparr>kernel := k, conns := (conns w)(cn \<mapsto> \<lparr>sockfd = fd,
      peer_addr = peer, state = kConnecting, input_buffer = [], output_buffer = [],
      message_callback = None, close_callback = None, last_active_time = t, conn_channel = None\<rparr>)\<rparr>"
  by (auto simp: new_connection_def now_def set_option_def Let_def split: prod.splits)

lemma wf_connections_put:
  assumes "wf_connections w" and "conns w' = (conns w)(cn \<mapsto> x)" and "conns w cn = None"
    and "connections (server w') = table_put fd cn (connections (server w))"
    and "\<not> connections_locked (server w')" and "sockfd x = fd" and "close_callback x = Some RemoveAndNotify"
  shows "wf_connections w'"
proof -
  let ?cs = "connections (server w)"
  have "distinct (map fst (table_put fd cn ?cs))"
    using assms(1) table_erase_distinct [of ?cs fd] by (auto simp: wf_connections_def table_put_def table_erase_def)
  moreover have "\<exists>y. conns w' c = Some y \<and> sockfd y = f \<and> close_callback y = Some RemoveAndNotify"
    if "(f, c) \<in> set (table_put fd cn ?cs)" for f c
  proof (cases "(f, c) = (fd, cn)")
    case False
    with that have "(f, c) \<in> set ?cs" by (auto simp: table_put_def table_erase_def)
    with assms(1-3) show ?thesis by (fastforce simp: wf_connections_def)
  qed (use assms in simp)
  ultimately show ?thesis using assms(4,5) by (auto simp: wf_connections_def)
qed

lemma handleNewConnection_law:
  assumes "wf_connections w" and "choose_reactor (server w) = Inr (r, s)" and "reactors w r = Some R"
    and "\<not> isInLoopThread me R" and "conns w (next_conn w) = None"
  shows "\<exists>w' t. handleNewConnection b me on_connection fd peer w = Inr w' \<and> wf_connections w' \<and>
     conns w' = (conns w)(next_conn w \<mapsto> accepted_conn fd peer t (srv_message_callback (server w))) \<and>
     next_conn w' = Suc (next_conn w) \<and>
     reactors w' = (reactors w)(r \<mapsto> R\<lparr>r_pending_tasks := r_pending_tasks R @ [Register (next_conn w) r]\<rparr>) \<and>
     server w' = (server w)\<lparr>next_reactor := next_reactor (server w) + 1,
       connections := table_put fd (next_conn w) (connections (server w))\<rparr>"
proof -
  let ?cn = "next_conn w"
  have s: "s = (server w)\<lparr>next_reactor := next_reactor (server w) + 1\<rparr>"
    using assms(2) by (auto simp: choose_reactor_def Let_def split: if_splits)
  have free: "\<not> connections_locked (server w)" using assms(1) by (simp add: wf_connections_def)
  let ?w0 = "w\<lparr>server := s, next_conn := Suc ?cn\<rparr>"
  obtain t k where new: "new_connection b ?cn fd peer ?w0 = ?w0\<lparr>kernel := k, conns := (conns w)(?cn \<mapsto> \<lparr>sockfd = fd,
      peer_addr = peer, state = kConnecting, input_buffer = [], output_buffer = [],
      message_callback = None, close_callback = None, last_active_time = t, conn_channel = None\<rparr>)\<rparr>"
    using new_connection_eq [of b ?cn fd peer ?w0] by auto
  let ?x = "accepted_conn fd peer t (srv_message_callback (server w))"
  let ?w1 = "?w0\<lparr>kernel := k, conns := (conns w)(?cn \<mapsto> ?x)\<rparr>"
  have w1: "reactors ?w1 r = Some R" using assms(3) by simp
  let ?R = "R\<lparr>r_pending_tasks := r_pending_tasks R @ [Register ?cn r]\<rparr>"
  obtain k' where q: "queueInLoop b me r (Register ?cn r) ?w1 = Inr (put_reactor r ?R ?w1\<lparr>kernel := k'\<rparr>)"
    using queueInLoop_law [OF w1] by blast
  let ?w' = "on_server (\<lambda>s. s\<lparr>connections := table_put fd ?cn (connections s), connections_locked := False\<rparr>)
      (put_reactor r ?R ?w1\<lparr>kernel := k'\<rparr>)"
  have server: "server (put_reactor r ?R ?w1\<lparr>kernel := k'\<rparr>) = s" by (simp add: put_reactor_def)
  have "handleNewConnection b me on_connection fd peer w = Inr ?w'"
    using assms(2-4) new q free server w1 by (simp add: handleNewConnection_def Let_def runInLoop_def
        setMessageCallback_def setConnCloseCallback_def accepted_conn_def guarded_unlocked
        unlock_connections_def getConnectionCount_def lock_connections_def s)
  moreover have conns: "conns ?w' = (conns w)(?cn \<mapsto> ?x)" by (simp add: put_reactor_def)
  moreover have table: "connections (server ?w') = table_put fd ?cn (connections (server w))"
    "\<not> connections_locked (server ?w')" using server s by simp_all
  moreover have "wf_connections ?w'"
    by (rule wf_connections_put [OF assms(1) conns assms(5) table]) (simp_all add: accepted_conn_def)
  ultimately show ?thesis using server s free
    by (intro exI [of _ ?w'] exI [of _ t]) (simp add: put_reactor_def)
qed

text \<open>
  Accepting, in a thread other than the chosen reactor's: the connection gets the next
  sub-reactor in turn, is stored in the table under its descriptor, still connecting, with the
  server's callbacks, and the task that registers it is last in that reactor's queue.
\<close>

theorem accept_queues_registration:
  assumes "wf_connections w" and "choose_reactor (server w) = Inr (r, s)" and "reactors w r = Some R"
    and "\<not> isInLoopThread me R" and "conns w (next_conn w) = None"
  shows "\<exists>w' t. handleNewConnection b me on_connection fd peer w = Inr w' \<and> wf_connections w' \<and>
     conns w' = (conns w)(next_conn w \<mapsto> accepted_conn fd peer t (srv_message_callback (server w))) \<and>
     next_conn w' = Suc (next_conn w) \<and>
     reactors w' = (reactors w)(r \<mapsto> R\<lparr>r_pending_tasks := r_pending_tasks R @ [Register (next_conn w) r]\<rparr>) \<and>
     connections (server w') = table_put fd (next_conn w) (connections (server w)) \<and>
     next_reactor (server w') = next_reactor (server w) + 1"
  using handleNewConnection_law [OF assms] by fastforce

text \<open>A new channel on a descriptor that no channel of the reactor has.\<close>

lemma wf_table_fresh:
  assumes "wf_table C m w" and "heap w c = None" and "ch_fd ch \<notin> fd_of w ` C"
  shows "wf_table (insert c C) m (store c ch w)"
proof -
  have c: "c \<notin> C" using assms(1,2) by (auto simp: wf_table_def distinct_fds_def)
  have "fd_of (store c ch w) d = fd_of w d" if "d \<in> C" for d using that c by auto
  then have "inj_on (fd_of (store c ch w)) (insert c C)"
    using assms(1,3) c by (auto simp: wf_table_def distinct_fds_def inj_on_def image_iff)
  then show ?thesis using assms(1) c by (auto simp: wf_table_def distinct_fds_def)
qed

lemma wf_poller_fresh:
  assumes "wf_poller C (p, w)" and "heap w c = None" and "ch_fd ch \<notin> fd_of w ` C" and "ch_index ch = kNew"
  shows "wf_poller (insert c C) (p, store c ch w)"
proof (cases p)
  case (Epoll q)
  then have tab: "wf_table C (ep_channels q) w" using assms(1) by simp
  then have "c \<notin> ran (ep_channels q)" using assms(2) by (auto simp: wf_table_def distinct_fds_def ran_def)
  with Epoll assms wf_table_fresh [OF tab assms(2,3)] show ?thesis by auto
next
  case (Select q)
  then have "wf_table C (sp_channels q) w" using assms(1) by simp
  with Select assms wf_table_fresh [OF this assms(2,3)] show ?thesis by simp
qed

lemma wf_reactor_cong:
  assumes "heap w = heap v" and "reactors w = reactors v"
  shows "wf_reactor b me r C w \<longleftrightarrow> wf_reactor b me r C v"
  using assms wf_poller_net_cong [OF assms(1), of C] by (simp add: wf_reactor_def)

lemma wf_reactor_fresh:
  assumes "wf_reactor b me r C w" and "heap w (next_chan w) = None" and "ch_fd ch \<notin> fd_of w ` C"
    and "ch_index ch = kNew" and "ch_reactor ch = r" and "alloc_channel ch w = (c, w')"
  shows "wf_reactor b me r (insert c C) w'" and "c = next_chan w"
    and "reactors w' = reactors w" and "heap w' = (heap w)(c \<mapsto> ch)"
proof -
  have w': "w' = (store (next_chan w) ch w)\<lparr>next_chan := Suc (next_chan w)\<rparr>" and c: "c = next_chan w"
    using assms(6) by (auto simp: alloc_channel_def)
  then show "c = next_chan w" "reactors w' = reactors w" "heap w' = (heap w)(c \<mapsto> ch)" by simp_all
  obtain R where R: "reactors w r = Some R" "may_touch b me R" "wf_poller C (r_poller R, w)"
    "\<forall>c \<in> C. \<exists>ch. heap w c = Some ch \<and> ch_reactor ch = r"
    using assms(1) by (auto simp: wf_reactor_def)
  have "wf_poller (insert c C) (r_poller R, store c ch w)"
    unfolding c by (rule wf_poller_fresh [OF R(3) assms(2-4)])
  then have "wf_poller (insert c C) (r_poller R, w')"
    using wf_poller_net_cong [of "store c ch w" w'] w' c by simp
  with R assms(2,5) w' c show "wf_reactor b me r (insert c C) w'" by (auto simp: wf_reactor_def)
qed

lemma establishConnection_eq:
  "conns w cn = Some x \<Longrightarrow> \<exists>t k. establishConnection b cn w =
     Inr (w\<lparr>kernel := k, conns := (conns w)(cn \<mapsto> x\<lparr>state := kConnected, last_active_time := t\<rparr>)\<rparr>)"
  using updateLastActiveTime_eq [of "w\<lparr>conns := (conns w)(cn \<mapsto> setState kConnected x)\<rparr>" cn]
  by (auto simp: establishConnection_def setState_def)

lemma change_interest_conns:
  assumes "wf_reactor b me r C w" and "c \<in> C" and "change_interest b me i c w = Inr w'"
  shows "conns w' = conns w" and "server w' = server w" and "next_conn w' = next_conn w"
    and "heap w c = Some ch \<Longrightarrow> \<exists>ix. heap w' c = Some (setIndex ix (set_interest (platform b) i ch))"
proof -
  obtain R ch' where R: "reactors w r = Some R" "may_touch b me R" "heap w c = Some ch'" "ch_reactor ch' = r"
    using assms(1,2) by (rule wf_reactorE)
  have "reactors w (ch_reactor ch') = Some R" using R by simp
  from change_interest_shape [OF R(3) this R(2), of i] obtain p' ix k' where
    w': "w' = put_reactor r (R\<lparr>r_poller := p'\<rparr>)
      (store c (setIndex ix (set_interest (platform b) i ch')) (w\<lparr>kernel := k'\<rparr>))"
    using assms(3) R(4) by (metis sum.inject(2))
  then show "conns w' = conns w" "server w' = server w" "next_conn w' = next_conn w"
    by (simp_all add: put_reactor_def store_def)
  show "\<exists>ix. heap w' c = Some (setIndex ix (set_interest (platform b) i ch))" if "heap w c = Some ch"
    using that R(3) w' by auto
qed

text \<open>
  C18: running the queued task in the loop thread, when the new descriptor is not in use there:
  the connection gets a channel that is registered with the reactor for reading, and for
  reading only, whose events call the connection, and it becomes connected; the other
  channels keep their masks.
\<close>

theorem registration_makes_readable:
  assumes "app_law on_connection" and "wf_reactor b me r C w" and "conns w cn = Some x"
    and "heap w (next_chan w) = None" and "sockfd x \<notin> fd_of w ` C"
  shows "\<exists>w' ch t. run_task b me on_connection (Register cn r) w = Inr w' \<and>
     wf_reactor b me r (insert (next_chan w) C) w' \<and>
     registry_of r w' = (insert (next_chan w) (registered_in r w),
       (\<lambda>c. events_of c w)(next_chan w := kReadEvent (platform b))) \<and>
     conns w' = (conns w)(cn \<mapsto> x\<lparr>conn_channel := Some (next_chan w), state := kConnected, last_active_time := t\<rparr>) \<and>
     heap w' (next_chan w) = Some ch \<and> ch_fd ch = sockfd x \<and>
     read_callback ch = Some (OnRead cn) \<and> write_callback ch = Some (OnWrite cn) \<and>
     Channel.channel.close_callback ch = Some (OnClose cn) \<and> error_callback ch = Some (OnError cn)"
proof -
  define ch where "ch = setErrorCallback (OnError cn) (setCloseCallback (OnClose cn)
     (setWriteCallback (OnWrite cn) (setReadCallback (OnRead cn) (new_channel r (sockfd x)))))"
  note set_defs = setErrorCallback_def setCloseCallback_def setWriteCallback_def setReadCallback_def
    new_channel_def index_defs
  obtain c w1 where al: "alloc_channel ch w = (c, w1)" by force
  have ch: "ch_fd ch \<notin> fd_of w ` C" "ch_index ch = kNew" "ch_reactor ch = r" "ch_events ch = kNoneEvent"
    using assms(5) by (simp_all add: ch_def set_defs kNoneEvent_def)
  note w1 = wf_reactor_fresh [OF assms(2,4) ch(1-3) al]
  have c1: "conns w1 = conns w" using al by (auto simp: alloc_channel_def store_def)
  obtain w2 where w2: "change_interest b me EnableReading c w1 = Inr w2" "wf_reactor b me r (insert c C) w2"
    "registry_of r w2 = registry_call (platform b) (Interest EnableReading c) (registry_of r w1)"
    using change_interest_law [OF w1(1), of c EnableReading] by auto
  have c2: "conns w2 = conns w" using change_interest_conns(1) [OF w1(1) _ w2(1)] c1 by simp
  obtain ix where h2: "heap w2 c = Some (setIndex ix (set_interest (platform b) EnableReading ch))"
    using change_interest_conns(4) [OF w1(1) _ w2(1), of ch] w1(4) by auto
  let ?w3 = "w2\<lparr>conns := (conns w)(cn \<mapsto> setChannel c x)\<rparr>"
  obtain t k where w4: "establishConnection b cn ?w3 = Inr (?w3\<lparr>kernel := k, conns := (conns w)(cn \<mapsto>
      (setChannel c x)\<lparr>state := kConnected, last_active_time := t\<rparr>)\<rparr>)"
    using establishConnection_eq [of ?w3 cn "setChannel c x" b] by auto
  let ?w4 = "?w3\<lparr>kernel := k, conns := (conns w)(cn \<mapsto>
      (setChannel c x)\<lparr>state := kConnected, last_active_time := t\<rparr>)\<rparr>"
  have "conns ?w4 cn = Some ((setChannel c x)\<lparr>state := kConnected, last_active_time := t\<rparr>)" by simp
  then obtain w5 where n5: "notify on_connection cn ?w4 = Inr w5" "net_same ?w4 w5" "conns w5 = conns ?w4"
    "kernel w5 = kernel ?w4" by (rule notify_law [OF assms(1)])
  have w5: "notify on_connection cn ?w4 = Inr w5" "conns w5 = conns ?w4" "heap w5 = heap w2"
    "reactors w5 = reactors w2" using n5 net_sameD(2,3) [OF n5(2)] by simp_all
  have "run_task b me on_connection (Register cn r) w = Inr w5"
    using assms(3) al w2(1) c2 w4 w5(1) by (simp add: ch_def [symmetric] Let_def)
  moreover have "wf_reactor b me r (insert c C) w5"
    using w2(2) wf_reactor_cong [OF w5(3,4)] by simp
  moreover have "registry_of r w5 = (insert c (registered_in r w), (\<lambda>d. events_of d w)(c := kReadEvent (platform b)))"
    using w2(3) w5(3,4) w1(3,4) ch(4)
    by (auto simp: registry_of_def registered_in_def events_of_def fun_eq_iff kNoneEvent_def)
  moreover have "heap w5 c = Some (setIndex ix (set_interest (platform b) EnableReading ch))"
    using w5(3) h2 by simp
  moreover have "conns w5 = (conns w)(cn \<mapsto> x\<lparr>conn_channel := Some c, state := kConnected, last_active_time := t\<rparr>)"
    using w5(2) by (simp add: setChannel_def)
  ultimately show ?thesis unfolding w1(2)
    by (intro exI [of _ w5] exI [of _ "setIndex ix (set_interest (platform b) EnableReading ch)"] exI [of _ t])
      (simp add: ch_def set_defs setIndex_def set_interest_def)
qed

section \<open>Broadcast\<close>

text \<open>
  What a broadcast does to one client: a connected client's output grows by the whole message
  or, on a fatal socket error, by nothing; the others' output stays.
\<close>

definition reached :: "'k os \<Rightarrow> ('k \<Rightarrow> int \<Rightarrow> string) \<Rightarrow> string \<Rightarrow> ('k, 'm, 'u, 'z) snet_scheme \<Rightarrow>
    ('k, 'm, 'u, 'z) snet_scheme \<Rightarrow> conn_ptr \<Rightarrow> bool" where
  "reached sys sent message w w' cn \<longleftrightarrow>
     (if client_connected w cn
      then stream_of sent cn w' = stream_of sent cn w @ message \<or>
        fatal_errno sys \<and> stream_of sent cn w' = stream_of sent cn w
      else stream_of sent cn w' = stream_of sent cn w)"

text \<open>A live table of different descriptors, and connections that kept their descriptor and state.\<close>

definition live_table :: "(int \<times> conn_ptr) list \<Rightarrow> ('k, 'm, 'u, 'z) snet_scheme \<Rightarrow> bool" where
  "live_table cs w \<longleftrightarrow> distinct (map fst cs) \<and>
     (\<forall>(fd, cn) \<in> set cs. \<exists>x. conns w cn = Some x \<and> sockfd x = fd)"

lemma conn_touched_net:
  assumes "conn_touched cn x x' w w'"
  shows "net_same w w'"
proof -
  have "w' = w\<lparr>kernel := kernel w', conns := (conns w)(cn \<mapsto> x')\<rparr>"
    using assms unfolding conn_touched_def by blast
  then show ?thesis by (metis net_same_refl(4))
qed

text \<open>What a broadcast keeps of a connection: everything but its output and its time stamp.\<close>

definition identity_of :: "('k, 'm, 'u, 'z) snet_scheme \<Rightarrow> conn_ptr \<Rightarrow>
    (int \<times> conn_state \<times> close_cb option \<times> 'm option \<times> chan_ptr option \<times> string) option" where
  "identity_of w cn = map_option (\<lambda>x. (sockfd x, state x, close_callback x, message_callback x,
     conn_channel x, input_buffer x)) (conns w cn)"

lemma broadcast_one_law:
  assumes "socket_documented (os b) sent" and "int (length message) < 2 ^ 64" and "conns w cn = Some x"
  shows "\<exists>w' x'. broadcast_one b message (fd, cn) w = Inr w' \<and> conns w' = (conns w)(cn \<mapsto> x') \<and>
     sockfd x' = sockfd x \<and> identity_of w' = identity_of w \<and> net_same w w' \<and>
     reached (os b) sent message w w' cn \<and>
     (\<forall>fd. fd \<noteq> sockfd x \<longrightarrow> sent (kernel w') fd = sent (kernel w) fd)"
proof (cases "isConnected x")
  case True
  from send_law [OF assms(1,3,2)] obtain n w' x' where
    n: "send b cn message w = Inr (n, w')" "conn_touched cn x x' w w'" "state x' = state x" "input_buffer x' = input_buffer x"
    "\<forall>fd. fd \<noteq> sockfd x \<longrightarrow> sent (kernel w') fd = sent (kernel w) fd"
    "n = - 1 \<and> stream_of sent cn w' = stream_of sent cn w \<and> (state x = kConnected \<longrightarrow> fatal_errno (os b)) \<or>
     n = int (length message) \<and> stream_of sent cn w' = stream_of sent cn w @ message \<and> state x = kConnected" by blast
  have "net_same w w'" using n(2) by (rule conn_touched_net)
  moreover have "identity_of w' = identity_of w"
    using n(3,4) conn_touchedD [OF n(2)] assms(3) by (auto simp: identity_of_def)
  ultimately show ?thesis using True assms(3) n conn_touchedD [OF n(2)]
    by (intro exI [of _ w'] exI [of _ x'])
      (auto simp: broadcast_one_def reached_def client_connected_def isConnected_def)
next
  case False
  with assms(3) show ?thesis
    by (intro exI [of _ w] exI [of _ x]) (auto simp: broadcast_one_def reached_def client_connected_def)
qed

text \<open>Two worlds that agree on a connection and on its socket agree on its output.\<close>

lemma stream_of_agree:
  assumes "conns w' cn = conns w cn" and "conns w cn = Some x"
    and "sent (kernel w') (sockfd x) = sent (kernel w) (sockfd x)"
  shows "stream_of sent cn w' = stream_of sent cn w"
  using assms by (simp add: stream_of_def)

lemma reached_agree:
  assumes "stream_of sent cn u = stream_of sent cn w" and "conns u cn = conns w cn"
    and "reached sys sent message u v cn"
  shows "reached sys sent message w v cn"
  using assms by (auto simp: reached_def client_connected_def split: if_splits)

lemma broadcast_list_law:
  assumes "socket_documented (os b) sent" and "int (length message) < 2 ^ 64" and "live_table cs w"
  shows "\<exists>w'. ofold (broadcast_one b message) cs w = Inr w' \<and> net_same w w' \<and>
     identity_of w' = identity_of w \<and>
     (\<forall>p \<in> set cs. reached (os b) sent message w w' (snd p)) \<and>
     (\<forall>fd. fd \<notin> fst ` set cs \<longrightarrow> sent (kernel w') fd = sent (kernel w) fd) \<and>
     (\<forall>cn. cn \<notin> snd ` set cs \<longrightarrow> conns w' cn = conns w cn)"
  using assms(3)
proof (induction cs arbitrary: w)
  case (Cons p cs)
  obtain fd cn where p: "p = (fd, cn)" by force
  obtain x where x: "conns w cn = Some x" "sockfd x = fd" using Cons.prems p by (auto simp: live_table_def)
  have apart: "fd \<notin> fst ` set cs" using Cons.prems p by (simp add: live_table_def)
  have other: "\<exists>y. conns w c = Some y \<and> sockfd y = f \<and> f \<noteq> fd \<and> c \<noteq> cn" if "(f, c) \<in> set cs" for f c
  proof -
    from that Cons.prems obtain y where y: "conns w c = Some y" "sockfd y = f" by (auto simp: live_table_def)
    have "f \<in> fst ` set cs" using that by (rule rev_image_eqI) simp
    with apart have "f \<noteq> fd" by blast
    moreover from this have "c \<noteq> cn" using x y by auto
    ultimately show ?thesis using y by blast
  qed
  obtain w1 x1 where w1: "broadcast_one b message (fd, cn) w = Inr w1" "conns w1 = (conns w)(cn \<mapsto> x1)"
    "sockfd x1 = fd" "identity_of w1 = identity_of w" "net_same w w1" "reached (os b) sent message w w1 cn"
    "\<forall>f. f \<noteq> fd \<longrightarrow> sent (kernel w1) f = sent (kernel w) f"
    using broadcast_one_law [OF assms(1,2) x(1), of fd] x(2) by auto
  have "live_table cs w1"
    using Cons.prems p other w1(2) by (fastforce simp: live_table_def)
  from Cons.IH [OF this] obtain w2 where w2: "ofold (broadcast_one b message) cs w1 = Inr w2"
    "net_same w1 w2" "identity_of w2 = identity_of w1" "\<forall>p \<in> set cs. reached (os b) sent message w1 w2 (snd p)"
    "\<forall>f. f \<notin> fst ` set cs \<longrightarrow> sent (kernel w2) f = sent (kernel w1) f"
    "\<forall>c. c \<notin> snd ` set cs \<longrightarrow> conns w2 c = conns w1 c" by blast
  have "cn \<notin> snd ` set cs" using other by fastforce
  then have "stream_of sent cn w2 = stream_of sent cn w1"
    using w2(5,6) w1(2,3) apart by (intro stream_of_agree [of _ _ _ x1]) auto
  then have first: "reached (os b) sent message w w2 cn" using w1(6) by (simp add: reached_def)
  have rest: "reached (os b) sent message w w2 c" if mem: "(f, c) \<in> set cs" for f c
  proof -
    obtain y where y: "conns w c = Some y" "sockfd y = f" "f \<noteq> fd" "c \<noteq> cn" using other [OF mem] by blast
    then have "stream_of sent c w1 = stream_of sent c w" "conns w1 c = conns w c"
      using w1(2,7) by (auto intro: stream_of_agree)
    then show ?thesis by (rule reached_agree) (use w2(4) mem in force)
  qed
  have "\<forall>q \<in> set (p # cs). reached (os b) sent message w w2 (snd q)" using p first rest by auto
  moreover have "\<forall>f. f \<notin> fst ` set (p # cs) \<longrightarrow> sent (kernel w2) f = sent (kernel w) f"
    using p w1(7) w2(5) by simp
  moreover have "\<forall>c. c \<notin> snd ` set (p # cs) \<longrightarrow> conns w2 c = conns w c"
    using p w1(2) w2(6) by simp
  moreover have "ofold (broadcast_one b message) (p # cs) w = Inr w2" using p w1(1) w2(1) by simp
  moreover have "net_same w w2" using w1(5) w2(2) by (rule net_same_trans)
  ultimately show ?case using w1(4) w2(3) by (intro exI [of _ w2]) simp
qed simp

lemma wf_connections_identity:
  assumes "wf_connections w" and "identity_of w' = identity_of w" and "server w' = server w"
  shows "wf_connections w'"
proof -
  have "\<exists>x. conns w' cn = Some x \<and> sockfd x = fd \<and> close_callback x = Some RemoveAndNotify"
    if mem: "(fd, cn) \<in> set (connections (server w))" for fd cn
  proof -
    obtain x where "conns w cn = Some x" "sockfd x = fd" "close_callback x = Some RemoveAndNotify"
      using assms(1) mem by (auto simp: wf_connections_def)
    with fun_cong [OF assms(2), of cn] show ?thesis by (auto simp: identity_of_def)
  qed
  then show ?thesis using assms(1,3) by (auto simp: wf_connections_def)
qed

lemma broadcast_law:
  assumes "socket_documented (os b) sent" and "int (length message) < 2 ^ 64" and "wf_connections w"
  shows "\<exists>w'. broadcast b message w = Inr w' \<and> net_same w w' \<and> identity_of w' = identity_of w \<and>
     (\<forall>p \<in> set (connections (server w)). reached (os b) sent message w w' (snd p)) \<and>
     (\<forall>fd. fd \<notin> fst ` set (connections (server w)) \<longrightarrow> sent (kernel w') fd = sent (kernel w) fd) \<and>
     (\<forall>cn. cn \<notin> snd ` set (connections (server w)) \<longrightarrow> conns w' cn = conns w cn)"
proof -
  let ?cs = "connections (server w)"
  let ?w = "on_server (\<lambda>s. s\<lparr>connections_locked := True\<rparr>) w"
  have "live_table ?cs ?w" using assms(3) by (fastforce simp: live_table_def wf_connections_def)
  from broadcast_list_law [OF assms(1,2) this] obtain v where v: "ofold (broadcast_one b message) ?cs ?w = Inr v"
    "net_same ?w v" "identity_of v = identity_of ?w" "\<forall>p \<in> set ?cs. reached (os b) sent message ?w v (snd p)"
    "\<forall>fd. fd \<notin> fst ` set ?cs \<longrightarrow> sent (kernel v) fd = sent (kernel ?w) fd"
    "\<forall>cn. cn \<notin> snd ` set ?cs \<longrightarrow> conns v cn = conns ?w cn"
    by blast
  have free: "\<not> connections_locked (server w)" using assms(3) by (simp add: wf_connections_def)
  with v(1) have "broadcast b message w = Inr (unlock_connections v)"
    by (simp add: broadcast_def guarded_unlocked)
  moreover have "stream_of sent c ?w = stream_of sent c w" "client_connected ?w c = client_connected w c"
    "stream_of sent c (unlock_connections v) = stream_of sent c v" "identity_of ?w = identity_of w"
    "identity_of (unlock_connections v) = identity_of v" for c
    by (simp_all add: stream_of_def client_connected_def unlock_connections_def identity_of_def fun_eq_iff
        split: option.splits)
  moreover have "net_same w (unlock_connections v)"
    using v(2) free by (simp add: net_same_def unlock_connections_def)
  moreover have "kernel (unlock_connections v) = kernel v" "conns (unlock_connections v) = conns v"
    by (simp_all add: unlock_connections_def)
  ultimately show ?thesis
    using v(3-6) by (intro exI [of _ "unlock_connections v"]) (auto simp: reached_def)
qed


section \<open>A server for the witnesses\<close>

text \<open>Two sub-reactors, one client on descriptor 6, and an application that does nothing.\<close>

definition srv_reactor :: "task reactor" where
  "srv_reactor = \<lparr>r_quit = False, r_calling_pending_tasks = False, r_poller = Epoll fresh_poller,
     r_active_channels = [], r_pending_tasks = [], r_wakeup_fd = 4, r_wakeup_channel = 1, r_thread_id = 7\<rparr>"

definition srv_conn :: "conn_state \<Rightarrow> (unit, close_cb) tcp_connection" where
  "srv_conn st = (accepted_conn 6 \<lparr>sin_addr = 0, sin_port = 0\<rparr> 0 None)\<lparr>state := st\<rparr>"

definition demo_server :: "(unit, unit) tcp_server" where
  "demo_server = (new_server ''0.0.0.0'' 8080 2 4)\<lparr>sub_reactors := [10, 11], connections := [(6, 2)]\<rparr>"

definition srv_net :: "conn_state \<Rightarrow> (sock_kernel, unit, unit) snet" where
  "srv_net st = \<lparr>kernel = (\<lambda>_. [], \<lambda>_. [], []), heap = Map.empty,
     reactors = [10 \<mapsto> srv_reactor, 11 \<mapsto> srv_reactor], next_chan = 5, conns = [2 \<mapsto> srv_conn st],
     server = demo_server, next_conn = 3, next_rptr = 12\<rparr>"

definition silent_app :: "unit \<Rightarrow> conn_ptr \<Rightarrow> ('k, 'm, 'u, 'z) world_op" where
  "silent_app u cn w = Inr w"

lemma silent_app_law: "app_law silent_app"
  by (simp add: app_law_def silent_app_def)

lemma srv_net_facts: "wf_connections (srv_net st)" "connections (server (srv_net st)) = [(6, 2)]"
  "conns (srv_net st) 2 = Some (srv_conn st)" "conns (srv_net st) (next_conn (srv_net st)) = None"
  "client_connected (srv_net st) 2 = (st = kConnected)" "sockfd (srv_conn st) = 6"
  "isConnected (srv_conn st) = (st = kConnected)" "reactors (srv_net st) 10 = Some srv_reactor"
  "heap (srv_net st) (next_chan (srv_net st)) = None" "next_chan (srv_net st) = 5" "next_conn (srv_net st) = 3"
  by (simp_all add: srv_net_def wf_connections_def demo_server_def new_server_def srv_conn_def
      accepted_conn_def client_connected_def isConnected_def)

definition wrapped_server :: "(unit, unit) tcp_server" where
  "wrapped_server = (new_server ''0.0.0.0'' 8080 3 4)\<lparr>sub_reactors := [10, 11, 12], next_reactor := 0x80000000\<rparr>"

text \<open>After two to the power 31 connections on three threads, the next choice is undefined.\<close>

theorem choose_reactor_defined_iff_witness: "\<not> returns (choose_reactor wrapped_server)"
proof -
  have wf: "wf_pool wrapped_server" by (simp add: wrapped_server_def new_server_def wf_pool_def)
  have "\<not> 0 \<le> sint (next_reactor wrapped_server)" "\<not> sint (thread_num wrapped_server) dvd sint (next_reactor wrapped_server)"
    by (simp_all add: wrapped_server_def new_server_def)
  with choose_reactor_defined_iff [OF wf] show ?thesis by blast
qed

theorem close_leaves_table_witness:
  "\<exists>w'. closeConnection (server_close silent_app) 2 (srv_net kConnected) = Inr w' \<and>
     connections (server w') = [] \<and> getConnectionCount w' = Inr 0"
proof -
  have "(6, 2) \<in> set (connections (server (srv_net kConnected)))" "isConnected (srv_conn kConnected)"
    by (simp_all add: srv_net_facts)
  from close_leaves_table [OF silent_app_law srv_net_facts(1) this(1) srv_net_facts(3) this(2)]
  show ?thesis by (auto simp: srv_net_facts table_erase_def)
qed

theorem accept_queues_registration_witness:
  "\<exists>w'. handleNewConnection sock_build 8 silent_app 9 \<lparr>sin_addr = 0, sin_port = 0\<rparr> (srv_net kConnected) = Inr w' \<and>
     connections (server w') = [(6, 2), (9, 3)] \<and>
     reactors w' 10 = Some (srv_reactor\<lparr>r_pending_tasks := [Register 3 10]\<rparr>)"
proof -
  have "choose_reactor (server (srv_net kConnected)) = Inr (10, demo_server\<lparr>next_reactor := 1\<rparr>)"
    by (simp add: choose_reactor_def srv_net_def demo_server_def new_server_def cpp_rem_def)
  moreover have "\<not> isInLoopThread 8 srv_reactor" by (simp add: isInLoopThread_def srv_reactor_def)
  ultimately show ?thesis
    using accept_queues_registration [OF srv_net_facts(1) _ srv_net_facts(8) _ srv_net_facts(4),
        of kConnected _ 8 sock_build silent_app 9 "\<lparr>sin_addr = 0, sin_port = 0\<rparr>"]
    by (auto simp: srv_net_facts table_put_def table_erase_def srv_reactor_def)
qed

theorem registration_makes_readable_witness:
  "\<exists>w'. run_task sock_build 7 silent_app (Register 2 10) (srv_net kConnecting) = Inr w' \<and>
     registered_in 10 w' = {5} \<and> events_of 5 w' = EPOLLIN OR EPOLLPRI \<and> client_connected w' 2"
proof -
  have wf: "wf_reactor sock_build 7 10 {} (srv_net kConnecting)"
    by (simp add: wf_reactor_def srv_net_facts may_touch_def isInLoopThread_def srv_reactor_def
        wf_table_def distinct_fds_def fresh_poller_def)
  have reg: "registered_in 10 (srv_net kConnecting) = {}"
    by (simp add: registered_in_def srv_net_facts srv_reactor_def fresh_poller_def)
  have fd: "sockfd (srv_conn kConnecting) \<notin> fd_of (srv_net kConnecting) ` {}" by simp
  obtain w' t where "run_task sock_build 7 silent_app (Register 2 10) (srv_net kConnecting) = Inr w'"
    "registry_of 10 w' = ({5}, (\<lambda>c. events_of c (srv_net kConnecting))(5 := kReadEvent (platform sock_build)))"
    "conns w' = (conns (srv_net kConnecting))
      (2 \<mapsto> (srv_conn kConnecting)\<lparr>conn_channel := Some 5, state := kConnected, last_active_time := t\<rparr>)"
    using registration_makes_readable [OF silent_app_law wf srv_net_facts(3,9) fd]
    unfolding srv_net_facts(10) reg by blast
  then show ?thesis
    by (intro exI [of _ w'])
      (auto simp: registry_of_def client_connected_def isConnected_def sock_build_def fun_eq_iff simp del: run_task.simps)
qed


end
