(* ===== verification/AcceptLoop.thy ===== *)
theory AcceptLoop
  imports ServerProps
begin

text \<open>
  The accept loop as a whole: under a kernel that hands out the waiting clients one by one, it
  ends, takes every client up to the first failure, stores each in the table and deals them
  out to the sub-reactors in turn.
\<close>

section \<open>The kernel's side\<close>

text \<open>What successive calls of \<^verbatim>\<open>accept4\<close> give before the backlog is empty.\<close>

datatype arrival = Client int sockaddr | Interrupted | Failing int

text \<open>
  The documented behaviour of \<^verbatim>\<open>accept4\<close> on a non-blocking listening socket: \<open>pending\<close> is
  the sequence of its results until it reports an empty backlog.
\<close>

fun accepts :: "'k os \<Rightarrow> ('k \<Rightarrow> arrival list) \<Rightarrow> arrival list \<Rightarrow> int \<times> sockaddr \<Rightarrow> 'k \<Rightarrow> bool" where
  "accepts sys pending [] (fd, a) k \<longleftrightarrow> fd < 0 \<and> sys_errno sys k = EAGAIN \<and> pending k = []"
| "accepts sys pending (Client c p # rest) (fd, a) k \<longleftrightarrow> 0 \<le> c \<and> fd = c \<and> a = p \<and> pending k = rest"
| "accepts sys pending (Interrupted # rest) (fd, a) k \<longleftrightarrow> fd < 0 \<and> sys_errno sys k = EINTR \<and> pending k = rest"
| "accepts sys pending (Failing e # rest) (fd, a) k \<longleftrightarrow>
     fd < 0 \<and> sys_errno sys k = e \<and> e \<notin> {EAGAIN, EWOULDBLOCK, EINTR} \<and> pending k = rest"

definition accept_documented :: "'k os \<Rightarrow> int \<Rightarrow> ('k \<Rightarrow> arrival list) \<Rightarrow> bool" where
  "accept_documented sys lfd pending \<longleftrightarrow>
     (\<forall>k. accepts sys pending (pending k) (fst (sys_accept4 sys lfd k)) (snd (sys_accept4 sys lfd k)))"

text \<open>The calls made for a new connection leave a view of the kernel alone.\<close>

definition calls_keep :: "'k os \<Rightarrow> ('k \<Rightarrow> 'a) \<Rightarrow> bool" where
  "calls_keep sys f \<longleftrightarrow> (\<forall>k. f (snd (sys_time sys k)) = f k) \<and>
     (\<forall>fd opt k. f (snd (sys_setsockopt sys fd opt k)) = f k) \<and>
     (\<forall>fd s k. f (snd (sys_write sys fd s k)) = f k)"

lemma new_connection_keeps:
  "calls_keep (os b) f \<Longrightarrow> f (kernel (new_connection b cn fd peer w)) = f (kernel w)"
  by (simp add: new_connection_def now_def set_option_def calls_keep_def Let_def split: prod.splits)
    (metis snd_conv)

lemma queueInLoop_keeps:
  assumes "calls_keep (os b) f" and "queueInLoop b me r t w = Inr w'"
  shows "f (kernel w') = f (kernel w)"
proof -
  obtain R where "reactors w r = Some R"
    using assms(2) by (auto simp: queueInLoop_def on_reactor_def get_reactor_Inr_iff elim!: outcome_elims)
  then show ?thesis
    using assms by (auto simp: queueInLoop_def wakeup_Some calls_keep_def split: if_splits)
qed

lemma on_conn_kernel: "on_conn cn g w = Inr w' \<Longrightarrow> kernel w' = kernel w \<and> reactors w' = reactors w"
  by (auto simp: on_conn_def elim!: outcome_elims)

lemma handleNewConnection_keeps:
  assumes "calls_keep (os b) f" and "handleNewConnection b me on_connection fd peer w = Inr w'"
    and "\<forall>R. reactors w r = Some R \<longrightarrow> \<not> isInLoopThread me R" and "choose_reactor (server w) = Inr (r, s)"
  shows "f (kernel w') = f (kernel w)"
proof -
  let ?cn = "next_conn w" and ?w0 = "w\<lparr>server := s, next_conn := Suc (next_conn w)\<rparr>"
  let ?w1 = "new_connection b ?cn fd peer ?w0"
  have k1: "f (kernel ?w1) = f (kernel w)" using new_connection_keeps [OF assms(1), of ?cn fd peer ?w0] by simp
  have r1: "reactors ?w1 = reactors w" using new_connection_eq [of b ?cn fd peer ?w0] by auto
  obtain w2 w3 w4 where
    w2: "on_conn ?cn (setMessageCallback (srv_message_callback s)) ?w1 = Inr w2"
    and w3: "on_conn ?cn (setConnCloseCallback (Some RemoveAndNotify)) w2 = Inr w3"
    and w4: "runInLoop b (run_task b me on_connection) me r (Register ?cn r) w3 = Inr w4" "kernel w' = kernel w4"
    using assms(2,4)
    by (auto simp: handleNewConnection_def Let_def guarded_def lock_connections_def unlock_connections_def
        elim!: outcome_elims split: if_splits)
  have "kernel w3 = kernel ?w1" "reactors w3 = reactors w"
    using on_conn_kernel [OF w2] on_conn_kernel [OF w3] r1 by simp_all
  moreover from this w4(1) assms(3) have "queueInLoop b me r (Register ?cn r) w3 = Inr w4"
    by (auto simp: runInLoop_def get_reactor_Inr_iff elim!: outcome_elims split: if_splits)
  ultimately show ?thesis using queueInLoop_keeps [OF assms(1)] k1 w4(2) by metis
qed

section \<open>The loop\<close>

text \<open>The clients served: those before the first failure.\<close>

fun clients :: "arrival list \<Rightarrow> (int \<times> sockaddr) list" where
  "clients [] = []"
| "clients (Client fd a # as) = (fd, a) # clients as"
| "clients (Interrupted # as) = clients as"
| "clients (Failing e # as) = []"

text \<open>The sub-reactor of the \<open>i\<close>-th client, the tasks a reactor gets and the table afterwards.\<close>

definition dealt_to :: "('m, 'u) tcp_server \<Rightarrow> nat \<Rightarrow> reactor_ptr" where
  "dealt_to s i = sub_reactors s ! ((nat (sint (next_reactor s)) + i) mod length (sub_reactors s))"

definition dealt_tasks :: "('m, 'u) tcp_server \<Rightarrow> conn_ptr \<Rightarrow> nat \<Rightarrow> reactor_ptr \<Rightarrow> task list" where
  "dealt_tasks s cn n r = map (\<lambda>i. Register (cn + i) r) (filter (\<lambda>i. dealt_to s i = r) [0..<n])"

primrec table_put_all :: "int list \<Rightarrow> conn_ptr \<Rightarrow> (int \<times> conn_ptr) list \<Rightarrow> (int \<times> conn_ptr) list" where
  "table_put_all [] cn cs = cs"
| "table_put_all (fd # fds) cn cs = table_put_all fds (Suc cn) (table_put fd cn cs)"

text \<open>
  The server can take \<open>n\<close> more clients: its table is in order, the counter does not wrap, the
  sub-reactors exist and run in other threads, and the addresses of new connections are fresh.
\<close>

definition can_accept :: "thread_id \<Rightarrow> nat \<Rightarrow> ('k, 'm, 'u, 'z) snet_scheme \<Rightarrow> bool" where
  "can_accept me n w \<longleftrightarrow> wf_connections w \<and> wf_pool (server w) \<and>
     0 \<le> sint (next_reactor (server w)) \<and> sint (next_reactor (server w)) + int n < 2 ^ 31 \<and>
     (\<forall>r \<in> set (sub_reactors (server w)). \<exists>R. reactors w r = Some R \<and> \<not> isInLoopThread me R) \<and>
     (\<forall>cn \<ge> next_conn w. conns w cn = None)"

lemma dealt_tasks_Suc:
  assumes "0 \<le> sint (next_reactor s)" and "sint (next_reactor s) + 1 < 2 ^ 31"
  shows "dealt_tasks s cn (Suc n) r = (if dealt_to s 0 = r then [Register cn r] else []) @
     dealt_tasks (s\<lparr>next_reactor := next_reactor s + 1, connections := cs\<rparr>) (Suc cn) n r"
proof -
  have "dealt_to (s\<lparr>next_reactor := next_reactor s + 1, connections := cs\<rparr>) i = dealt_to s (Suc i)" for i
    using sint_succ_cint [OF assms(2)] assms(1) by (simp add: dealt_to_def nat_add_distrib)
  moreover have "[0..<Suc n] = 0 # map Suc [0..<n]" by (simp add: map_Suc_upt upt_conv_Cons del: upt_Suc)
  ultimately show ?thesis
    by (simp add: dealt_tasks_def filter_map comp_def del: upt_Suc)
qed

lemma can_accept_step:
  assumes "can_accept me (Suc n) w"
  shows "\<exists>w' R. handleNewConnection b me on_connection fd peer w = Inr w' \<and> can_accept me n w' \<and>
     reactors w (dealt_to (server w) 0) = Some R \<and>
     reactors w' = (reactors w)(dealt_to (server w) 0 \<mapsto>
       R\<lparr>r_pending_tasks := r_pending_tasks R @ [Register (next_conn w) (dealt_to (server w) 0)]\<rparr>) \<and>
     next_conn w' = Suc (next_conn w) \<and>
     server w' = (server w)\<lparr>next_reactor := next_reactor (server w) + 1,
       connections := table_put fd (next_conn w) (connections (server w))\<rparr> \<and>
     (calls_keep (os b) f \<longrightarrow> f (kernel w') = f (kernel w))"
proof -
  let ?s = "server w" and ?r = "dealt_to (server w) 0"
  have wf: "wf_connections w" "wf_pool ?s" "0 \<le> sint (next_reactor ?s)" "conns w (next_conn w) = None"
    using assms by (auto simp: can_accept_def)
  have choose: "choose_reactor ?s = Inr (?r, ?s\<lparr>next_reactor := next_reactor ?s + 1\<rparr>)"
    using choose_reactor_step [OF wf(2,3)] by (simp add: dealt_to_def)
  have "?r \<in> set (sub_reactors ?s)" using wf(2) by (simp add: dealt_to_def wf_pool_def)
  then obtain R where R: "reactors w ?r = Some R" "\<not> isInLoopThread me R"
    using assms by (auto simp: can_accept_def)
  from handleNewConnection_law [OF wf(1) choose R wf(4), of b on_connection fd peer] obtain w' t where
    w': "handleNewConnection b me on_connection fd peer w = Inr w'" "wf_connections w'"
      "conns w' = (conns w)(next_conn w \<mapsto> accepted_conn fd peer t (srv_message_callback ?s))"
      "next_conn w' = Suc (next_conn w)"
      "reactors w' = (reactors w)(?r \<mapsto> R\<lparr>r_pending_tasks := r_pending_tasks R @ [Register (next_conn w) ?r]\<rparr>)"
      "server w' = ?s\<lparr>next_reactor := next_reactor ?s + 1,
         connections := table_put fd (next_conn w) (connections ?s)\<rparr>" by blast
  have "sint (next_reactor ?s + 1) = sint (next_reactor ?s) + 1"
    using assms by (intro sint_succ_cint) (simp add: can_accept_def)
  then have "can_accept me n w'"
    using assms w' R(2) by (auto simp: can_accept_def wf_pool_def isInLoopThread_def)
  moreover have "f (kernel w') = f (kernel w)" if "calls_keep (os b) f"
    using handleNewConnection_keeps [OF that w'(1) _ choose] R by simp
  ultimately show ?thesis using w' R(1) by blast
qed

text \<open>What the loop has done when it has served the clients \<open>cs\<close>.\<close>

definition drained :: "(int \<times> sockaddr) list \<Rightarrow> ('k, 'm, 'u, 'z) snet_scheme \<Rightarrow>
    ('k, 'm, 'u, 'z) snet_scheme \<Rightarrow> bool" where
  "drained cs w w' \<longleftrightarrow> wf_connections w' \<and> next_conn w' = next_conn w + length cs \<and>
     connections (server w') = table_put_all (map fst cs) (next_conn w) (connections (server w)) \<and>
     (\<forall>r R. reactors w r = Some R \<longrightarrow> reactors w' r = Some (R\<lparr>r_pending_tasks := r_pending_tasks R @
        dealt_tasks (server w) (next_conn w) (length cs) r\<rparr>))"

lemma drained_Nil: "can_accept me n w \<Longrightarrow> drained [] w (w\<lparr>kernel := k\<rparr>)"
  by (simp add: drained_def can_accept_def wf_connections_def dealt_tasks_def)

lemma drained_kernel [simp]: "drained cs (w\<lparr>kernel := k\<rparr>) w' = drained cs w w'"
  by (simp add: drained_def)

lemma can_accept_kernel [simp]: "can_accept me n (w\<lparr>kernel := k\<rparr>) = can_accept me n w"
  by (simp add: can_accept_def wf_connections_def)

lemma accept_client:
  assumes "can_accept me (Suc (length cs)) w" and "calls_keep (os b) f"
  shows "\<exists>w'. handleNewConnection b me on_connection fd a w = Inr w' \<and> can_accept me (length cs) w' \<and>
     listen_fd (server w') = listen_fd (server w) \<and> f (kernel w') = f (kernel w) \<and>
     (\<forall>v. drained cs w' v \<longrightarrow> drained ((fd, a) # cs) w v)"
proof -
  let ?r = "dealt_to (server w) 0"
  from can_accept_step [OF assms(1), of b on_connection fd a f] assms(2) obtain w' R where
    w': "handleNewConnection b me on_connection fd a w = Inr w'" "can_accept me (length cs) w'"
      "reactors w ?r = Some R"
      "reactors w' = (reactors w)(?r \<mapsto> R\<lparr>r_pending_tasks := r_pending_tasks R @ [Register (next_conn w) ?r]\<rparr>)"
      "next_conn w' = Suc (next_conn w)"
      "server w' = (server w)\<lparr>next_reactor := next_reactor (server w) + 1,
         connections := table_put fd (next_conn w) (connections (server w))\<rparr>"
      "f (kernel w') = f (kernel w)" by blast
  have range: "0 \<le> sint (next_reactor (server w))" "sint (next_reactor (server w)) + 1 < 2 ^ 31"
    using assms(1) by (simp_all add: can_accept_def)
  have "drained ((fd, a) # cs) w v" if v: "drained cs w' v" for v
  proof -
    have "reactors v r = Some (Q\<lparr>r_pending_tasks := r_pending_tasks Q @
        dealt_tasks (server w) (next_conn w) (Suc (length cs)) r\<rparr>)" if "reactors w r = Some Q" for r Q
    proof -
      have later: "reactors w' r = Some P \<Longrightarrow> reactors v r = Some (P\<lparr>r_pending_tasks := r_pending_tasks P @
          dealt_tasks (server w') (Suc (next_conn w)) (length cs) r\<rparr>)" for P
        using v w'(5) by (simp add: drained_def)
      have "dealt_tasks (server w) (next_conn w) (Suc (length cs)) r =
          (if ?r = r then [Register (next_conn w) r] else []) @
          dealt_tasks (server w') (Suc (next_conn w)) (length cs) r"
        unfolding w'(6) by (rule dealt_tasks_Suc [OF range])
      then show ?thesis using that w'(3,4) later by (cases "r = ?r") simp_all
    qed
    with v w'(5,6) show ?thesis by (simp add: drained_def)
  qed
  with w' show ?thesis by auto
qed

lemma accept_loop_law:
  assumes "accept_documented (os b) lfd pending" and "calls_keep (os b) pending"
    and "can_accept me (length (clients (pending (kernel w)))) w" and "listen_fd (server w) = lfd"
  shows "\<exists>w'. acceptConnection b me on_connection w = Some (Inr w') \<and>
     drained (clients (pending (kernel w))) w w'"
  using assms(3,4)
proof (induction "pending (kernel w)" arbitrary: w)
  case (Nil w)
  obtain fd a k where acc: "sys_accept4 (os b) lfd (kernel w) = ((fd, a), k)" by (metis surj_pair)
  then have "fd < 0" "sys_errno (os b) k = EAGAIN"
    using assms(1) Nil.hyps unfolding accept_documented_def by (metis accepts.simps(1) fst_conv snd_conv)+
  then have "acceptConnection b me on_connection w = Some (Inr (w\<lparr>kernel := k\<rparr>))"
    using acc Nil.prems(2) by (subst acceptConnection.simps) simp
  then show ?case using drained_Nil [OF Nil.prems(1)] Nil.hyps by auto
next
  case (Cons x as w)
  obtain fd a k where acc: "sys_accept4 (os b) lfd (kernel w) = ((fd, a), k)" by (metis surj_pair)
  let ?w = "w\<lparr>kernel := k\<rparr>"
  have "accepts (os b) pending (x # as) (fd, a) k"
    using assms(1) Cons.hyps(2) acc unfolding accept_documented_def by (metis fst_conv snd_conv)
  then consider "x = Client fd a" "0 \<le> fd" "as = pending k"
    | "x = Interrupted" "fd < 0" "sys_errno (os b) k = EINTR" "as = pending k"
    | e where "x = Failing e" "fd < 0" "sys_errno (os b) k \<notin> {EAGAIN, EWOULDBLOCK, EINTR}"
    by (cases x) auto
  then show ?case
  proof cases
    case 1
    then have cs: "clients (pending (kernel w)) = (fd, a) # clients as" using Cons.hyps(2) [symmetric] by simp
    with Cons.prems(1) have "can_accept me (Suc (length (clients as))) ?w" by simp
    from accept_client [OF this assms(2), of on_connection fd a] obtain w' where
      w': "handleNewConnection b me on_connection fd a ?w = Inr w'" "can_accept me (length (clients as)) w'"
        "listen_fd (server w') = lfd" "pending (kernel w') = as"
        "\<And>v. drained (clients as) w' v \<Longrightarrow> drained ((fd, a) # clients as) w v"
      using 1 Cons.prems(2) by auto
    with Cons.hyps(1) [of w'] obtain v where
      v: "acceptConnection b me on_connection w' = Some (Inr v)" "drained (clients as) w' v" by auto
    have "acceptConnection b me on_connection w = Some (Inr v)"
      using acc 1 w'(1) v(1) Cons.prems(2) by (subst acceptConnection.simps) simp
    with w'(5) v(2) cs show ?thesis by auto
  next
    case 2
    then have cs: "clients (pending (kernel w)) = clients as" using Cons.hyps(2) [symmetric] by simp
    with Cons.hyps(1) [of ?w] Cons.prems 2 obtain v where
      v: "acceptConnection b me on_connection ?w = Some (Inr v)" "drained (clients as) w v" by auto
    have "acceptConnection b me on_connection w = Some (Inr v)"
      using acc 2 v(1) Cons.prems(2) by (subst acceptConnection.simps) (simp add: errno_defs)
    with v(2) cs show ?thesis by auto
  next
    case 3
    then have cs: "clients (pending (kernel w)) = []" using Cons.hyps(2) [symmetric] by simp
    have "acceptConnection b me on_connection w = Some (Inr ?w)"
      using acc 3 Cons.prems(2) by (subst acceptConnection.simps) simp
    with drained_Nil [OF Cons.prems(1)] cs show ?thesis by auto
  qed
qed

text \<open>
  C15: the accept loop ends and serves the whole backlog: with a listening socket that behaves
  as documented, and reactors that loop in other threads, every client that waits before the
  first failure is stored in the table under its descriptor, interruptions are retried, and
  each sub-reactor's queue grows by the registrations of exactly the clients that are its own
  in turn, in the order of arrival.
\<close>

theorem accept_loop_drains:
  assumes "accept_documented (os b) lfd pending" and "calls_keep (os b) pending"
    and "cs = clients (pending (kernel w))" and "can_accept me (length cs) w" and "listen_fd (server w) = lfd"
  shows "\<exists>w'. acceptConnection b me on_connection w = Some (Inr w') \<and> wf_connections w' \<and>
     next_conn w' = next_conn w + length cs \<and>
     connections (server w') = table_put_all (map fst cs) (next_conn w) (connections (server w)) \<and>
     (\<forall>r R. reactors w r = Some R \<longrightarrow> reactors w' r = Some (R\<lparr>r_pending_tasks := r_pending_tasks R @
        dealt_tasks (server w) (next_conn w) (length cs) r\<rparr>))"
  using accept_loop_law [OF assms(1,2) _ assms(5), of me on_connection] assms(3,4)
  by (simp add: drained_def)

text \<open>
  A kernel that is its backlog and the last error, and a server with two sub-reactors on it.
\<close>

type_synonym backlog = "arrival list \<times> int"

fun tidy :: "arrival \<Rightarrow> arrival" where
  "tidy (Client c a) = Client \<bar>c\<bar> a"
| "tidy Interrupted = Interrupted"
| "tidy (Failing e) = Failing (if e \<in> {EAGAIN, EWOULDBLOCK, EINTR} then EPIPE else e)"

fun backlog_accept :: "backlog \<Rightarrow> (int \<times> sockaddr) \<times> backlog" where
  "backlog_accept ([], e) = ((- 1, \<lparr>sin_addr = 0, sin_port = 0\<rparr>), [], EAGAIN)"
| "backlog_accept (x # rest, e) = (case tidy x of
       Client c a \<Rightarrow> ((c, a), rest, e)
     | Interrupted \<Rightarrow> ((- 1, \<lparr>sin_addr = 0, sin_port = 0\<rparr>), rest, EINTR)
     | Failing e' \<Rightarrow> ((- 1, \<lparr>sin_addr = 0, sin_port = 0\<rparr>), rest, e'))"

definition backlog_build :: "backlog build" where
  "backlog_build = \<lparr>os = failing_os\<lparr>sys_errno := snd, sys_accept4 := (\<lambda>_. backlog_accept)\<rparr>,
     ndebug = True, platform = Linux\<rparr>"

definition waiting :: "backlog \<Rightarrow> arrival list" where
  "waiting k = map tidy (fst k)"

lemma backlog_documented: "accept_documented (os backlog_build) lfd waiting"
  unfolding accept_documented_def
proof
  fix k :: backlog
  show "accepts (os backlog_build) waiting (waiting k) (fst (sys_accept4 (os backlog_build) lfd k))
      (snd (sys_accept4 (os backlog_build) lfd k))"
  proof (cases k rule: backlog_accept.cases)
    case (2 x rest e)
    then show ?thesis by (cases x) (auto simp: backlog_build_def waiting_def errno_defs)
  qed (simp add: backlog_build_def waiting_def)
qed

lemma backlog_keeps: "calls_keep (os backlog_build) waiting"
  by (simp add: calls_keep_def backlog_build_def failing_os_def)

definition backlog_net :: "arrival list \<Rightarrow> (backlog, unit, unit) snet" where
  "backlog_net q = \<lparr>kernel = (q, 0), heap = Map.empty, reactors = [10 \<mapsto> srv_reactor, 11 \<mapsto> srv_reactor],
     next_chan = 5, conns = Map.empty, server = demo_server\<lparr>connections := []\<rparr>, next_conn = 3, next_rptr = 12\<rparr>"

theorem accept_loop_drains_witness:
  "let p = \<lparr>sin_addr = 0, sin_port = 0\<rparr>;
       q = [Client 20 p, Interrupted, Client 21 p, Client 22 p, Failing 24, Client 23 p]
   in \<exists>w'. acceptConnection backlog_build 8 silent_app (backlog_net q) = Some (Inr w') \<and>
     connections (server w') = [(20, 3), (21, 4), (22, 5)] \<and>
     reactors w' 10 = Some (srv_reactor\<lparr>r_pending_tasks := [Register 3 10, Register 5 10]\<rparr>) \<and>
     reactors w' 11 = Some (srv_reactor\<lparr>r_pending_tasks := [Register 4 11]\<rparr>)"
proof -
  let ?p = "\<lparr>sin_addr = 0, sin_port = 0\<rparr>"
  let ?q = "[Client 20 ?p, Interrupted, Client 21 ?p, Client 22 ?p, Failing 24, Client 23 ?p]"
  let ?cs = "[(20, ?p), (21, ?p), (22, ?p)]" and ?w = "backlog_net ?q"
  have cs: "?cs = clients (waiting (kernel ?w))" by (simp add: backlog_net_def waiting_def)
  have ready: "can_accept 8 (length ?cs) ?w"
    by (simp add: can_accept_def backlog_net_def wf_connections_def demo_server_def new_server_def
        wf_pool_def isInLoopThread_def srv_reactor_def)
  have facts: "listen_fd (server ?w) = listen_fd demo_server" "next_conn ?w = 3" "connections (server ?w) = []"
    "reactors ?w 10 = Some srv_reactor" "reactors ?w 11 = Some srv_reactor" "r_pending_tasks srv_reactor = []"
    by (simp_all add: backlog_net_def srv_reactor_def)
  have dealt: "dealt_tasks (server ?w) 3 (length ?cs) 10 = [Register 3 10, Register 5 10]"
    "dealt_tasks (server ?w) 3 (length ?cs) 11 = [Register 4 11]"
    by (simp_all add: dealt_tasks_def dealt_to_def backlog_net_def demo_server_def new_server_def upt_rec)
  from accept_loop_drains [OF backlog_documented backlog_keeps cs ready facts(1), of silent_app] dealt
  show ?thesis by (auto simp: Let_def facts table_put_def table_erase_def)
qed

end
