(* ===== verification/ServerLife.thy ===== *)
theory ServerLife
  imports AcceptLoop
begin

text \<open>
  Starting and stopping: a start that fails leaves no descriptor open, a start that succeeds
  builds the pool of reactors and the accepting channel, a second start keeps the reactors of
  the first in front of the pool, and a stop without clients returns the server to rest.
\<close>

section \<open>The listening socket\<close>

lemma open_listener_frame:
  "\<exists>res fd k. open_listener b w = (res, on_server (\<lambda>s. s\<lparr>listen_fd := fd\<rparr>) (w\<lparr>kernel := k\<rparr>))"
  by (auto simp: open_listener_def split: prod.splits)

text \<open>
  The documented effect of the calls on the set of open descriptors: \<^verbatim>\<open>socket\<close> opens a new
  one or fails, \<^verbatim>\<open>close\<close> closes one, the others change nothing.
\<close>

definition descriptors_documented :: "'k os \<Rightarrow> ('k \<Rightarrow> int set) \<Rightarrow> bool" where
  "descriptors_documented sys opened \<longleftrightarrow>
     (\<forall>k fd k'. sys_socket sys k = (fd, k') \<longrightarrow>
        (if fd < 0 then opened k' = opened k else fd \<notin> opened k \<and> opened k' = insert fd (opened k))) \<and>
     (\<forall>fd k. opened (sys_close sys fd k) = opened k - {fd}) \<and>
     (\<forall>fd opt k. opened (snd (sys_setsockopt sys fd opt k)) = opened k) \<and>
     (\<forall>fd a k. opened (snd (sys_bind sys fd a k)) = opened k) \<and>
     (\<forall>fd k. opened (snd (sys_listen sys fd k)) = opened k)"

lemma descriptors_keep:
  assumes "descriptors_documented sys opened"
  shows "opened (sys_close sys fd k) = opened k - {fd}" "opened (snd (sys_setsockopt sys fd opt k)) = opened k"
    "sys_bind sys fd a k = (ret, k') \<Longrightarrow> opened k' = opened k"
    "sys_listen sys fd k = (ret, k') \<Longrightarrow> opened k' = opened k"
  using assms unfolding descriptors_documented_def by (metis snd_conv)+

lemma bind_and_listen_opened:
  assumes "descriptors_documented (os b) opened" and "bind_and_listen b fd addr k = (res, k')"
  shows "res = None \<and> opened k' = opened k \<or> res = Some False \<and> opened k' = opened k - {fd}"
  using assms(2) descriptors_keep [OF assms(1)]
  by (auto simp: bind_and_listen_def split: prod.splits if_splits)

lemma listen_on_failed:
  assumes "descriptors_documented (os b) opened" and "listen_on b ip port k = (Some res, fd, k')"
  shows "\<not> res \<and> opened k' = opened k"
proof -
  obtain f k1 where sock: "sys_socket (os b) k = (f, k1)" by force
  show ?thesis
  proof (cases "f < 0")
    case True
    with assms sock show ?thesis by (auto simp: listen_on_def descriptors_documented_def)
  next
    case False
    then have "f \<notin> opened k" "opened k1 = insert f (opened k)"
      using assms(1) sock by (auto simp: descriptors_documented_def)
    then have "opened k1 - {f} = opened k" by auto
    moreover let ?k = "snd (sys_setsockopt (os b) f SO_REUSEPORT (snd (sys_setsockopt (os b) f SO_REUSEADDR k1)))"
    have "opened ?k = opened k1" by (simp add: descriptors_keep(2) [OF assms(1)])
    moreover have "Some res = Some False \<and> k' = sys_close (os b) f ?k \<or>
        (\<exists>addr. bind_and_listen b f addr ?k = (Some res, k'))"
      using assms(2) False sock by (auto simp: listen_on_def Let_def split: option.splits prod.splits if_splits)
    ultimately show ?thesis
      using descriptors_keep(1) [OF assms(1), of f ?k] bind_and_listen_opened [OF assms(1)] by fastforce
  qed
qed

text \<open>
  C20: a start that fails leaves no trace: whichever of the calls fails, the flag returned is
  false, every descriptor opened on the way is closed again, and the server is as it was, with
  no reactor and no thread, except for the number in \<^verbatim>\<open>listen_fd_\<close>.
\<close>

theorem start_failure_leaks_nothing:
  assumes "descriptors_documented (os b) opened" and "start b me w = Inr (False, w')"
  shows "opened (kernel w') = opened (kernel w) \<and> \<not> running (server w') \<and>
     (\<exists>fd. server w' = (server w)\<lparr>listen_fd := fd\<rparr>) \<and>
     reactors w' = reactors w \<and> heap w' = heap w \<and> conns w' = conns w"
proof -
  obtain res fd k where l: "listen_on b (srv_ip (server w)) (srv_port (server w)) (kernel w) = (res, fd, k)"
    by (metis surj_pair)
  have off: "\<not> running (server w)" using assms(2) by (auto simp: start_def)
  moreover have "res \<noteq> None"
    using assms(2) l off
    by (cases res) (auto simp: start_def open_listener_def alloc_channel_def Let_def elim!: outcome_elims split: prod.splits)
  moreover have "w' = on_server (\<lambda>s. s\<lparr>listen_fd := fd\<rparr>) (w\<lparr>kernel := k\<rparr>)"
    using assms(2) l off calculation(2) by (auto simp: start_def open_listener_def)
  ultimately show ?thesis using listen_on_failed [OF assms(1)] l by auto
qed

section \<open>The pool of reactors\<close>

text \<open>The system has the resources a reactor needs: its constructor does not abort.\<close>

definition resources_ok :: "'k build \<Rightarrow> bool" where
  "resources_ok b \<longleftrightarrow> (case platform b of
       Linux \<Rightarrow> \<forall>k. 0 \<le> fst (sys_epoll_create1 (os b) k) \<and> 0 \<le> fst (sys_eventfd (os b) k)
     | Win32 \<Rightarrow> \<forall>k. 0 \<le> fst (sys_socket (os b) k))"

lemma new_reactor_returns: "resources_ok b \<Longrightarrow> \<exists>w'. new_reactor b me on_wakeup r w = Inr w'"
proof -
  assume ok: "resources_ok b"
  have "\<exists>p w1. new_poller b w = Inr (p, w1)"
    using ok by (auto simp: resources_ok_def new_poller_def new_epoll_poller_def
        split: platform.splits prod.splits) (metis fst_conv linorder_not_le)
  moreover have "\<exists>efd w2. createEventfd b w1 = Inr (efd, w2)" for w1 :: "('a, 'b, 'c, 'd) rnet_scheme"
    using ok by (auto simp: resources_ok_def createEventfd_def
        split: platform.splits prod.splits) (metis fst_conv linorder_not_le)+
  ultimately show ?thesis using new_reactor_steps by blast
qed

text \<open>
  What creating reactors leaves alone: older reactors and channels, and everything but the
  three counters and the kernel.
\<close>

definition older_kept :: "('k, 'm, 'u, 'z) snet_scheme \<Rightarrow> ('k, 'm, 'u, 'z) snet_scheme \<Rightarrow> bool" where
  "older_kept w w' \<longleftrightarrow> next_rptr w \<le> next_rptr w' \<and> next_chan w \<le> next_chan w' \<and>
     (\<forall>r < next_rptr w. reactors w' r = reactors w r) \<and> (\<forall>c < next_chan w. heap w' c = heap w c) \<and>
     conns w' = conns w \<and> next_conn w' = next_conn w"

lemma older_kept_trans: "older_kept u v \<Longrightarrow> older_kept v w \<Longrightarrow> older_kept u w"
  by (simp add: older_kept_def)

text \<open>
  A reactor with its wakeup channel, registered for reading, as its constructor leaves it in
  thread \<open>me\<close>.
\<close>

definition built :: "platform \<Rightarrow> thread_id \<Rightarrow> ('k, 'm, 'u, 'z) snet_scheme \<Rightarrow> reactor_ptr \<Rightarrow> bool" where
  "built pf me w r \<longleftrightarrow> r < next_rptr w \<and> (\<exists>R ch. reactors w r = Some R \<and> fresh_reactor me (r_wakeup_channel R) R \<and>
     r_wakeup_channel R < next_chan w \<and> heap w (r_wakeup_channel R) = Some ch \<and> ch_reactor ch = r \<and>
     ch_events ch = kReadEvent pf \<and> r_wakeup_channel R \<in> registrations (r_poller R))"

lemma built_older: "older_kept w w' \<Longrightarrow> built pf me w r \<Longrightarrow> built pf me w' r"
  by (fastforce simp: older_kept_def built_def)

lemma make_reactor_law:
  assumes "resources_ok b"
  shows "\<exists>w'. make_reactor b me w = Inr (next_rptr w, w') \<and> built (platform b) me w' (next_rptr w) \<and> older_kept w w' \<and>
     next_rptr w' = Suc (next_rptr w) \<and> server w' = server w"
proof -
  let ?r = "next_rptr w" and ?w = "w\<lparr>next_rptr := Suc (next_rptr w)\<rparr>"
  obtain w' where w': "new_reactor b me OnWakeup ?r ?w = Inr w'"
    using new_reactor_returns [OF assms] by blast
  from new_reactor_law [OF this] obtain R ch k where
    "w' = put_reactor ?r R (store (next_chan w) ch (?w\<lparr>kernel := k, next_chan := Suc (next_chan w)\<rparr>))"
    "fresh_reactor me (next_chan w) R" "ch_reactor ch = ?r" "registry_of ?r w' = registry_call (platform b)
      (Interest EnableReading (next_chan w)) ({}, (\<lambda>c. events_of c ?w)(next_chan w := kNoneEvent))" by auto
  moreover from this have "next_chan w \<in> registrations (r_poller R)" "ch_events ch = kReadEvent (platform b)"
    by (auto simp: registry_of_def registered_in_def events_of_def kNoneEvent_def dest: fun_cong [of _ _ "next_chan w"])
  ultimately show ?thesis using w'
    by (auto simp: make_reactor_def Let_def built_def older_kept_def fresh_reactor_def put_reactor_def store_def)
qed

lemma older_kept_on_server [simp]:
  "older_kept (on_server f w) w' = older_kept w w'" "older_kept w (on_server f w') = older_kept w w'"
  "built pf me (on_server f w) r = built pf me w r" "next_rptr (on_server f w) = next_rptr w"
  by (simp_all add: older_kept_def built_def on_server_def)

lemma start_sub_reactors_law:
  assumes "resources_ok b"
  shows "\<exists>w'. ofold (\<lambda>_. start_sub_reactor b me) xs w = Inr w' \<and> older_kept w w' \<and>
     next_rptr w' = next_rptr w + length xs \<and>
     (\<forall>r \<in> {next_rptr w..<next_rptr w + length xs}. built (platform b) me w' r) \<and>
     server w' = (server w)\<lparr>sub_reactors := sub_reactors (server w) @ [next_rptr w..<next_rptr w + length xs],
       reactor_threads := reactor_threads (server w) @ [next_rptr w..<next_rptr w + length xs]\<rparr>"
proof (induction xs arbitrary: w)
  case (Cons x xs)
  let ?r = "next_rptr w" and ?grow = "\<lambda>s. s\<lparr>sub_reactors := sub_reactors s @ [next_rptr w],
      reactor_threads := reactor_threads s @ [next_rptr w]\<rparr>"
  obtain v where v: "make_reactor b me w = Inr (?r, v)" "built (platform b) me v ?r" "older_kept w v"
    "next_rptr v = Suc ?r" "server v = server w" using make_reactor_law [OF assms] by blast
  let ?v = "on_server ?grow v"
  from Cons.IH [of ?v] obtain w' where
    w': "ofold (\<lambda>_. start_sub_reactor b me) xs ?v = Inr w'" "older_kept v w'"
      "next_rptr w' = Suc ?r + length xs" "\<forall>r \<in> {Suc ?r..<Suc ?r + length xs}. built (platform b) me w' r"
      "server w' = (?grow (server w))\<lparr>sub_reactors := sub_reactors (server w) @ [?r] @ [Suc ?r..<Suc ?r + length xs],
         reactor_threads := reactor_threads (server w) @ [?r] @ [Suc ?r..<Suc ?r + length xs]\<rparr>"
    using v(4,5) by auto
  have "built (platform b) me w' r" if "r \<in> {?r..<?r + length (x # xs)}" for r
    using that w'(4) built_older [OF w'(2) v(2)] by (cases "r = ?r") auto
  moreover have "[?r..<?r + length (x # xs)] = ?r # [Suc ?r..<Suc ?r + length xs]"
    by (simp add: upt_conv_Cons del: upt_Suc)
  moreover have "ofold (\<lambda>_. start_sub_reactor b me) (x # xs) w = Inr w'"
    using v(1) w'(1) by (simp add: start_sub_reactor_def)
  ultimately show ?case
    using w' older_kept_trans [OF v(3) w'(2)] by (intro exI [of _ w']) (simp del: upt_Suc)
qed (simp add: older_kept_def)

text \<open>
  The server's old main reactor, if it has one, can be destroyed by the thread that starts it
  again.
\<close>

definition restartable :: "'k build \<Rightarrow> thread_id \<Rightarrow> ('k, 'm, 'u, 'z) snet_scheme \<Rightarrow> bool" where
  "restartable b me w \<longleftrightarrow> \<not> running (server w) \<and> (\<forall>old. main_reactor (server w) = Some old \<longrightarrow>
     old < next_rptr w \<and> (\<exists>R ch. reactors w old = Some R \<and> may_touch b me R \<and>
       r_wakeup_channel R < next_chan w \<and> heap w (r_wakeup_channel R) = Some ch \<and> ch_reactor ch = old))"

lemma snet_more:
  assumes "rnet.more w' = rnet.more w"
  shows "server w' = server w" "conns w' = conns w" "next_conn w' = next_conn w" "next_rptr w' = next_rptr w"
  using assms by (cases w; cases w'; simp)+

lemma replace_main_law:
  assumes "resources_ok b" and "restartable b me w"
  shows "\<exists>v w'. make_reactor b me w = Inr (next_rptr w, v) \<and>
     (case main_reactor (server v) of None \<Rightarrow> Inr v | Some old \<Rightarrow> destroy_reactor b me old v) = Inr w' \<and>
     built (platform b) me w' (next_rptr w) \<and> server w' = server w \<and> conns w' = conns w \<and> next_rptr w' = Suc (next_rptr w)"
proof -
  let ?r = "next_rptr w"
  obtain v where v: "make_reactor b me w = Inr (?r, v)" "built (platform b) me v ?r" "older_kept w v"
    "next_rptr v = Suc ?r" "server v = server w" using make_reactor_law [OF assms(1)] by blast
  have cs: "conns v = conns w" using v(3) by (simp add: older_kept_def)
  show ?thesis
  proof (cases "main_reactor (server w)")
    case (Some old)
    then obtain R ch where old: "old < ?r" "reactors v old = Some R" "may_touch b me R"
      "r_wakeup_channel R < next_chan w" "heap v (r_wakeup_channel R) = Some ch" "ch_reactor ch = old"
      using assms(2) v(3) by (fastforce simp: restartable_def older_kept_def)
    from destroy_reactor_law [OF old(2,3,5,6)] obtain w' where
      w': "destroy_reactor b me old v = Inr w'" "heap w' = (heap v)(r_wakeup_channel R := None)"
        "reactors w' = (reactors v)(old := None)" "next_chan w' = next_chan v" "rnet.more w' = rnet.more v" by blast
    obtain Q ch' where Q: "reactors v ?r = Some Q" "heap v (r_wakeup_channel Q) = Some ch'" "ch_reactor ch' = ?r"
      using v(2) by (auto simp: built_def)
    have "r_wakeup_channel Q \<noteq> r_wakeup_channel R" using Q old by auto
    then have "built (platform b) me w' ?r" using v(2) w'(2-4) old(1) Q snet_more(4) [OF w'(5)] by (auto simp: built_def)
    with v cs w'(1) snet_more [OF w'(5)] Some show ?thesis by auto
  qed (use v cs in auto)
qed

lemma start_law:
  assumes "restartable b me w" and "open_listener b w = (None, w1)" and "resources_ok b"
    and "n = nat (sint (thread_num (server w)))" and "ids = [Suc (next_rptr w)..<Suc (next_rptr w) + n]"
  shows "\<exists>w' c ch. start b me w = Inr (True, w') \<and> running (server w') \<and>
     thread_num (server w') = thread_num (server w) \<and> next_reactor (server w') = next_reactor (server w) \<and>
     conns w' = conns w \<and> connections (server w') = connections (server w) \<and>
     connections_locked (server w') = connections_locked (server w) \<and>
     main_reactor (server w') = Some (next_rptr w) \<and> main_thread (server w') = Some (next_rptr w) \<and>
     sub_reactors (server w') = sub_reactors (server w) @ ids \<and>
     reactor_threads (server w') = reactor_threads (server w) @ ids \<and>
     (\<forall>r \<in> insert (next_rptr w) (set ids). \<exists>R. reactors w' r = Some R \<and> fresh_reactor me (r_wakeup_channel R) R) \<and>
     (\<forall>r \<in> set ids. built (platform b) me w' r) \<and>
     accept_channel (server w') = Some c \<and> heap w' c = Some ch \<and> ch_reactor ch = next_rptr w \<and>
     ch_fd ch = listen_fd (server w') \<and> ch_events ch = kReadEvent (platform b) \<and> read_callback ch = Some OnAccept"
proof -
  let ?r = "next_rptr w"
  obtain fd k where w1: "w1 = on_server (\<lambda>s. s\<lparr>listen_fd := fd\<rparr>) (w\<lparr>kernel := k\<rparr>)"
    using open_listener_frame [of b w] assms(2) by auto
  have "restartable b me w1" using assms(1) w1 by (simp add: restartable_def on_server_def)
  from replace_main_law [OF assms(3) this] w1 obtain v w2 where
    w2: "make_reactor b me w1 = Inr (?r, v)"
      "(case main_reactor (server v) of None \<Rightarrow> Inr v | Some old \<Rightarrow> destroy_reactor b me old v) = Inr w2"
      "built (platform b) me w2 ?r" "server w2 = (server w)\<lparr>listen_fd := fd\<rparr>" "next_rptr w2 = Suc ?r" "conns w2 = conns w" by auto
  let ?w3 = "on_server (\<lambda>s. s\<lparr>main_reactor := Some ?r\<rparr>) w2"
  from start_sub_reactors_law [OF assms(3), of me "[0..<n]" ?w3] w2(4,5) assms(5) obtain w4 where
    w4: "ofold (\<lambda>_. start_sub_reactor b me) [0..<n] ?w3 = Inr w4" "older_kept w2 w4"
      "\<forall>r \<in> set ids. built (platform b) me w4 r"
      "server w4 = (server w)\<lparr>listen_fd := fd, main_reactor := Some ?r,
         sub_reactors := sub_reactors (server w) @ ids, reactor_threads := reactor_threads (server w) @ ids\<rparr>"
    by (auto simp del: upt_Suc)
  have main: "built (platform b) me w4 ?r" using built_older [OF w4(2) w2(3)] .
  let ?c = "next_chan w4" and ?ch = "setReadCallback OnAccept (new_channel ?r fd)"
  let ?w5 = "on_server (\<lambda>s. s\<lparr>accept_channel := Some ?c\<rparr>) ((store ?c ?ch w4)\<lparr>next_chan := Suc ?c\<rparr>)"
  obtain R where R: "reactors w4 ?r = Some R" "fresh_reactor me (r_wakeup_channel R) R"
    using main by (auto simp: built_def)
  have ch: "heap ?w5 ?c = Some ?ch" "ch_reactor ?ch = ?r" "reactors ?w5 (ch_reactor ?ch) = Some R" "may_touch b me R"
    using R by (simp_all add: setReadCallback_def new_channel_def may_touch_def fresh_reactor_def isInLoopThread_def)
  from change_interest_shape [OF ch(1,3,4), of EnableReading] ch(2) obtain p i k' where
    w6: "change_interest b me EnableReading ?c ?w5 = Inr (put_reactor ?r (R\<lparr>r_poller := p\<rparr>)
      (store ?c (setIndex i (set_interest (platform b) EnableReading ?ch)) (?w5\<lparr>kernel := k'\<rparr>)))" by auto
  let ?w6 = "put_reactor ?r (R\<lparr>r_poller := p\<rparr>)
      (store ?c (setIndex i (set_interest (platform b) EnableReading ?ch)) (?w5\<lparr>kernel := k'\<rparr>))"
  let ?w' = "on_server (\<lambda>s. s\<lparr>running := True, main_thread := Some ?r\<rparr>) ?w6"
  have "\<exists>R. reactors ?w' r = Some R \<and> fresh_reactor me (r_wakeup_channel R) R" if "r \<in> insert ?r (set ids)" for r
    using that R w4(3) by (auto simp: built_def fresh_reactor_def)
  moreover have "built (platform b) me ?w' r" if "r \<in> set ids" for r
  proof -
    have "r \<noteq> ?r" using that assms(5) by auto
    moreover have "built (platform b) me w4 r" using that w4(3) by blast
    ultimately show ?thesis by (fastforce simp: built_def put_reactor_def store_def on_server_def)
  qed
  moreover have "start b me w = Inr (True, ?w')"
    using assms(1,2,4) w2 w4(1,4) w6
    by (simp add: start_def restartable_def alloc_channel_def Let_def)
  moreover have "server ?w' = (server w4)\<lparr>accept_channel := Some ?c, running := True, main_thread := Some ?r\<rparr>"
    by (simp add: put_reactor_def store_def)
  moreover have "ch_events (set_interest (platform b) EnableReading ?ch) = kReadEvent (platform b)"
    by (cases "platform b") (simp_all add: setReadCallback_def new_channel_def)
  moreover have "conns ?w' = conns w" using w4(2) w2(6) by (simp add: older_kept_def put_reactor_def store_def)
  ultimately show ?thesis
    using w4(4) by (intro exI [of _ ?w'] exI [of _ ?c] exI) (auto simp: setReadCallback_def new_channel_def set_interest_def setIndex_def)
qed

text \<open>
  The first start of a server whose socket listens and whose system has the resources
  builds the pool the round robin relies on: one reactor per thread, all of them new, empty
  and bound to the thread that called \<^verbatim>\<open>start()\<close> (not to the threads that loop them), and a
  channel of the main reactor that waits for clients on the listening descriptor.
\<close>

theorem start_builds_pool:
  assumes "\<not> running (server w)" and "main_reactor (server w) = None" and "sub_reactors (server w) = []"
    and "open_listener b w = (None, w1)" and "resources_ok b" and "0 < sint (thread_num (server w))"
  shows "\<exists>w' m c ch. start b me w = Inr (True, w') \<and> running (server w') \<and> wf_pool (server w') \<and>
     main_reactor (server w') = Some m \<and> main_thread (server w') = Some m \<and>
     reactor_threads (server w') = reactor_threads (server w) @ sub_reactors (server w') \<and>
     (\<forall>r \<in> insert m (set (sub_reactors (server w'))).
        \<exists>R. reactors w' r = Some R \<and> r_thread_id R = me \<and> \<not> r_quit R \<and> r_pending_tasks R = []) \<and>
     accept_channel (server w') = Some c \<and> heap w' c = Some ch \<and> ch_reactor ch = m \<and>
     ch_fd ch = listen_fd (server w') \<and> ch_events ch = kReadEvent (platform b) \<and> read_callback ch = Some OnAccept"
proof -
  have "restartable b me w" using assms(1,2) by (simp add: restartable_def)
  from start_law [OF this assms(4,5) refl refl] assms(3,6) show ?thesis
    unfolding wf_pool_def fresh_reactor_def by (auto simp del: upt_Suc) fastforce+
qed

text \<open>
  C32: a server that is started again after a stop keeps the reactors of the first start in front
  of the vector and still takes the remainder by the number of threads: whatever the counter,
  a new connection is given to a reactor of the first start, never to one of the new ones.
\<close>

theorem restart_deals_to_old_reactors:
  assumes "restartable b me w" and "wf_pool (server w)" and "open_listener b w = (None, w1)" and "resources_ok b"
    and "0 \<le> sint c"
  shows "\<exists>w' r s. start b me w = Inr (True, w') \<and>
     length (sub_reactors (server w')) = 2 * length (sub_reactors (server w)) \<and>
     choose_reactor ((server w')\<lparr>next_reactor := c\<rparr>) = Inr (r, s) \<and> r \<in> set (sub_reactors (server w))"
proof -
  let ?n = "nat (sint (thread_num (server w)))"
  have n: "?n = length (sub_reactors (server w))" "0 < ?n" "sint (thread_num (server w)) = int ?n"
    "thread_num (server w) \<noteq> 0" using assms(2) wf_pool_pos [OF assms(2)] by (auto simp: wf_pool_def)
  from start_law [OF assms(1,3,4) refl refl] obtain w' where
    w': "start b me w = Inr (True, w')" "thread_num (server w') = thread_num (server w)"
      "sub_reactors (server w') = sub_reactors (server w) @ [Suc (next_rptr w)..<Suc (next_rptr w) + ?n]" by blast
  let ?i = "sint c mod int ?n"
  have i: "0 \<le> ?i" "?i < int ?n" using n(2) by simp_all
  then have "nat ?i < length (sub_reactors (server w))" using n(1) by linarith
  then have "sub_reactors (server w') ! nat ?i \<in> set (sub_reactors (server w))"
    unfolding w'(3) by (simp add: nth_append)
  moreover have "choose_reactor ((server w')\<lparr>next_reactor := c\<rparr>) =
      Inr (sub_reactors (server w') ! nat ?i, (server w')\<lparr>next_reactor := c + 1\<rparr>)"
    using i n w'(2,3) assms(5) cpp_rem_nonneg [OF assms(5), of "int ?n"]
    by (simp add: choose_reactor_def Let_def)
      (use pos_mod_bound [of "int (length (sub_reactors (server w)))" "sint c"] n(1,2) in linarith)
  moreover have "length (sub_reactors (server w')) = 2 * length (sub_reactors (server w))"
    using w'(3) n(1) by (simp del: upt_Suc)
  ultimately show ?thesis using w'(1) by blast
qed

section \<open>Stopping\<close>

text \<open>A reactor that thread \<open>me\<close> may destroy.\<close>

definition destroyable :: "'k build \<Rightarrow> thread_id \<Rightarrow> ('k, 'm, 'u, 'z) snet_scheme \<Rightarrow> reactor_ptr \<Rightarrow> bool" where
  "destroyable b me w r \<longleftrightarrow> (\<exists>R ch. reactors w r = Some R \<and> may_touch b me R \<and>
     heap w (r_wakeup_channel R) = Some ch \<and> ch_reactor ch = r)"

text \<open>The connections are untouched; reactors stay alive, destroyable, and once told to quit so.\<close>

definition pool_kept :: "'k build \<Rightarrow> thread_id \<Rightarrow> ('k, 'm, 'u, 'z) snet_scheme \<Rightarrow> ('k, 'm, 'u, 'z) snet_scheme \<Rightarrow> bool" where
  "pool_kept b me w w' \<longleftrightarrow> conns w' = conns w \<and>
     (\<forall>r. reactors w r \<noteq> None \<longrightarrow> reactors w' r \<noteq> None) \<and>
     (\<forall>r. destroyable b me w r \<longrightarrow> destroyable b me w' r) \<and>
     (\<forall>r. quit_flag r w = Some True \<longrightarrow> quit_flag r w' = Some True)"

lemma pool_kept_refl [simp]: "pool_kept b me w w"
  by (simp add: pool_kept_def)

lemma pool_kept_trans: "pool_kept b me u v \<Longrightarrow> pool_kept b me v w \<Longrightarrow> pool_kept b me u w"
  by (simp add: pool_kept_def)

lemma pool_on_server [simp]:
  "destroyable b me (on_server f w) r = destroyable b me w r" "quit_flag r (on_server f w) = quit_flag r w"
  by (simp_all add: destroyable_def quit_flag_def)

lemma pool_kept_on_server [simp]:
  "pool_kept b me (on_server f w) w' = pool_kept b me w w'" "pool_kept b me w (on_server f w') = pool_kept b me w w'"
  by (simp_all add: pool_kept_def destroyable_def quit_flag_def)

text \<open>
  What is assumed of the wait for a loop thread: it ends, and meanwhile the thread changes
  neither the server's own fields nor the connections.
\<close>

definition thread_law :: "'k build \<Rightarrow> thread_id \<Rightarrow> (reactor_ptr \<Rightarrow> ('k, 'm, 'u, 'z) world_op) \<Rightarrow> bool" where
  "thread_law b me join \<longleftrightarrow> (\<forall>r w. \<exists>w'. join r w = Inr w' \<and> server w' = server w \<and> pool_kept b me w w')"

definition acceptor_ok :: "'k build \<Rightarrow> thread_id \<Rightarrow> ('k, 'm, 'u, 'z) snet_scheme \<Rightarrow> bool" where
  "acceptor_ok b me w \<longleftrightarrow> (\<forall>c. accept_channel (server w) = Some c \<longrightarrow> (\<exists>ch R. heap w c = Some ch \<and>
     reactors w (ch_reactor ch) = Some R \<and> may_touch b me R \<and> r_wakeup_channel R \<noteq> c))"

definition pool_of :: "('m, 'u) tcp_server \<Rightarrow> reactor_ptr set" where
  "pool_of s = option.set_option (main_reactor s) \<union> set (sub_reactors s)"

definition stoppable :: "'k build \<Rightarrow> thread_id \<Rightarrow> ('k, 'm, 'u, 'z) snet_scheme \<Rightarrow> bool" where
  "stoppable b me w \<longleftrightarrow> running (server w) \<and> acceptor_ok b me w \<and> (\<forall>r \<in> pool_of (server w). reactors w r \<noteq> None)"

text \<open>The server's own fields after a stop, the table apart.\<close>

definition at_rest :: "('m, 'u) tcp_server \<Rightarrow> ('m, 'u) tcp_server" where
  "at_rest s = s\<lparr>running := False, accept_channel := None, listen_fd := min (listen_fd s) (- 1),
     main_thread := None, reactor_threads := []\<rparr>"

lemma quit_law:
  assumes "reactors w r \<noteq> None"
  shows "\<exists>w'. quit b me r w = Inr w' \<and> server w' = server w \<and> quit_flag r w' = Some True \<and> pool_kept b me w w'"
proof -
  obtain R where R: "reactors w r = Some R" using assms by auto
  let ?w = "put_reactor r (R\<lparr>r_quit := True\<rparr>) w"
  obtain k where "quit b me r w = Inr (?w\<lparr>kernel := k\<rparr>)"
  proof (cases "isInLoopThread me R")
    case True
    then have "quit b me r w = Inr (?w\<lparr>kernel := kernel w\<rparr>)"
      using R by (simp add: quit_def isInLoopThread_def put_reactor_def)
    then show thesis by (rule that)
  qed (use R that in \<open>auto simp: quit_def isInLoopThread_def wakeup_Some\<close>)
  with R show ?thesis
    by (auto simp: pool_kept_def destroyable_def quit_flag_def put_reactor_def may_touch_def isInLoopThread_def)
qed

lemma quit_all_law:
  assumes "\<forall>r \<in> set rs. reactors w r \<noteq> None"
  shows "\<exists>w'. ofold (quit b me) rs w = Inr w' \<and> server w' = server w \<and>
     (\<forall>r \<in> set rs. quit_flag r w' = Some True) \<and> pool_kept b me w w'"
  using assms
proof (induction rs arbitrary: w)
  case (Cons r rs)
  then obtain v where v: "quit b me r w = Inr v" "server v = server w" "quit_flag r v = Some True" "pool_kept b me w v"
    using quit_law [of w r b me] by auto
  with Cons.prems have "\<forall>r \<in> set rs. reactors v r \<noteq> None" by (auto simp: pool_kept_def)
  from Cons.IH [OF this] v show ?case by (auto simp: pool_kept_def)
qed simp

lemma join_all_law:
  assumes "thread_law b me join"
  shows "\<exists>w'. ofold join rs w = Inr w' \<and> server w' = server w \<and> pool_kept b me w w'"
proof (induction rs arbitrary: w)
  case (Cons r rs)
  obtain v where "join r w = Inr v" "server v = server w" "pool_kept b me w v"
    using assms unfolding thread_law_def by blast
  with Cons.IH [of v] show ?case by (auto intro: pool_kept_trans)
qed simp

lemma pool_kept_free:
  assumes "heap w c = Some ch" and "reactors w (ch_reactor ch) = Some R" and "r_wakeup_channel R \<noteq> c"
    and "reactors v = (reactors w)(ch_reactor ch \<mapsto> R\<lparr>r_poller := p\<rparr>)" and "heap v = (heap w)(c := None)"
    and "conns v = conns w"
  shows "pool_kept b me w v"
proof -
  have "destroyable b me v r" if r: "destroyable b me w r" for r
  proof -
    obtain Q ch' where Q: "reactors w r = Some Q" "may_touch b me Q" "heap w (r_wakeup_channel Q) = Some ch'" "ch_reactor ch' = r"
      using r by (auto simp: destroyable_def)
    with assms(1-3) have "r_wakeup_channel Q \<noteq> c" by auto
    with Q assms(2,4,5) show ?thesis
      by (cases "r = ch_reactor ch") (auto simp: destroyable_def may_touch_def isInLoopThread_def)
  qed
  with assms(2,4,6) show ?thesis by (simp add: pool_kept_def quit_flag_def)
qed

lemma close_acceptor_law:
  assumes "acceptor_ok b me w"
  shows "\<exists>w'. close_acceptor b me w = Inr w' \<and> pool_kept b me w w' \<and>
     server w' = (server w)\<lparr>accept_channel := None, listen_fd := min (listen_fd (server w)) (- 1)\<rparr>"
proof -
  have "\<exists>v. (case accept_channel (server w) of None \<Rightarrow> Inr w
      | Some c \<Rightarrow> obind (change_interest b me DisableAll c w) (\<lambda>w.
          obind (channel_remove b me c w) (\<lambda>w.
          obind (destroy_channel b c w) (\<lambda>w.
            Inr (on_server (\<lambda>s. s\<lparr>accept_channel := None\<rparr>) w))))) = Inr v \<and>
      pool_kept b me w v \<and> server v = (server w)\<lparr>accept_channel := None\<rparr>"
  proof (cases "accept_channel (server w)")
    case (Some c)
    then obtain ch R where c: "heap w c = Some ch" "reactors w (ch_reactor ch) = Some R" "may_touch b me R"
      "r_wakeup_channel R \<noteq> c" using assms by (auto simp: acceptor_ok_def)
    from retire_shape [OF c(1-3)] obtain w1 p ch' k where
      "change_interest b me DisableAll c w = Inr w1"
      "channel_remove b me c w1 = Inr (put_reactor (ch_reactor ch) (R\<lparr>r_poller := p\<rparr>) (store c ch' (w\<lparr>kernel := k\<rparr>)))"
      "\<not> isReading (platform b) ch' \<and> \<not> isWriting (platform b) ch'" by blast
    moreover let ?v = "on_server (\<lambda>s. s\<lparr>accept_channel := None\<rparr>) (w\<lparr>kernel := k, heap := (heap w)(c := None),
        reactors := (reactors w)(ch_reactor ch \<mapsto> R\<lparr>r_poller := p\<rparr>)\<rparr>)"
    have "pool_kept b me w ?v" by (rule pool_kept_free [OF c(1,2,4)]) simp_all
    ultimately show ?thesis using Some
      by (intro exI [of _ ?v]) (simp add: destroy_channel_def deref_def put_reactor_def store_def on_server_def)
  qed auto
  then obtain v where "close_acceptor b me w = Inr (if listen_fd (server v) \<ge> 0
       then on_server (\<lambda>s. s\<lparr>listen_fd := - 1\<rparr>) (v\<lparr>kernel := sys_close (os b) (listen_fd (server v)) (kernel v)\<rparr>) else v)"
    "pool_kept b me w v" "server v = (server w)\<lparr>accept_channel := None\<rparr>"
    by (auto simp: close_acceptor_def)
  then show ?thesis
    by (auto simp: pool_kept_def destroyable_def quit_flag_def min_def on_server_def)
qed

lemma quit_main_law:
  assumes "\<forall>r \<in> option.set_option (main_reactor (server w)). reactors w r \<noteq> None" and "thread_law b me join"
  shows "\<exists>w'. obind (case main_reactor (server w) of None \<Rightarrow> Inr w | Some r \<Rightarrow> quit b me r w) (\<lambda>w.
       case main_thread (server w) of None \<Rightarrow> Inr w
       | Some r \<Rightarrow> obind (join r w) (\<lambda>w. Inr (on_server (\<lambda>s. s\<lparr>main_thread := None\<rparr>) w))) = Inr w' \<and>
     pool_kept b me w w' \<and> server w' = (server w)\<lparr>main_thread := None\<rparr> \<and>
     (\<forall>r \<in> option.set_option (main_reactor (server w)). quit_flag r w' = Some True)"
proof -
  obtain v where v: "(case main_reactor (server w) of None \<Rightarrow> Inr w | Some r \<Rightarrow> quit b me r w) = Inr v"
    "pool_kept b me w v" "server v = server w"
    "\<forall>r \<in> option.set_option (main_reactor (server w)). quit_flag r v = Some True"
    using assms(1) quit_law [of w _ b me] by (cases "main_reactor (server w)") auto
  show ?thesis
  proof (cases "main_thread (server w)")
    case (Some r)
    obtain u where u: "join r v = Inr u" "server u = server v" "pool_kept b me v u"
      using assms(2) unfolding thread_law_def by blast
    with v Some pool_kept_trans [OF v(2) u(3)] show ?thesis by (auto simp: pool_kept_def)
  qed (use v in auto)
qed

lemma stop_law:
  assumes "stoppable b me w" and "thread_law b me join"
  shows "\<exists>v. stop b me join on_connection w = close_all on_connection v \<and> pool_kept b me w v \<and>
     (\<forall>r \<in> pool_of (server w). quit_flag r v = Some True) \<and> server v = at_rest (server w)"
proof -
  let ?w0 = "on_server (\<lambda>s. s\<lparr>running := False\<rparr>) w"
  have "acceptor_ok b me ?w0" using assms(1) by (simp add: stoppable_def acceptor_ok_def)
  from close_acceptor_law [OF this] obtain w1 where w1: "close_acceptor b me ?w0 = Inr w1" "pool_kept b me w w1"
    "server w1 = (server w)\<lparr>running := False, accept_channel := None, listen_fd := min (listen_fd (server w)) (- 1)\<rparr>"
    by auto
  have "\<forall>r \<in> pool_of (server w). reactors w1 r \<noteq> None"
    using assms(1) w1(2) by (auto simp: stoppable_def pool_kept_def)
  then have "\<forall>r \<in> option.set_option (main_reactor (server w1)). reactors w1 r \<noteq> None" using w1(3) by (simp add: pool_of_def)
  from quit_main_law [OF this assms(2)] obtain w2 where
    w2: "obind (case main_reactor (server w1) of None \<Rightarrow> Inr w1 | Some r \<Rightarrow> quit b me r w1) (\<lambda>w.
       case main_thread (server w) of None \<Rightarrow> Inr w
       | Some r \<Rightarrow> obind (join r w) (\<lambda>w. Inr (on_server (\<lambda>s. s\<lparr>main_thread := None\<rparr>) w))) = Inr w2"
      "pool_kept b me w1 w2" "server w2 = (server w1)\<lparr>main_thread := None\<rparr>"
      "\<forall>r \<in> option.set_option (main_reactor (server w)). quit_flag r w2 = Some True" using w1(3) by auto
  have "pool_kept b me w w2" using pool_kept_trans [OF w1(2) w2(2)] .
  then have "\<forall>r \<in> set (sub_reactors (server w2)). reactors w2 r \<noteq> None"
    using assms(1) w1(3) w2(3) by (auto simp: stoppable_def pool_of_def pool_kept_def)
  from quit_all_law [OF this, of b me] obtain w3 where
    w3: "ofold (quit b me) (sub_reactors (server w2)) w2 = Inr w3" "server w3 = server w2"
      "\<forall>r \<in> set (sub_reactors (server w)). quit_flag r w3 = Some True" "pool_kept b me w2 w3"
    using w1(3) w2(3) by auto
  obtain w4 where w4: "ofold join (reactor_threads (server w3)) w3 = Inr w4" "server w4 = server w3"
    "pool_kept b me w3 w4" using join_all_law [OF assms(2)] by blast
  let ?v = "on_server (\<lambda>s. s\<lparr>reactor_threads := []\<rparr>) w4"
  have "stop b me join on_connection w = close_all on_connection ?v"
    using assms(1) w1(1) w2(1) w3(1) w4(1)
    by (auto simp: stop_def stoppable_def obind_assoc elim!: outcome_elims)
  moreover have "server ?v = at_rest (server w)" using w1(3) w2(3) w3(2) w4(2) by (simp add: at_rest_def)
  moreover have "\<forall>r \<in> pool_of (server w). quit_flag r ?v = Some True"
    using w2(4) w3(3,4) w4(3) by (auto simp: pool_of_def pool_kept_def quit_flag_def)
  moreover have "pool_kept b me w ?v"
    using pool_kept_trans [OF pool_kept_trans [OF \<open>pool_kept b me w w2\<close> w3(4)] w4(3)] by simp
  ultimately show ?thesis by blast
qed

text \<open>
  Stopping a running server, once its loop threads end: with a connected client in the table
  \<^verbatim>\<open>stop()\<close> never returns, because it closes the connections under the lock that their close
  callback takes; without one it returns, every reactor has been told to quit, the listening
  socket and the accepting channel are gone and the table is empty.
\<close>

theorem stop_outcome:
  assumes "stoppable b me w" and "thread_law b me join" and "wf_connections w"
  shows "if \<exists>p \<in> set (connections (server w)). client_connected w (snd p)
     then stop b me join on_connection w = Inl SelfDeadlock
     else \<exists>w'. stop b me join on_connection w = Inr w' \<and>
       server w' = (at_rest (server w))\<lparr>connections := [], connections_locked := False\<rparr> \<and>
       (\<forall>r \<in> pool_of (server w). quit_flag r w' = Some True)"
proof -
  obtain v where v: "stop b me join on_connection w = close_all on_connection v" "pool_kept b me w v"
    "\<forall>r \<in> pool_of (server w). quit_flag r v = Some True" "server v = at_rest (server w)"
    using stop_law [OF assms(1,2)] by blast
  have "conns v = conns w" using v(2) by (simp add: pool_kept_def)
  with assms(3) v(4) have "wf_connections v" by (simp add: wf_connections_def at_rest_def)
  from close_all_law [OF this, of on_connection] v \<open>conns v = conns w\<close> show ?thesis
    by (simp add: at_rest_def client_connected_def)
qed

lemma destroy_reactor_pool:
  assumes "destroyable b me w r"
  shows "\<exists>w'. destroy_reactor b me r w = Inr w' \<and> reactors w' = (reactors w)(r := None) \<and> server w' = server w \<and>
     (\<forall>q. q \<noteq> r \<longrightarrow> destroyable b me w q \<longrightarrow> destroyable b me w' q)"
proof -
  obtain R ch where R: "reactors w r = Some R" "may_touch b me R" "heap w (r_wakeup_channel R) = Some ch" "ch_reactor ch = r"
    using assms by (auto simp: destroyable_def)
  from destroy_reactor_law [OF this] obtain w' where
    w': "destroy_reactor b me r w = Inr w'" "heap w' = (heap w)(r_wakeup_channel R := None)"
      "reactors w' = (reactors w)(r := None)" "rnet.more w' = rnet.more w" by blast
  have "destroyable b me w' q" if q: "q \<noteq> r" "destroyable b me w q" for q
  proof -
    obtain Q ch' where Q: "reactors w q = Some Q" "may_touch b me Q" "heap w (r_wakeup_channel Q) = Some ch'" "ch_reactor ch' = q"
      using q(2) by (auto simp: destroyable_def)
    then have "r_wakeup_channel Q \<noteq> r_wakeup_channel R" using R(3,4) q(1) by auto
    with Q q(1) w'(2,3) show ?thesis by (simp add: destroyable_def)
  qed
  with w' snet_more(1) [OF w'(4)] show ?thesis by blast
qed

lemma destroy_all_law:
  assumes "distinct rs" and "\<forall>r \<in> set rs. destroyable b me w r"
  shows "\<exists>w'. ofold (destroy_reactor b me) rs w = Inr w' \<and> server w' = server w \<and>
     reactors w' = (\<lambda>r. if r \<in> set rs then None else reactors w r) \<and>
     (\<forall>q. q \<notin> set rs \<longrightarrow> destroyable b me w q \<longrightarrow> destroyable b me w' q)"
  using assms
proof (induction rs arbitrary: w)
  case (Cons r rs)
  then obtain v where v: "destroy_reactor b me r w = Inr v" "reactors v = (reactors w)(r := None)" "server v = server w"
    "\<forall>q. q \<noteq> r \<longrightarrow> destroyable b me w q \<longrightarrow> destroyable b me v q" using destroy_reactor_pool [of b me w r] by auto
  from Cons.prems v(4) have "distinct rs" "\<forall>q \<in> set rs. destroyable b me v q" by auto
  from Cons.IH [OF this] v show ?case by (auto simp: fun_eq_iff)
qed auto


section \<open>Examples\<close>

text \<open>
  A kernel that hands out ascending descriptors and knows which are open; \<open>bound\<close> says
  whether the address can be bound.
\<close>

definition desk_build :: "bool \<Rightarrow> (int \<times> int set) build" where
  "desk_build bound = \<lparr>os = failing_os\<lparr>
     sys_socket := (\<lambda>(n, S). if n \<in> S \<or> n < 0 then (- 1, n, S) else (n, n + 1, insert n S)),
     sys_close := (\<lambda>fd (n, S). (n, S - {fd})), sys_epoll_create1 := (\<lambda>k. (3, k)), sys_eventfd := (\<lambda>k. (4, k)),
     sys_bind := (\<lambda>_ _ k. (if bound then 0 else - 1, k)), sys_listen := (\<lambda>_ k. (0, k))\<rparr>,
     ndebug = False, platform = Linux\<rparr>"

lemma desk_documented: "descriptors_documented (os (desk_build bound)) snd"
  by (auto simp: descriptors_documented_def desk_build_def failing_os_def split: if_splits)

lemma desk_resources: "resources_ok (desk_build bound)"
  by (simp add: resources_ok_def desk_build_def)

definition desk_net :: "reactor_ptr list \<Rightarrow> (int \<times> int set, unit, unit) snet" where
  "desk_net rs = \<lparr>kernel = (9, {}), heap = Map.empty, reactors = Map.empty, next_chan = 0, conns = Map.empty,
     server = (new_server ''0.0.0.0'' 8080 2 4)\<lparr>sub_reactors := rs\<rparr>, next_conn = 0, next_rptr = 20\<rparr>"

lemma desk_server: "server (desk_net rs) = (new_server ''0.0.0.0'' 8080 2 4)\<lparr>sub_reactors := rs\<rparr>"
  by (simp add: desk_net_def)

lemma desk_listens: "\<exists>w1. open_listener (desk_build True) (desk_net rs) = (None, w1)"
  by (simp add: open_listener_def listen_on_def bind_and_listen_def desk_build_def desk_net_def new_server_def
      failing_os_def Let_def)

lemma desk_refuses: "\<exists>w1. start (desk_build False) 7 (desk_net []) = Inr (False, w1)"
  by (simp add: start_def open_listener_def listen_on_def bind_and_listen_def desk_build_def desk_net_def
      new_server_def failing_os_def Let_def)

theorem start_failure_leaks_nothing_witness:
  "\<exists>w1. start (desk_build False) 7 (desk_net []) = Inr (False, w1) \<and> snd (kernel w1) = {} \<and> \<not> running (server w1)"
proof -
  obtain w1 where w1: "start (desk_build False) 7 (desk_net []) = Inr (False, w1)" using desk_refuses by blast
  from start_failure_leaks_nothing [OF desk_documented this] w1 show ?thesis by (simp add: desk_net_def)
qed

theorem start_builds_pool_witness:
  "\<exists>w'. start (desk_build True) 7 (desk_net []) = Inr (True, w') \<and> running (server w') \<and> wf_pool (server w')"
proof -
  obtain w1 where w1: "open_listener (desk_build True) (desk_net []) = (None, w1)" using desk_listens by blast
  have "\<not> running (server (desk_net []))" "main_reactor (server (desk_net [])) = None"
    "sub_reactors (server (desk_net [])) = []" "0 < sint (thread_num (server (desk_net [])))"
    by (simp_all add: desk_server new_server_def)
  from start_builds_pool [OF this(1-3) w1 desk_resources this(4), of 7] show ?thesis by blast
qed

theorem restart_deals_to_old_reactors_witness:
  "\<exists>w' r s. start (desk_build True) 7 (desk_net [10, 11]) = Inr (True, w') \<and>
     length (sub_reactors (server w')) = 4 \<and>
     choose_reactor ((server w')\<lparr>next_reactor := 5\<rparr>) = Inr (r, s) \<and> r \<in> {10, 11}"
proof -
  obtain w1 where w1: "open_listener (desk_build True) (desk_net [10, 11]) = (None, w1)" using desk_listens by blast
  have "restartable (desk_build True) 7 (desk_net [10, 11])" "wf_pool (server (desk_net [10, 11]))" "0 \<le> sint (5 :: cint)"
    by (simp_all add: restartable_def wf_pool_def desk_server new_server_def)
  from restart_deals_to_old_reactors [OF this(1,2) w1 desk_resources this(3)] show ?thesis
    by (simp add: desk_server)
qed

text \<open>A running server with one sub-reactor and one client, whose loop threads have ended.\<close>

definition pool_channel :: "reactor_ptr \<Rightarrow> chan_cb channel" where
  "pool_channel r = new_channel r (int r)"

definition pool_net :: "conn_state \<Rightarrow> (sock_kernel, unit, unit) snet" where
  "pool_net st = (srv_net st)\<lparr>heap := [1 \<mapsto> pool_channel 10, 2 \<mapsto> pool_channel 11, 3 \<mapsto> pool_channel 10],
     reactors := [10 \<mapsto> srv_reactor, 11 \<mapsto> srv_reactor\<lparr>r_wakeup_channel := 2\<rparr>],
     server := demo_server\<lparr>running := True, main_reactor := Some 10, sub_reactors := [11], reactor_threads := [11],
       main_thread := Some 10, accept_channel := Some 3, listen_fd := 5\<rparr>\<rparr>"

definition joined_at_once :: "reactor_ptr \<Rightarrow> ('k, 'm, 'u, 'z) world_op" where
  "joined_at_once r w = Inr w"

lemma pool_net_facts:
  "stoppable sock_build 7 (pool_net st)" "thread_law sock_build 7 joined_at_once" "wf_connections (pool_net st)"
  "connections (server (pool_net st)) = [(6, 2)]" "client_connected (pool_net st) 2 = (st = kConnected)"
  "pool_of (server (pool_net st)) = {10, 11}" "\<forall>r \<in> {10, 11}. destroyable sock_build 7 (pool_net st) r"
  "sub_reactors (server (pool_net st)) = [11]" "main_reactor (server (pool_net st)) = Some 10"
  by (auto simp: stoppable_def acceptor_ok_def pool_of_def destroyable_def thread_law_def joined_at_once_def pool_net_def
      srv_net_def wf_connections_def demo_server_def new_server_def srv_conn_def accepted_conn_def client_connected_def
      isConnected_def pool_channel_def new_channel_def may_touch_def isInLoopThread_def srv_reactor_def)

theorem stop_outcome_witness:
  "stop sock_build 7 joined_at_once silent_app (pool_net kConnected) = Inl SelfDeadlock \<and>
   (\<exists>w'. stop sock_build 7 joined_at_once silent_app (pool_net kDisconnected) = Inr w' \<and> connections (server w') = [])"
  using stop_outcome [OF pool_net_facts(1-3), of kConnected silent_app]
    stop_outcome [OF pool_net_facts(1-3), of kDisconnected silent_app]
  by (auto simp: pool_net_facts)


end
