(* ===== verification/ServerHandlers.thy ===== *)
theory ServerHandlers
  imports ServerProps
begin

text \<open>
  The callbacks of a connection as the server uses it: with the server's close callback and an
  application that keeps a small contract, every callback returns, changes nothing but its own
  connection (and, when it closes, the table), and what the client is sent as a result is
  nothing or the application's reply to the bytes just read.
\<close>

section \<open>Effects of the callbacks\<close>

text \<open>
  What an operation on a connection adds to its output, given as data that will reach its peer;
  the output of other sockets stays.
\<close>

definition speaks :: "('k \<Rightarrow> int \<Rightarrow> string) \<Rightarrow> conn_ptr \<Rightarrow> ('m, close_cb) tcp_connection \<Rightarrow> string \<Rightarrow>
    ('k, 'm, 'u, 'z) snet_scheme \<Rightarrow> ('k, 'm, 'u, 'z) snet_scheme \<Rightarrow> bool" where
  "speaks sent cn x d w w' \<longleftrightarrow> stream_of sent cn w' = stream_of sent cn w @ d \<and>
     (\<forall>fd. fd \<noteq> sockfd x \<longrightarrow> sent (kernel w') fd = sent (kernel w) fd)"

text \<open>
  What is asked of the message callback: it may change the connection's buffers, not what it is,
  and it says nothing, or its reply to the message if the connection is connected.
\<close>

definition message_law :: "('k \<Rightarrow> int \<Rightarrow> string) \<Rightarrow> ('m \<Rightarrow> string \<Rightarrow> string) \<Rightarrow>
    ('m \<Rightarrow> conn_ptr \<Rightarrow> string \<Rightarrow> ('k, 'm, 'u, 'z) world_op) \<Rightarrow> bool" where
  "message_law sent reply on_message \<longleftrightarrow> (\<forall>m cn msg w x. conns w cn = Some x \<and> length msg \<le> kBufferSize \<longrightarrow>
     (\<exists>w' x' d. on_message m cn msg w = Inr w' \<and> net_same w w' \<and> conns w' = (conns w)(cn \<mapsto> x') \<and>
        same_conn x x' \<and> state x' = state x \<and> speaks sent cn x d w w' \<and>
        (d = [] \<or> state x = kConnected \<and> d = reply m msg)))"

text \<open>\<^verbatim>\<open>read\<close> gives at most as many bytes as it was asked for.\<close>

definition read_documented :: "'k os \<Rightarrow> bool" where
  "read_documented sys \<longleftrightarrow> (\<forall>fd m k. fst (fst (sys_read sys fd m k)) \<le> int m)"

text \<open>The bytes \<^verbatim>\<open>handleRead\<close> finds on the socket of a connection.\<close>

definition input_of :: "'k build \<Rightarrow> ('m, close_cb) tcp_connection \<Rightarrow> 'k \<Rightarrow> string" where
  "input_of b x k = (case fst (sys_read (os b) (sockfd x) kBufferSize (snd (sys_time (os b) k))) of (n, buf) \<Rightarrow>
     if n > 0 then take (nat n) buf else [])"

text \<open>A connection of the server between two events.\<close>

definition at_ease :: "('m, close_cb) tcp_connection \<Rightarrow> bool" where
  "at_ease x \<longleftrightarrow> close_callback x = Some RemoveAndNotify \<and> (message_callback x \<noteq> None \<longrightarrow> input_buffer x = [])"

lemma at_ease_same: "same_conn x x' \<Longrightarrow> input_buffer x' = input_buffer x \<Longrightarrow> at_ease x' = at_ease x"
  by (simp add: same_conn_def at_ease_def)

text \<open>A call for a connection that returns, has the effect above and says something of \<open>D\<close>.\<close>

definition handled :: "('k \<Rightarrow> int \<Rightarrow> string) \<Rightarrow> conn_ptr \<Rightarrow> ('m, close_cb) tcp_connection \<Rightarrow> string set \<Rightarrow>
    ('k, 'm, 'u, 'z) snet_scheme \<Rightarrow> ('k, 'm, 'u, 'z) snet_scheme outcome \<Rightarrow> bool" where
  "handled sent cn x D w m \<longleftrightarrow> (\<exists>w' x' d. m = Inr w' \<and> conn_effect cn x x' w w' \<and> at_ease x' \<and>
     speaks sent cn x d w w' \<and> d \<in> D)"

lemma handledI:
  assumes "m = Inr w'" and "conn_effect cn x x' w w'" and "at_ease x'" and "speaks sent cn x d w w'" and "d \<in> D"
  shows "handled sent cn x D w m"
  using assms unfolding handled_def by blast

lemma handled_mono: "handled sent cn x D w m \<Longrightarrow> D \<subseteq> E \<Longrightarrow> handled sent cn x E w m"
  unfolding handled_def by blast

text \<open>Nothing is said by changing the buffers of input, and by calls that leave the output alone.\<close>

lemma speaks_quiet:
  assumes "conns w cn = Some x" and "conns w' cn = Some y" and "sockfd y = sockfd x"
    and "output_buffer y = output_buffer x" and "sent (kernel w') = sent (kernel w)"
  shows "speaks sent cn x [] w w'"
  using assms by (simp add: speaks_def stream_of_def)

lemma handled_quiet:
  assumes "conns w cn = Some x" and "at_ease x" and "same_conn x y" and "state y = state x"
    and "input_buffer y = input_buffer x" and "output_buffer y = output_buffer x" and "sent k = sent (kernel w)"
  shows "handled sent cn x {[]} w (Inr (w\<lparr>kernel := k, conns := (conns w)(cn \<mapsto> y)\<rparr>))"
proof (rule handledI [OF refl])
  show "conn_effect cn x y w (w\<lparr>kernel := k, conns := (conns w)(cn \<mapsto> y)\<rparr>)"
    using assms(3,4) by (simp add: conn_effect_def)
  show "at_ease y" using at_ease_same [OF assms(3,5)] assms(2) by simp
  show "speaks sent cn x [] w (w\<lparr>kernel := k, conns := (conns w)(cn \<mapsto> y)\<rparr>)"
    by (rule speaks_quiet [OF assms(1), of _ y]) (use assms(3,6,7) in \<open>simp_all add: same_conn_def\<close>)
qed simp

text \<open>A handler that first changes time stamp, input buffer and kernel, then goes on.\<close>

lemma handled_after:
  assumes "handled sent cn y D (w\<lparr>kernel := k, conns := (conns w)(cn \<mapsto> y)\<rparr>) m"
    and "conns w cn = Some x" and "same_conn x y" and "state y = state x" and "output_buffer y = output_buffer x"
    and "sent k = sent (kernel w)"
  shows "handled sent cn x D w m"
proof -
  let ?v = "w\<lparr>kernel := k, conns := (conns w)(cn \<mapsto> y)\<rparr>"
  obtain w' z d where z: "m = Inr w'" "conn_effect cn y z ?v w'" "at_ease z" "speaks sent cn y d ?v w'" "d \<in> D"
    using assms(1) by (auto simp: handled_def)
  have "conn_effect cn x z w w'" by (rule conn_effect_after [OF z(2) _ _ assms(3,4)]) simp_all
  moreover have "speaks sent cn x d w w'"
    using z(4) assms(2,3,5,6) by (auto simp: speaks_def stream_of_def same_conn_def)
  ultimately show ?thesis using z(1,3,5) by (intro handledI)
qed

lemma close_handled:
  assumes "app_law on_connection" and "\<not> connections_locked (server w)" and "conns w cn = Some x" and "at_ease x"
  shows "handled sent cn x {[]} w (closeConnection (server_close on_connection) cn w)"
proof -
  have "close_callback x = Some RemoveAndNotify" using assms(4) by (simp add: at_ease_def)
  from close_effect [OF assms(1-3) this] obtain w' x' where
    w': "closeConnection (server_close on_connection) cn w = Inr w'" "conn_effect cn x x' w w'"
    "x' = (if isConnected x then x\<lparr>state := kDisconnected\<rparr> else x)" "kernel w' = kernel w" .
  show ?thesis
  proof (rule handledI [OF w'(1,2)])
    show "at_ease x'" using w'(3) assms(4) by (simp add: at_ease_def)
    have "conns w' cn = Some x'" using w'(2) by (simp add: conn_effect_def)
    then show "speaks sent cn x [] w w'"
      by (rule speaks_quiet [OF assms(3)]) (use w'(3,4) in simp_all)
  qed simp
qed

lemma handleError_handled:
  assumes "socket_documented (os b) sent" and "app_law on_connection" and "\<not> connections_locked (server w)"
    and "conns w cn = Some x" and "at_ease x"
  shows "handled sent cn x {[]} w (handleError b (server_close on_connection) cn w)"
proof -
  obtain err k where err: "sys_getsockopt_error (os b) (sockfd x) (kernel w) = (err, k)" by (rule prod.exhaust)
  let ?w = "w\<lparr>kernel := k, conns := (conns w)(cn \<mapsto> x)\<rparr>"
  have w: "?w = w\<lparr>kernel := k\<rparr>" using assms(4) by (simp add: fun_upd_idem)
  have "handleError b (server_close on_connection) cn w = closeConnection (server_close on_connection) cn ?w"
    unfolding w using assms(4) by (simp add: handleError_def err split: prod.splits)
  moreover have "handled sent cn x {[]} ?w (closeConnection (server_close on_connection) cn ?w)"
    by (rule close_handled [OF assms(2)]) (use assms(3,5) in simp_all)
  ultimately show ?thesis
    using handled_after [OF _ assms(4), of sent x] socket_quiet(3) [OF assms(1) err] by (simp add: same_conn_def)
qed

lemma handleWrite_handled:
  assumes doc: "socket_documented (os b) sent" and app: "app_law on_connection"
    and free: "\<not> connections_locked (server w)" and x: "conns w cn = Some x" and ease: "at_ease x"
  shows "handled sent cn x {[]} w (handleWrite b (server_close on_connection) cn w)"
proof -
  obtain t k0 where t: "sys_time (os b) (kernel w) = (t, k0)" by (rule prod.exhaust)
  obtain n k where wr: "sys_write (os b) (sockfd x) (output_buffer x) k0 = (n, k)" by (rule prod.exhaust)
  note out = socket_quiet(1) [OF doc t] socket_write [OF doc wr]
  let ?x = "x\<lparr>last_active_time := t\<rparr>"
  let ?w = "\<lambda>k y. w\<lparr>kernel := k, conns := (conns w)(cn \<mapsto> y)\<rparr>"
  note run = handleWrite_def updateLastActiveTime_eq [OF x] t wr Let_def
  consider "output_buffer x = []" | "output_buffer x \<noteq> []" "n > 0" | "output_buffer x \<noteq> []" "\<not> n > 0" by blast
  then show ?thesis
  proof cases
    case 1
    with x handled_quiet [OF x ease, of ?x sent k0] out show ?thesis by (simp add: run same_conn_def)
  next
    case 2
    let ?y = "?x\<lparr>output_buffer := drop (nat n) (output_buffer x)\<rparr>"
    have m: "handleWrite b (server_close on_connection) cn w = Inr (?w k ?y)" using 2 x by (simp add: run)
    have "speaks sent cn x [] w (?w k ?y)"
      using 2 x out by (simp add: speaks_def stream_of_def)
    moreover have "conn_effect cn x ?y w (?w k ?y)" by (simp add: conn_effect_def same_conn_def)
    moreover have "at_ease ?y" using ease by (simp add: at_ease_def)
    ultimately show ?thesis using m by (intro handledI) simp_all
  next
    case 3
    then have k: "sent k = sent (kernel w)" using out by (auto split: if_splits)
    have "handled sent cn ?x {[]} (?w k ?x) (handleError b (server_close on_connection) cn (?w k ?x))"
      by (rule handleError_handled [OF doc app]) (use free ease in \<open>simp_all add: at_ease_def\<close>)
    then have "handled sent cn x {[]} w (handleError b (server_close on_connection) cn (?w k ?x))"
      by (rule handled_after [OF _ x]) (use k in \<open>simp_all add: same_conn_def\<close>)
    moreover have "handled sent cn x {[]} w (Inr (?w k ?x))"
      by (rule handled_quiet [OF x ease]) (use k in \<open>simp_all add: same_conn_def\<close>)
    ultimately show ?thesis using 3 x by (simp add: run)
  qed
qed

lemma handleRead_message:
  assumes doc: "socket_documented (os b) sent" and msg: "message_law sent reply on_message"
    and x: "conns w cn = Some x" and ease: "at_ease x" and m: "message_callback x = Some m"
    and t: "sys_time (os b) (kernel w) = (t, k0)"
    and r: "sys_read (os b) (sockfd x) kBufferSize k0 = ((n, buf), k)" and n: "0 < n" "n \<le> int kBufferSize"
  shows "handled sent cn x ({[]} \<union> (if state x = kConnected then {reply m (take (nat n) buf)} else {})) w
     (handleRead b on_message (server_close on_connection) cn w)"
proof -
  let ?d = "take (nat n) buf"
  let ?y = "x\<lparr>last_active_time := t, input_buffer := ?d\<rparr>"
  let ?w = "w\<lparr>kernel := k, conns := (conns w)(cn \<mapsto> ?y)\<rparr>"
  have k: "sent k = sent (kernel w)" using socket_quiet(1) [OF doc t] socket_quiet(2) [OF doc r] by simp
  have inp: "input_buffer x = []" using m ease by (simp add: at_ease_def)
  have "conns ?w cn = Some ?y" "length ?d \<le> kBufferSize" using n by auto
  with msg obtain v z d where v: "on_message m cn ?d ?w = Inr v" "net_same ?w v" "conns v = (conns ?w)(cn \<mapsto> z)"
    "same_conn ?y z" "state z = state ?y" "speaks sent cn ?y d ?w v" "d = [] \<or> state ?y = kConnected \<and> d = reply m ?d"
    unfolding message_law_def by blast
  let ?z = "z\<lparr>input_buffer := []\<rparr>"
  let ?w' = "v\<lparr>conns := (conns v)(cn \<mapsto> ?z)\<rparr>"
  have eq: "handleRead b on_message (server_close on_connection) cn w = Inr ?w'"
    using n(1) m x inp v(1,3) by (simp add: handleRead_def updateLastActiveTime_eq [OF x] t r Let_def)
  show ?thesis unfolding eq
  proof (rule handledI [OF refl])
    show "conn_effect cn x ?z w ?w'"
      using v(2-5) by (simp add: conn_effect_def same_conn_def net_same_def)
    show "at_ease ?z" using ease v(4) by (simp add: at_ease_def same_conn_def)
    have "stream_of sent cn ?w' = stream_of sent cn v" using v(3) by (simp add: stream_of_def)
    moreover have "stream_of sent cn ?w = stream_of sent cn w" using x k by (simp add: stream_of_def)
    ultimately show "speaks sent cn x d w ?w'" using v(6) k by (simp add: speaks_def)
    show "d \<in> {[]} \<union> (if state x = kConnected then {reply m ?d} else {})" using v(7) by auto
  qed
qed

text \<open>What reading may say: nothing, or the application's reply to the bytes read.\<close>

definition replies :: "('m \<Rightarrow> string \<Rightarrow> string) \<Rightarrow> ('m, close_cb) tcp_connection \<Rightarrow> string \<Rightarrow> string set" where
  "replies reply x input = {[]} \<union> (case message_callback x of None \<Rightarrow> {}
     | Some m \<Rightarrow> if state x = kConnected then {reply m input} else {})"

lemma handleRead_handled:
  assumes doc: "socket_documented (os b) sent" and rd: "read_documented (os b)"
    and app: "app_law on_connection" and msg: "message_law sent reply on_message"
    and free: "\<not> connections_locked (server w)" and x: "conns w cn = Some x" and ease: "at_ease x"
  shows "handled sent cn x (replies reply x (input_of b x (kernel w))) w
     (handleRead b on_message (server_close on_connection) cn w)"
proof -
  obtain t k0 where t: "sys_time (os b) (kernel w) = (t, k0)" by (rule prod.exhaust)
  obtain n buf k where r: "sys_read (os b) (sockfd x) kBufferSize k0 = ((n, buf), k)" by (metis prod.exhaust)
  have n: "n \<le> int kBufferSize" using rd [unfolded read_documented_def, rule_format, of "sockfd x" kBufferSize k0] r by simp
  have k: "sent k = sent (kernel w)" using socket_quiet(1) [OF doc t] socket_quiet(2) [OF doc r] by simp
  let ?x = "x\<lparr>last_active_time := t\<rparr>" and ?D = "replies reply x (input_of b x (kernel w))"
  let ?w = "\<lambda>y. w\<lparr>kernel := k, conns := (conns w)(cn \<mapsto> y)\<rparr>"
  have some: "{[]} \<subseteq> ?D" by (simp add: replies_def)
  note run = handleRead_def updateLastActiveTime_eq [OF x] t r Let_def
  have still: "conns (?w ?x) cn = Some ?x" "\<not> connections_locked (server (?w ?x))" "at_ease ?x"
    using free ease by (simp_all add: at_ease_def)
  consider "n > 0" "message_callback x = None" | m where "n > 0" "message_callback x = Some m"
    | "n = 0" | "n < 0" by (cases "message_callback x"; cases n "0 :: int" rule: linorder_cases) auto
  then show ?thesis
  proof cases
    case 1
    let ?y = "?x\<lparr>input_buffer := input_buffer x @ take (nat n) buf\<rparr>"
    have m: "handleRead b on_message (server_close on_connection) cn w = Inr (?w ?y)" using 1 x by (simp add: run)
    have "speaks sent cn x [] w (?w ?y)" by (rule speaks_quiet [OF x, of _ ?y]) (simp_all add: k)
    moreover have "conn_effect cn x ?y w (?w ?y)" by (simp add: conn_effect_def same_conn_def)
    moreover have "at_ease ?y" using 1 ease by (simp add: at_ease_def)
    ultimately show ?thesis using m some by (intro handledI) auto
  next
    case (2 m)
    have "input_of b x (kernel w) = take (nat n) buf" using 2 by (simp add: input_of_def t r)
    then have "?D = {[]} \<union> (if state x = kConnected then {reply m (take (nat n) buf)} else {})"
      using 2 by (simp add: replies_def)
    with handleRead_message [OF doc msg x ease 2(2) t r 2(1) n] show ?thesis by simp
  next
    case 3
    then have eq: "handleRead b on_message (server_close on_connection) cn w =
        closeConnection (server_close on_connection) cn (?w ?x)" using x by (simp add: run)
    from close_handled [OF app still(2,1,3), of sent] have "handled sent cn x {[]} w
        (closeConnection (server_close on_connection) cn (?w ?x))"
      by (rule handled_after [OF _ x]) (simp_all add: same_conn_def k)
    then show ?thesis unfolding eq using some by (rule handled_mono)
  next
    case 4
    from handleError_handled [OF doc app still(2,1,3)] have "handled sent cn x {[]} w
        (handleError b (server_close on_connection) cn (?w ?x))"
      by (rule handled_after [OF _ x]) (simp_all add: same_conn_def k)
    moreover have "handled sent cn x {[]} w (Inr (?w ?x))"
      by (rule handled_quiet [OF x ease]) (simp_all add: same_conn_def k)
    ultimately have "handled sent cn x {[]} w (handleRead b on_message (server_close on_connection) cn w)"
      using 4 x by (simp add: run)
    then show ?thesis using some by (rule handled_mono)
  qed
qed

text \<open>The connection a channel's callback belongs to.\<close>

fun cb_conn :: "chan_cb \<Rightarrow> conn_ptr option" where
  "cb_conn (OnRead cn) = Some cn"
| "cb_conn (OnWrite cn) = Some cn"
| "cb_conn (OnClose cn) = Some cn"
| "cb_conn (OnError cn) = Some cn"
| "cb_conn (OnWakeup r) = None"
| "cb_conn OnAccept = None"

text \<open>What a callback of a connection may say.\<close>

fun cb_says :: "('m \<Rightarrow> string \<Rightarrow> string) \<Rightarrow> 'k build \<Rightarrow> ('m, close_cb) tcp_connection \<Rightarrow> 'k \<Rightarrow> chan_cb \<Rightarrow> string set" where
  "cb_says reply b x k (OnRead cn) = replies reply x (input_of b x k)"
| "cb_says reply b x k _ = {[]}"

lemma invoke_handled:
  assumes "socket_documented (os b) sent" and "read_documented (os b)" and "app_law on_connection"
    and "message_law sent reply on_message"
    and "\<not> connections_locked (server w)" and "conns w cn = Some x" and "at_ease x" and "cb_conn cb = Some cn"
  shows "handled sent cn x (cb_says reply b x (kernel w) cb) w (invoke b me on_message on_connection cb w)"
  using assms(8) handleRead_handled [OF assms(1-7)] handleWrite_handled [OF assms(1,3,5-7)]
    close_handled [OF assms(3,5-7)] by (cases cb) simp_all

end
