(* ===== verification/ServerThreads.thy ===== *)
theory ServerThreads
  imports ServerLife ServerHandlers
begin

text \<open>
  The threads of a running server, interleaved: the main reactor's thread accepts clients, each
  sub-reactor's thread runs the tasks queued for it and dispatches the events of its clients,
  and any thread may broadcast. A step is what one thread does between two points where another
  can come in between: accepting is two steps, because \<^verbatim>\<open>handleNewConnection\<close> hands the connection
  to its loop before it stores it in the table. The theory shows that no step fails, what holds
  of clients and table in every state, and which entries of the table are never removed.
\<close>

section \<open>Phases\<close>

text \<open>\<^verbatim>\<open>handleNewConnection\<close> up to \<^verbatim>\<open>runInLoop\<close>, and from there on.\<close>

definition queue_connection :: "'k build \<Rightarrow> thread_id \<Rightarrow> ('u \<Rightarrow> conn_ptr \<Rightarrow> ('k, 'm, 'u, 'z) world_op) \<Rightarrow>
    int \<Rightarrow> sockaddr \<Rightarrow> ('k, 'm, 'u, 'z) snet_scheme \<Rightarrow> (conn_ptr \<times> ('k, 'm, 'u, 'z) snet_scheme) outcome" where
  "queue_connection b me on_connection connfd peer w =
     obind (choose_reactor (server w)) (\<lambda>(r, s).
     let w = w\<lparr>server := s\<rparr>;
         cn = next_conn w;
         w = new_connection b cn connfd peer (w\<lparr>next_conn := Suc cn\<rparr>)
     in obind (on_conn cn (setMessageCallback (srv_message_callback s)) w) (\<lambda>w.
        obind (on_conn cn (setConnCloseCallback (Some RemoveAndNotify)) w) (\<lambda>w.
        obind (runInLoop b (run_task b me on_connection) me r (Register cn r) w) (\<lambda>w. Inr (cn, w)))))"

definition store_connection :: "int \<Rightarrow> conn_ptr \<Rightarrow> ('k, 'm, 'u, 'z) world_op" where
  "store_connection connfd cn w =
     obind (guarded (\<lambda>w. Inr (on_server (\<lambda>s. s\<lparr>connections := table_put connfd cn (connections s)\<rparr>) w)) w)
       (\<lambda>w. obind (getConnectionCount w) (\<lambda>_. Inr w))"

lemma handleNewConnection_phases:
  "handleNewConnection b me on_connection connfd peer w =
     obind (queue_connection b me on_connection connfd peer w) (\<lambda>(cn, w). store_connection connfd cn w)"
proof -
  have "obind (obind m f) (\<lambda>(cn, w). g cn w) = obind m (\<lambda>x. obind (f x) (\<lambda>(cn, w). g cn w))"
    for m :: "'x outcome" and f :: "'x \<Rightarrow> (conn_ptr \<times> ('a, 'c, 'b, 'd) snet_scheme) outcome" and g
    by (rule obind_assoc)
  then show ?thesis
    by (simp add: handleNewConnection_def queue_connection_def store_connection_def Let_def obind_assoc
        case_prod_unfold)
qed

text \<open>\<^verbatim>\<open>doPendingTasks\<close>: taking the queue, running the tasks, and the end.\<close>

definition begin_tasks :: "reactor_ptr \<Rightarrow> ('k, 'cb, 't, 'z) rnet_scheme \<Rightarrow>
    ('t list \<times> ('k, 'cb, 't, 'z) rnet_scheme) outcome" where
  "begin_tasks r w =
     obind (on_reactor r (\<lambda>R. R\<lparr>r_calling_pending_tasks := True\<rparr>) w) (\<lambda>w.
     obind (get_reactor r w) (\<lambda>R.
     obind (on_reactor r (\<lambda>R. R\<lparr>r_pending_tasks := []\<rparr>) w) (\<lambda>w. Inr (r_pending_tasks R, w))))"

definition end_tasks :: "reactor_ptr \<Rightarrow> ('k, 'cb, 't, 'z) rnet_scheme \<Rightarrow> ('k, 'cb, 't, 'z) rnet_scheme outcome" where
  "end_tasks r = on_reactor r (\<lambda>R. R\<lparr>r_calling_pending_tasks := False\<rparr>)"

lemma doPendingTasks_phases:
  "doPendingTasks run r w = obind (begin_tasks r w) (\<lambda>(ts, w). obind (ofold run ts w) (end_tasks r))"
  by (simp add: doPendingTasks_def begin_tasks_def end_tasks_def obind_assoc Let_def)

section \<open>States and events\<close>

text \<open>
  Where the main reactor's thread stands, and the tasks each sub-reactor's thread has taken from
  its queue and still has to run (\<^const>\<open>None\<close> outside \<^verbatim>\<open>doPendingTasks\<close>).
\<close>

datatype accept_pc = Waiting | Storing int conn_ptr

record ('k, 'm, 'u, 'z) sthreads =
  sworld :: "('k, 'm, 'u, 'z) snet_scheme"
  accept_at :: accept_pc
  taken :: "reactor_ptr \<Rightarrow> task list option"

datatype 'k server_event =
    Accept int sockaddr
  | Store
  | BeginTasks reactor_ptr
  | RunTask reactor_ptr
  | EndTasks reactor_ptr
  | Callback chan_cb
  | Broadcast string
  | Network 'k

text \<open>The reactor whose loop calls a connection's callback.\<close>

definition loop_of :: "('k, 'm, 'u, 'z) snet_scheme \<Rightarrow> chan_cb \<Rightarrow> reactor_ptr option" where
  "loop_of w cb = Option.bind (cb_conn cb) (\<lambda>cn. Option.bind (conns w cn) (\<lambda>x.
     Option.bind (conn_channel x) (\<lambda>c. map_option ch_reactor (heap w c))))"

text \<open>
  When an event can happen. A new client has a descriptor that no connection and no reactor has:
  sockets stay open as long as their connection exists. The counter of the round robin has not wrapped. A
  callback runs in the loop of the connection's channel, between two services of the queue.
\<close>

fun enabled :: "'k server_event \<Rightarrow> ('k, 'm, 'u, 'z) sthreads \<Rightarrow> bool" where
  "enabled (Accept fd peer) s \<longleftrightarrow> accept_at s = Waiting \<and> 0 \<le> fd \<and>
     fd \<notin> sockfd ` ran (conns (sworld s)) \<union> r_wakeup_fd ` ran (reactors (sworld s)) \<and>
     0 \<le> sint (next_reactor (server (sworld s)))"
| "enabled Store s \<longleftrightarrow> accept_at s \<noteq> Waiting"
| "enabled (BeginTasks r) s \<longleftrightarrow> r \<in> set (sub_reactors (server (sworld s))) \<and> taken s r = None"
| "enabled (RunTask r) s \<longleftrightarrow> (\<exists>t ts. taken s r = Some (t # ts))"
| "enabled (EndTasks r) s \<longleftrightarrow> taken s r = Some []"
| "enabled (Callback cb) s \<longleftrightarrow> (\<exists>r. loop_of (sworld s) cb = Some r \<and> taken s r = None)"
| "enabled (Broadcast message) s \<longleftrightarrow> int (length message) < 2 ^ 64"
| "enabled (Network k) s \<longleftrightarrow> True"

text \<open>
  What happens then. The main loop runs in thread \<open>tm\<close>, the loop of the sub-reactor \<open>r\<close> in thread
  \<open>tr r\<close>. \<open>Network\<close> is everything the kernel does by itself.
\<close>

fun server_op :: "'k build \<Rightarrow> thread_id \<Rightarrow> (reactor_ptr \<Rightarrow> thread_id) \<Rightarrow>
    ('m \<Rightarrow> conn_ptr \<Rightarrow> string \<Rightarrow> ('k, 'm, 'u, 'z) world_op) \<Rightarrow> ('u \<Rightarrow> conn_ptr \<Rightarrow> ('k, 'm, 'u, 'z) world_op) \<Rightarrow>
    'k server_event \<Rightarrow> ('k, 'm, 'u, 'z) sthreads \<Rightarrow> ('k, 'm, 'u, 'z) sthreads outcome" where
  "server_op b tm tr on_message on_connection (Accept fd peer) s =
     obind (queue_connection b tm on_connection fd peer (sworld s)) (\<lambda>(cn, w).
       Inr (s\<lparr>sworld := w, accept_at := Storing fd cn\<rparr>))"
| "server_op b tm tr on_message on_connection Store s =
     (case accept_at s of Waiting \<Rightarrow> Inr s
      | Storing fd cn \<Rightarrow> obind (store_connection fd cn (sworld s)) (\<lambda>w. Inr (s\<lparr>sworld := w, accept_at := Waiting\<rparr>)))"
| "server_op b tm tr on_message on_connection (BeginTasks r) s =
     obind (begin_tasks r (sworld s)) (\<lambda>(ts, w). Inr (s\<lparr>sworld := w, taken := (taken s)(r := Some ts)\<rparr>))"
| "server_op b tm tr on_message on_connection (RunTask r) s =
     (case taken s r of
        Some (t # ts) \<Rightarrow> obind (run_task b (tr r) on_connection t (sworld s)) (\<lambda>w.
          Inr (s\<lparr>sworld := w, taken := (taken s)(r := Some ts)\<rparr>))
      | _ \<Rightarrow> Inr s)"
| "server_op b tm tr on_message on_connection (EndTasks r) s =
     obind (end_tasks r (sworld s)) (\<lambda>w. Inr (s\<lparr>sworld := w, taken := (taken s)(r := None)\<rparr>))"
| "server_op b tm tr on_message on_connection (Callback cb) s =
     (case loop_of (sworld s) cb of None \<Rightarrow> Inr s
      | Some r \<Rightarrow> obind (invoke b (tr r) on_message on_connection cb (sworld s)) (\<lambda>w. Inr (s\<lparr>sworld := w\<rparr>)))"
| "server_op b tm tr on_message on_connection (Broadcast message) s =
     obind (broadcast b message (sworld s)) (\<lambda>w. Inr (s\<lparr>sworld := w\<rparr>))"
| "server_op b tm tr on_message on_connection (Network k) s = Inr (s\<lparr>sworld := (sworld s)\<lparr>kernel := k\<rparr>\<rparr>)"

inductive server_step :: "'k build \<Rightarrow> thread_id \<Rightarrow> (reactor_ptr \<Rightarrow> thread_id) \<Rightarrow>
    ('m \<Rightarrow> conn_ptr \<Rightarrow> string \<Rightarrow> ('k, 'm, 'u, 'z) world_op) \<Rightarrow> ('u \<Rightarrow> conn_ptr \<Rightarrow> ('k, 'm, 'u, 'z) world_op) \<Rightarrow>
    ('k, 'm, 'u, 'z) sthreads \<Rightarrow> ('k, 'm, 'u, 'z) sthreads \<Rightarrow> bool"
  for b tm tr on_message on_connection where
  happens: "enabled e s \<Longrightarrow> server_op b tm tr on_message on_connection e s = Inr t \<Longrightarrow>
     server_step b tm tr on_message on_connection s t"

inductive_cases server_stepE: "server_step b tm tr on_message on_connection s t"

text \<open>A server that has been started and has no client yet.\<close>

definition server_init :: "'k build \<Rightarrow> thread_id \<Rightarrow> (reactor_ptr \<Rightarrow> thread_id) \<Rightarrow> ('k, 'm, 'u, 'z) sthreads \<Rightarrow> bool" where
  "server_init b tm tr s \<longleftrightarrow> accept_at s = Waiting \<and> taken s = (\<lambda>_. None) \<and>
     wf_pool (server (sworld s)) \<and> conns (sworld s) = Map.empty \<and>
     connections (server (sworld s)) = [] \<and> \<not> connections_locked (server (sworld s)) \<and>
     (\<forall>r \<in> set (sub_reactors (server (sworld s))). \<exists>R. reactors (sworld s) r = Some R \<and>
        \<not> isInLoopThread tm R \<and> may_touch b (tr r) R \<and> r_pending_tasks R = [])"

section \<open>The life of a client\<close>

text \<open>The states of a connection in the order in which it goes through them.\<close>

primrec stage :: "conn_state \<Rightarrow> nat" where
  "stage kConnecting = 0"
| "stage kConnected = 1"
| "stage kDisconnecting = 2"
| "stage kDisconnected = 3"

lemma stage_inj: "stage a = stage c \<longleftrightarrow> a = c"
  by (cases a; cases c) simp_all

instantiation conn_state :: linorder
begin

definition less_eq_conn_state :: "conn_state \<Rightarrow> conn_state \<Rightarrow> bool" where
  "less_eq_conn_state a c \<longleftrightarrow> stage a \<le> stage c"

definition less_conn_state :: "conn_state \<Rightarrow> conn_state \<Rightarrow> bool" where
  "less_conn_state a c \<longleftrightarrow> stage a < stage c"

instance
  by standard (auto simp: less_eq_conn_state_def less_conn_state_def stage_inj)

end

lemma kDisconnected_top: "kDisconnected \<le> st \<longleftrightarrow> st = kDisconnected"
  by (cases st) (simp_all add: less_eq_conn_state_def)

text \<open>
  What a step may do to a client: it stays, on its descriptor, its state does not go back, and
  its entry leaves the table only when it goes from connected to disconnected.
\<close>

definition advances :: "('k, 'm, 'u, 'z) snet_scheme \<Rightarrow> ('k, 'm, 'u, 'z) snet_scheme \<Rightarrow> bool" where
  "advances w w' \<longleftrightarrow> (\<forall>cn x. conns w cn = Some x \<longrightarrow> (\<exists>x'. conns w' cn = Some x' \<and>
     sockfd x' = sockfd x \<and> state x \<le> state x' \<and>
     ((sockfd x, cn) \<in> set (connections (server w)) \<longrightarrow>
       (sockfd x, cn) \<in> set (connections (server w')) \<or> state x = kConnected \<and> state x' = kDisconnected)))"

lemma advances_same: "conns w' = conns w \<Longrightarrow> connections (server w') = connections (server w) \<Longrightarrow> advances w w'"
  by (simp add: advances_def)

lemma advances_put_reactor [simp]: "advances w (put_reactor r R w)"
  by (rule advances_same) (simp_all add: put_reactor_def)

section \<open>The invariant\<close>

text \<open>The tasks a sub-reactor still has to run: those it has taken, then those in its queue.\<close>

definition tasks_of :: "('k, 'm, 'u, 'z) sthreads \<Rightarrow> reactor_ptr \<Rightarrow> task list" where
  "tasks_of s r = (case taken s r of None \<Rightarrow> [] | Some ts \<Rightarrow> ts) @
     (case reactors (sworld s) r of None \<Rightarrow> [] | Some R \<Rightarrow> r_pending_tasks R)"

definition connecting :: "('k, 'm, 'u, 'z) snet_scheme \<Rightarrow> conn_ptr set" where
  "connecting w = {cn. \<exists>x. conns w cn = Some x \<and> state x = kConnecting}"

abbreviation pool :: "('k, 'm, 'u, 'z) sthreads \<Rightarrow> reactor_ptr set" where
  "pool s \<equiv> set (sub_reactors (server (sworld s)))"

definition pool_inv :: "'k build \<Rightarrow> thread_id \<Rightarrow> (reactor_ptr \<Rightarrow> thread_id) \<Rightarrow> ('k, 'm, 'u, 'z) sthreads \<Rightarrow> bool" where
  "pool_inv b tm tr s \<longleftrightarrow> wf_pool (server (sworld s)) \<and> (\<forall>r. taken s r \<noteq> None \<longrightarrow> r \<in> pool s) \<and>
     (\<forall>r \<in> pool s. \<exists>R. reactors (sworld s) r = Some R \<and> \<not> isInLoopThread tm R \<and> may_touch b (tr r) R)"

text \<open>
  Every connection that still connects has exactly one registration task, in the queue of one
  sub-reactor, and there are no other tasks.
\<close>

definition tasks_inv :: "('k, 'm, 'u, 'z) sthreads \<Rightarrow> bool" where
  "tasks_inv s \<longleftrightarrow>
     (\<forall>r \<in> pool s. distinct (tasks_of s r) \<and> set (tasks_of s r) \<subseteq> (\<lambda>cn. Register cn r) ` connecting (sworld s)) \<and>
     (\<forall>cn \<in> connecting (sworld s). \<exists>!r. r \<in> pool s \<and> Register cn r \<in> set (tasks_of s r))"

text \<open>A channel that waits for input of a connection and calls it.\<close>

definition serves :: "platform \<Rightarrow> conn_ptr \<Rightarrow> int \<Rightarrow> chan_cb channel \<Rightarrow> bool" where
  "serves pf cn fd ch \<longleftrightarrow> ch_fd ch = fd \<and> ch_events ch = kReadEvent pf \<and>
     read_callback ch = Some (OnRead cn) \<and> write_callback ch = Some (OnWrite cn) \<and>
     Channel.channel.close_callback ch = Some (OnClose cn) \<and> error_callback ch = Some (OnError cn)"

text \<open>
  Every connection has the server's callbacks; once it has been registered it has a channel of
  its own that waits for its input; no two connections have the same descriptor, and none has
  the wakeup descriptor of a reactor.
\<close>

definition client_ok :: "platform \<Rightarrow> ('k, 'm, 'u, 'z) snet_scheme \<Rightarrow> conn_ptr \<Rightarrow> ('m, close_cb) tcp_connection \<Rightarrow> bool" where
  "client_ok pf w cn x \<longleftrightarrow> cn < next_conn w \<and> at_ease x \<and> state x \<noteq> kDisconnecting \<and>
     (state x \<noteq> kConnecting \<longrightarrow> (\<exists>c ch. conn_channel x = Some c \<and> c < next_chan w \<and> heap w c = Some ch \<and>
        serves pf cn (sockfd x) ch))"

definition clients_inv :: "platform \<Rightarrow> ('k, 'm, 'u, 'z) snet_scheme \<Rightarrow> bool" where
  "clients_inv pf w \<longleftrightarrow> (\<forall>cn x. conns w cn = Some x \<longrightarrow> client_ok pf w cn x) \<and>
     (\<forall>cn cn' x x'. conns w cn = Some x \<and> conns w cn' = Some x' \<and> sockfd x = sockfd x' \<longrightarrow> cn = cn') \<and>
     (\<forall>cn x r R. conns w cn = Some x \<and> reactors w r = Some R \<longrightarrow> sockfd x \<noteq> r_wakeup_fd R)"

lemma clients_invI:
  assumes "\<And>cn x. conns w cn = Some x \<Longrightarrow> client_ok pf w cn x"
    and "\<And>cn cn' x x'. conns w cn = Some x \<Longrightarrow> conns w cn' = Some x' \<Longrightarrow> sockfd x = sockfd x' \<Longrightarrow> cn = cn'"
    and "\<And>cn x r R. conns w cn = Some x \<Longrightarrow> reactors w r = Some R \<Longrightarrow> sockfd x \<noteq> r_wakeup_fd R"
  shows "clients_inv pf w"
  using assms unfolding clients_inv_def by blast


text \<open>
  The table is well formed, and a client that is not disconnected is in it or is the one that the
  main reactor's thread is about to store.
\<close>

definition table_inv :: "('k, 'm, 'u, 'z) sthreads \<Rightarrow> bool" where
  "table_inv s \<longleftrightarrow> wf_connections (sworld s) \<and>
     (\<forall>fd cn. accept_at s = Storing fd cn \<longrightarrow> (\<exists>x. conns (sworld s) cn = Some x \<and> sockfd x = fd) \<and>
        fd \<notin> fst ` set (connections (server (sworld s)))) \<and>
     (\<forall>cn x. conns (sworld s) cn = Some x \<and> state x \<noteq> kDisconnected \<longrightarrow>
        (sockfd x, cn) \<in> set (connections (server (sworld s))) \<or> accept_at s = Storing (sockfd x) cn)"

definition server_inv :: "'k build \<Rightarrow> thread_id \<Rightarrow> (reactor_ptr \<Rightarrow> thread_id) \<Rightarrow> ('k, 'm, 'u, 'z) sthreads \<Rightarrow> bool" where
  "server_inv b tm tr s \<longleftrightarrow> pool_inv b tm tr s \<and> tasks_inv s \<and> clients_inv (platform b) (sworld s) \<and> table_inv s"

lemma server_init_inv: "server_init b tm tr s \<Longrightarrow> server_inv b tm tr s"
  by (fastforce simp: server_init_def server_inv_def pool_inv_def tasks_inv_def clients_inv_def table_inv_def
      tasks_of_def connecting_def wf_connections_def)

subsection \<open>Steps that leave reactors and channels alone\<close>

lemma tasks_inv_cong:
  assumes "reactors (sworld t) = reactors (sworld s)" and "taken t = taken s" and "pool t = pool s"
    and "connecting (sworld t) = connecting (sworld s)"
  shows "tasks_inv t = tasks_inv s"
  using assms by (simp add: tasks_inv_def tasks_of_def)

lemma pool_inv_cong:
  assumes "reactors (sworld t) = reactors (sworld s)" and "taken t = taken s"
    and "sub_reactors (server (sworld t)) = sub_reactors (server (sworld s))"
    and "thread_num (server (sworld t)) = thread_num (server (sworld s))"
  shows "pool_inv b tm tr t = pool_inv b tm tr s"
  using assms by (simp add: pool_inv_def wf_pool_def)

lemma connecting_effect:
  assumes "conn_effect cn x x' w w'" and "conns w cn = Some x"
  shows "connecting w' = connecting w"
  using assms by (auto simp: connecting_def conn_effect_def)

lemma clients_inv_effect:
  assumes "conn_effect cn x x' w w'" and "conns w cn = Some x" and "at_ease x'" and "clients_inv pf w"
  shows "clients_inv pf w'"
proof -
  have same: "next_conn w' = next_conn w" "next_chan w' = next_chan w" "heap w' = heap w" "reactors w' = reactors w"
    using assms(1) by (auto simp: conn_effect_def net_same_def)
  have x: "client_ok pf w cn x" using assms(2,4) by (simp add: clients_inv_def)
  have "client_ok pf w' cn x'"
    using x assms(1,3) same by (auto simp: conn_effect_def client_ok_def same_conn_def)
  moreover have "client_ok pf w' c y" if "conns w c = Some y" for c y
    using that assms(4) same by (simp add: clients_inv_def client_ok_def)
  ultimately have "client_ok pf w' c y" if "conns w' c = Some y" for c y
    using that assms(1) by (auto simp: conn_effect_def split: if_splits)
  moreover have old: "\<exists>z. conns w c = Some z \<and> sockfd z = sockfd y" if "conns w' c = Some y" for c y
    using that assms(1,2) by (auto simp: conn_effect_def same_conn_def split: if_splits)
  moreover have "sockfd y \<noteq> r_wakeup_fd R" if "conns w' c = Some y" "reactors w' r = Some R" for c y r R
    using old [OF that(1)] that(2) same(4) assms(4) unfolding clients_inv_def by metis
  moreover from old have "c = c'" if "conns w' c = Some y" "conns w' c' = Some y'" "sockfd y = sockfd y'" for c c' y y'
    using that assms(4) unfolding clients_inv_def by metis
  ultimately show ?thesis by (intro clients_invI)
qed

lemma table_inv_effect:
  assumes eff: "conn_effect cn x x' (sworld s) w'" and x: "conns (sworld s) cn = Some x"
    and inv: "table_inv s" "clients_inv pf (sworld s)"
  shows "table_inv (s\<lparr>sworld := w'\<rparr>)"
proof -
  let ?w = "sworld s" and ?cs = "connections (server (sworld s))"
  have x': "conns w' = (conns ?w)(cn \<mapsto> x')" "sockfd x' = sockfd x" "close_callback x' = close_callback x"
    using eff by (simp_all add: conn_effect_def same_conn_def)
  have wf: "wf_connections ?w" using inv(1) by (simp add: table_inv_def)
  have tab: "connections (server w') = (if state x' = state x then ?cs else table_erase (sockfd x) ?cs)"
    "connections_locked (server w') = connections_locked (server ?w)"
    "state x' \<noteq> state x \<Longrightarrow> state x' = kDisconnected"
    using eff by (auto simp: conn_effect_def net_same_def)
  have sub: "set (connections (server w')) \<subseteq> set ?cs" using tab(1) by (auto simp: table_erase_def)
  have "distinct (map fst (connections (server w')))"
    using tab(1) wf table_erase_distinct by (auto simp: wf_connections_def)
  then have "wf_connections w'"
    using wf sub tab(2) x x' unfolding wf_connections_def by (fastforce split: if_splits)
  moreover have "(sockfd y, c) \<in> set (connections (server w')) \<or> accept_at s = Storing (sockfd y) c"
    if y: "conns w' c = Some y" "state y \<noteq> kDisconnected" for c y
  proof (cases "c = cn")
    case True
    then have "y = x'" "state x' = state x" using y x'(1) tab(3) by auto
    then show ?thesis using y inv(1) x x'(2) tab(1) True by (auto simp: table_inv_def)
  next
    case False
    then have c: "conns ?w c = Some y" using y x'(1) by simp
    then have "sockfd y \<noteq> sockfd x" using inv(2) x False unfolding clients_inv_def by blast
    then show ?thesis using c y(2) inv(1) tab(1) by (auto simp: table_inv_def table_erase_def)
  qed
  moreover have "(\<exists>y. conns w' c = Some y \<and> sockfd y = fd) \<and> fd \<notin> fst ` set (connections (server w'))"
    if "accept_at s = Storing fd c" for fd c
    using that inv(1) sub x x' by (auto simp: table_inv_def)
  ultimately show ?thesis by (simp add: table_inv_def)
qed

lemma server_inv_effect:
  assumes eff: "conn_effect cn x x' (sworld s) w'" and x: "conns (sworld s) cn = Some x" and "at_ease x'"
    and inv: "server_inv b tm tr s"
  shows "server_inv b tm tr (s\<lparr>sworld := w'\<rparr>)"
proof -
  have same: "reactors w' = reactors (sworld s)" "sub_reactors (server w') = sub_reactors (server (sworld s))"
    "thread_num (server w') = thread_num (server (sworld s))"
    using eff by (auto simp: conn_effect_def net_same_def)
  have "pool_inv b tm tr (s\<lparr>sworld := w'\<rparr>) = pool_inv b tm tr s" by (rule pool_inv_cong) (simp_all add: same)
  moreover have "tasks_inv (s\<lparr>sworld := w'\<rparr>) = tasks_inv s"
    by (rule tasks_inv_cong) (simp_all add: same connecting_effect [OF eff x])
  ultimately show ?thesis
    using inv clients_inv_effect [OF eff x assms(3)] table_inv_effect [OF eff x]
    by (auto simp: server_inv_def)
qed

lemma advances_effect:
  assumes eff: "conn_effect cn x x' w w'" and x: "conns w cn = Some x" and inv: "clients_inv pf w"
  shows "advances w w'"
proof -
  have x': "conns w' = (conns w)(cn \<mapsto> x')" "sockfd x' = sockfd x" "state x \<le> state x'"
    "state x' = state x \<and> connections (server w') = connections (server w) \<or>
     state x = kConnected \<and> state x' = kDisconnected \<and> connections (server w') = table_erase (sockfd x) (connections (server w))"
    using eff by (auto simp: conn_effect_def same_conn_def net_same_def less_eq_conn_state_def)
  have other: "sockfd y \<noteq> sockfd x" if "conns w c = Some y" "c \<noteq> cn" for c y
    using that x inv unfolding clients_inv_def by metis
  have "\<exists>y'. conns w' c = Some y' \<and> sockfd y' = sockfd y \<and> state y \<le> state y' \<and>
      ((sockfd y, c) \<in> set (connections (server w)) \<longrightarrow>
        (sockfd y, c) \<in> set (connections (server w')) \<or> state y = kConnected \<and> state y' = kDisconnected)"
    if y: "conns w c = Some y" for c y
    using x' x other [OF y] y by (cases "c = cn") (auto simp: table_erase_def)
  then show ?thesis by (simp add: advances_def)
qed

text \<open>Broadcasts and the kernel's own steps.\<close>

lemma server_inv_identity:
  assumes "net_same (sworld s) w'" and id: "identity_of w' = identity_of (sworld s)" and inv: "server_inv b tm tr s"
  shows "server_inv b tm tr (s\<lparr>sworld := w'\<rparr>)"
proof -
  note same = net_sameD [OF assms(1)]
  have conn: "conns w' cn = Some y \<Longrightarrow> \<exists>x. conns (sworld s) cn = Some x \<and> same_conn x y \<and> state y = state x \<and>
      input_buffer y = input_buffer x"
    "conns (sworld s) cn = Some x \<Longrightarrow> \<exists>y. conns w' cn = Some y \<and> same_conn x y \<and> state y = state x" for cn x y
    using fun_cong [OF id, of cn]
    by (cases "conns (sworld s) cn"; cases "conns w' cn"; auto simp: identity_of_def same_conn_def)+
  have "connecting w' = connecting (sworld s)" unfolding connecting_def using conn by (metis (no_types, lifting))
  then have "tasks_inv (s\<lparr>sworld := w'\<rparr>) = tasks_inv s" using same by (intro tasks_inv_cong) simp_all
  moreover have "pool_inv b tm tr (s\<lparr>sworld := w'\<rparr>) = pool_inv b tm tr s"
    using same by (intro pool_inv_cong) simp_all
  moreover have "clients_inv (platform b) w'"
  proof -
    have "client_ok (platform b) w' cn y" if y: "conns w' cn = Some y" for cn y
    proof -
      obtain x where x: "conns (sworld s) cn = Some x" "same_conn x y" "state y = state x" "input_buffer y = input_buffer x"
        using conn(1) [OF y] by blast
      then have "client_ok (platform b) (sworld s) cn x" using inv by (simp add: server_inv_def clients_inv_def)
      with x same at_ease_same [OF x(2,4)] show ?thesis by (simp add: client_ok_def same_conn_def)
    qed
    moreover have "cn = cn'" if "conns w' cn = Some y" "conns w' cn' = Some y'" "sockfd y = sockfd y'" for cn cn' y y'
      using conn(1) [OF that(1)] conn(1) [OF that(2)] that(3) inv
      by (auto simp: server_inv_def clients_inv_def same_conn_def)
    moreover have "sockfd y \<noteq> r_wakeup_fd R" if "conns w' cn = Some y" "reactors w' r = Some R" for cn y r R
      using conn(1) [OF that(1)] that(2) same(3) inv unfolding server_inv_def clients_inv_def same_conn_def by metis
    ultimately show ?thesis by (intro clients_invI) blast+
  qed
  moreover have "table_inv (s\<lparr>sworld := w'\<rparr>)"
  proof -
    have tab: "table_inv s" using inv by (simp add: server_inv_def)
    then have "wf_connections w'" using wf_connections_identity [OF _ id same(1)] by (simp add: table_inv_def)
    moreover have "\<exists>y. conns w' cn = Some y \<and> sockfd y = fd" if "accept_at s = Storing fd cn" for fd cn
      using that tab conn(2) unfolding table_inv_def same_conn_def by metis
    moreover have "(sockfd y, cn) \<in> set (connections (server (sworld s))) \<or> accept_at s = Storing (sockfd y) cn"
      if "conns w' cn = Some y" "state y \<noteq> kDisconnected" for cn y
      using conn(1) [OF that(1)] that(2) tab unfolding table_inv_def same_conn_def by metis
    ultimately show ?thesis using tab same by (simp add: table_inv_def)
  qed
  ultimately show ?thesis using inv by (simp add: server_inv_def)
qed

lemma advances_identity:
  assumes "identity_of w' = identity_of w" and "server w' = server w"
  shows "advances w w'"
proof -
  have "\<exists>x'. conns w' cn = Some x' \<and> sockfd x' = sockfd x \<and> state x' = state x" if "conns w cn = Some x" for cn x
    using that fun_cong [OF assms(1), of cn] by (auto simp: identity_of_def)
  with assms(2) show ?thesis by (fastforce simp: advances_def)
qed

lemma network_inv: "server_inv b tm tr s \<Longrightarrow> server_inv b tm tr (s\<lparr>sworld := (sworld s)\<lparr>kernel := k\<rparr>\<rparr>)"
  by (rule server_inv_identity) (simp_all add: identity_of_def fun_eq_iff)

subsection \<open>Accepting and storing\<close>

lemma queue_connection_law:
  assumes "wf_pool (server w)" and "0 \<le> sint (next_reactor (server w))"
    and "\<And>r. r \<in> set (sub_reactors (server w)) \<Longrightarrow> \<exists>R. reactors w r = Some R \<and> \<not> isInLoopThread me R"
  obtains w' r R t where "queue_connection b me on_connection fd peer w = Inr (next_conn w, w')"
    and "r \<in> set (sub_reactors (server w))" and "reactors w r = Some R"
    and "conns w' = (conns w)(next_conn w \<mapsto> accepted_conn fd peer t (srv_message_callback (server w)))"
    and "next_conn w' = Suc (next_conn w)" and "heap w' = heap w" and "next_chan w' = next_chan w"
    and "reactors w' = (reactors w)(r \<mapsto> R\<lparr>r_pending_tasks := r_pending_tasks R @ [Register (next_conn w) r]\<rparr>)"
    and "server w' = (server w)\<lparr>next_reactor := next_reactor (server w) + 1\<rparr>"
proof -
  let ?cn = "next_conn w" and ?s = "(server w)\<lparr>next_reactor := next_reactor (server w) + 1\<rparr>"
  define r where "r = sub_reactors (server w) ! (nat (sint (next_reactor (server w))) mod length (sub_reactors (server w)))"
  have choose: "choose_reactor (server w) = Inr (r, ?s)"
    unfolding r_def by (rule choose_reactor_step [OF assms(1,2)])
  have r: "r \<in> set (sub_reactors (server w))" using assms(1) by (simp add: r_def wf_pool_def)
  obtain R where R: "reactors w r = Some R" "\<not> isInLoopThread me R" using assms(3) [OF r] by blast
  let ?w0 = "w\<lparr>server := ?s, next_conn := Suc ?cn\<rparr>"
  obtain t k where new: "new_connection b ?cn fd peer ?w0 = ?w0\<lparr>kernel := k, conns := (conns w)(?cn \<mapsto> \<lparr>sockfd = fd,
      peer_addr = peer, state = kConnecting, input_buffer = [], output_buffer = [],
      message_callback = None, close_callback = None, last_active_time = t, conn_channel = None\<rparr>)\<rparr>"
    using new_connection_eq [of b ?cn fd peer ?w0] by auto
  let ?w1 = "?w0\<lparr>kernel := k, conns := (conns w)(?cn \<mapsto> accepted_conn fd peer t (srv_message_callback (server w)))\<rparr>"
  have w1: "reactors ?w1 r = Some R" using R(1) by simp
  obtain k' where q: "queueInLoop b me r (Register ?cn r) ?w1 =
      Inr ((put_reactor r (R\<lparr>r_pending_tasks := r_pending_tasks R @ [Register ?cn r]\<rparr>) ?w1)\<lparr>kernel := k'\<rparr>)"
    using queueInLoop_law [OF w1] by blast
  let ?w' = "(put_reactor r (R\<lparr>r_pending_tasks := r_pending_tasks R @ [Register ?cn r]\<rparr>) ?w1)\<lparr>kernel := k'\<rparr>"
  have run: "queue_connection b me on_connection fd peer w = Inr (?cn, ?w')"
    using choose new q R by (simp add: queue_connection_def Let_def runInLoop_def setMessageCallback_def
        setConnCloseCallback_def accepted_conn_def)
  show thesis by (rule that [OF run r R(1), of t]) (simp_all add: put_reactor_def)
qed

text \<open>The calls this comes down to.\<close>

lemma queue_connection_calls:
  assumes run: "queue_connection b me on_connection fd peer w = Inr (cn, w')"
    and pool: "\<And>r. r \<in> set (sub_reactors (server w)) \<Longrightarrow> \<exists>R. reactors w r = Some R \<and> \<not> isInLoopThread me R"
  obtains r s R w3 where "kernel w3 = kernel (new_connection b (next_conn w) fd peer (w\<lparr>server := s, next_conn := Suc (next_conn w)\<rparr>))"
    and "queueInLoop b me r (Register (next_conn w) r) w3 = Inr w'" and "reactors w r = Some R" and "reactors w3 = reactors w"
proof -
  obtain r s where r: "choose_reactor (server w) = Inr (r, s)"
    using run by (auto simp: queue_connection_def elim!: outcome_elims)
  then have "r \<in> set (sub_reactors (server w))" by (auto simp: choose_reactor_def Let_def split: if_splits)
  then obtain R where R: "reactors w r = Some R" "\<not> isInLoopThread me R" using pool by blast
  let ?w0 = "w\<lparr>server := s, next_conn := Suc (next_conn w)\<rparr>"
  let ?w1 = "new_connection b (next_conn w) fd peer ?w0"
  obtain w2 w3 where w2: "on_conn (next_conn w) (setMessageCallback (srv_message_callback s)) ?w1 = Inr w2"
    and w3: "on_conn (next_conn w) (setConnCloseCallback (Some RemoveAndNotify)) w2 = Inr w3"
    and w4: "runInLoop b (run_task b me on_connection) me r (Register (next_conn w) r) w3 = Inr w'"
    using run r by (auto simp: queue_connection_def Let_def elim!: outcome_elims)
  have "reactors ?w1 = reactors w" using new_connection_eq [of b "next_conn w" fd peer ?w0] by auto
  then have k: "kernel w3 = kernel ?w1" "reactors w3 = reactors w"
    using on_conn_kernel [OF w2] on_conn_kernel [OF w3] by simp_all
  then have "queueInLoop b me r (Register (next_conn w) r) w3 = Inr w'" using w4 R by (simp add: runInLoop_def)
  with k R(1) show thesis using that by blast
qed

lemma connecting_accepted:
  assumes "conns w' = (conns w)(cn \<mapsto> accepted_conn fd peer t mcb)" and "conns w cn = None"
  shows "connecting w' = insert cn (connecting w)"
  using assms by (auto simp: connecting_def accepted_conn_def)

lemma tasks_inv_queued:
  assumes inv: "tasks_inv s" and R: "reactors (sworld s) r = Some R" and r: "r \<in> pool s"
    and new: "cn \<notin> connecting (sworld s)" "connecting (sworld t) = insert cn (connecting (sworld s))"
    and t: "reactors (sworld t) = (reactors (sworld s))(r \<mapsto> R\<lparr>r_pending_tasks := r_pending_tasks R @ [Register cn r]\<rparr>)"
      "taken t = taken s" "pool t = pool s"
  shows "tasks_inv t"
proof -
  have own: "tasks_of t r = tasks_of s r @ [Register cn r]"
    using R t by (simp add: tasks_of_def)
  have other: "tasks_of t q = tasks_of s q" if "q \<noteq> r" for q using that t by (simp add: tasks_of_def)
  have fresh: "Register cn q \<notin> set (tasks_of s q)" if "q \<in> pool s" for q
    using inv new(1) that by (auto simp: tasks_inv_def)
  have "distinct (tasks_of t q) \<and> set (tasks_of t q) \<subseteq> (\<lambda>cn. Register cn q) ` connecting (sworld t)" if "q \<in> pool t" for q
    using inv that fresh [of q] own other [of q] new(2) t(3) by (cases "q = r") (auto simp: tasks_inv_def)
  moreover have "\<exists>!q. q \<in> pool t \<and> Register c q \<in> set (tasks_of t q)" if c: "c \<in> connecting (sworld t)" for c
  proof (cases "c = cn")
    case True
    show ?thesis
    proof (rule ex1I [of _ r])
      show "q = r" if "q \<in> pool t \<and> Register c q \<in> set (tasks_of t q)" for q
        using that True fresh [of q] other [of q] t(3) by metis
    qed (use r own t(3) True in simp)
  next
    case False
    then have "Register c q \<in> set (tasks_of t q) \<longleftrightarrow> Register c q \<in> set (tasks_of s q)" for q
      using own other [of q] by (cases "q = r") auto
    with False c new(2) t(3) inv show ?thesis by (simp add: tasks_inv_def)
  qed
  ultimately show ?thesis by (simp add: tasks_inv_def)
qed

text \<open>A new client, with a descriptor that nobody has.\<close>

lemma clients_inv_accepted:
  assumes clients: "clients_inv pf w" and new: "conns w' = (conns w)(next_conn w \<mapsto> accepted_conn fd peer t m)" "conns w (next_conn w) = None"
    and same: "next_conn w' = Suc (next_conn w)" "heap w' = heap w" "next_chan w' = next_chan w"
    and fd: "\<And>c y. conns w c = Some y \<Longrightarrow> sockfd y \<noteq> fd" and wake: "\<And>q Q. reactors w q = Some Q \<Longrightarrow> r_wakeup_fd Q \<noteq> fd"
    and R: "\<And>q Q. reactors w' q = Some Q \<Longrightarrow> \<exists>Q'. reactors w q = Some Q' \<and> r_wakeup_fd Q = r_wakeup_fd Q'"
  shows "clients_inv pf w'"
proof (rule clients_invI)
  show "client_ok pf w' c y" if c: "conns w' c = Some y" for c y
  proof (cases "c = next_conn w")
    case True
    then show ?thesis using c new(1) same(1) by (auto simp: client_ok_def accepted_conn_def at_ease_def)
  next
    case False
    then have "client_ok pf w c y" using c new(1) clients by (simp add: clients_inv_def)
    then show ?thesis using same by (simp add: client_ok_def)
  qed
  show "c = c'" if "conns w' c = Some y" "conns w' c' = Some y'" "sockfd y = sockfd y'" for c c' y y'
    using that clients fd [of c y] fd [of c' y'] new(1) unfolding clients_inv_def
    by (cases "c = next_conn w"; cases "c' = next_conn w") (auto simp: accepted_conn_def)
  show "sockfd y \<noteq> r_wakeup_fd Q" if c: "conns w' c = Some y" and Q: "reactors w' q = Some Q" for c y q Q
  proof -
    obtain Q' where Q': "reactors w q = Some Q'" "r_wakeup_fd Q = r_wakeup_fd Q'" using R [OF Q] by blast
    show ?thesis
    proof (cases "c = next_conn w")
      case True
      then show ?thesis using c new(1) wake [OF Q'(1)] Q'(2) by (auto simp: accepted_conn_def)
    next
      case False
      then have "conns w c = Some y" using c new(1) by simp
      with clients Q' show ?thesis unfolding clients_inv_def by metis
    qed
  qed
qed

lemma accept_inv:
  assumes inv: "server_inv b tm tr s" and en: "enabled (Accept fd peer) s"
  shows "\<exists>t. server_op b tm tr on_message on_connection (Accept fd peer) s = Inr t \<and> server_inv b tm tr t \<and> advances (sworld s) (sworld t)"
proof -
  let ?w = "sworld s" and ?cn = "next_conn (sworld s)"
  have pool: "wf_pool (server ?w)" "0 \<le> sint (next_reactor (server ?w))"
    "\<And>r. r \<in> pool s \<Longrightarrow> \<exists>R. reactors ?w r = Some R \<and> \<not> isInLoopThread tm R"
    using inv en by (auto simp: server_inv_def pool_inv_def)
  obtain w' r R t where q: "queue_connection b tm on_connection fd peer ?w = Inr (?cn, w')"
    "r \<in> pool s" "reactors ?w r = Some R"
    "conns w' = (conns ?w)(?cn \<mapsto> accepted_conn fd peer t (srv_message_callback (server ?w)))"
    "next_conn w' = Suc ?cn" "heap w' = heap ?w" "next_chan w' = next_chan ?w"
    "reactors w' = (reactors ?w)(r \<mapsto> R\<lparr>r_pending_tasks := r_pending_tasks R @ [Register ?cn r]\<rparr>)"
    "server w' = (server ?w)\<lparr>next_reactor := next_reactor (server ?w) + 1\<rparr>"
    using queue_connection_law [OF pool] by metis
  let ?x = "accepted_conn fd peer t (srv_message_callback (server ?w))"
  let ?t = "s\<lparr>sworld := w', accept_at := Storing fd ?cn\<rparr>"
  have clients: "clients_inv (platform b) ?w" and tab: "table_inv s"
    using inv by (simp_all add: server_inv_def)
  have none: "conns ?w ?cn = None"
  proof (cases "conns ?w ?cn")
    case (Some y)
    then have "client_ok (platform b) ?w ?cn y" using clients by (simp add: clients_inv_def)
    then show ?thesis by (simp add: client_ok_def)
  qed
  then have new: "?cn \<notin> connecting ?w" by (simp add: connecting_def)
  have fd: "sockfd y \<noteq> fd" if "conns ?w c = Some y" for c y
    using en that by (auto simp: ran_def)
  have wake: "r_wakeup_fd Q \<noteq> fd" if "reactors ?w q = Some Q" for q Q
    using en that by (auto simp: ran_def)
  have "tasks_inv ?t"
    by (rule tasks_inv_queued [OF _ q(3,2) new])
      (use inv connecting_accepted [OF q(4) none] q(8,9) in \<open>simp_all add: server_inv_def\<close>)
  moreover have "pool_inv b tm tr ?t"
    using inv q(3,8,9) by (auto simp: server_inv_def pool_inv_def wf_pool_def isInLoopThread_def may_touch_def)
  moreover have "clients_inv (platform b) w'"
    by (rule clients_inv_accepted [OF clients q(4) none q(5-7) fd wake]) (use q(3,8) in \<open>auto split: if_splits\<close>)
  moreover have "table_inv ?t"
  proof -
    have "wf_connections w'"
      using tab q(4,9) none by (fastforce simp: table_inv_def wf_connections_def)
    moreover have "fd \<notin> fst ` set (connections (server ?w))"
      using tab fd by (fastforce simp: table_inv_def wf_connections_def)
    moreover have "accept_at s = Waiting" using en by simp
    ultimately show ?thesis using tab q(4,9) by (auto simp: table_inv_def accepted_conn_def)
  qed
  moreover have "advances ?w w'" using q(4,9) none by (auto simp: advances_def)
  ultimately show ?thesis using q(1) by (simp add: server_inv_def)
qed

lemma store_connection_law:
  "\<not> connections_locked (server w) \<Longrightarrow> store_connection fd cn w =
     Inr (on_server (\<lambda>s. s\<lparr>connections := table_put fd cn (connections s), connections_locked := False\<rparr>) w)"
  by (simp add: store_connection_def guarded_unlocked unlock_connections_def getConnectionCount_def lock_connections_def)

lemma store_inv:
  assumes inv: "server_inv b tm tr s" and en: "enabled Store s"
  shows "\<exists>t. server_op b tm tr on_message on_connection Store s = Inr t \<and> server_inv b tm tr t \<and> advances (sworld s) (sworld t)"
proof -
  let ?w = "sworld s" and ?cs = "connections (server (sworld s))"
  obtain fd cn where at: "accept_at s = Storing fd cn" using en by (cases "accept_at s") simp_all
  have tab: "table_inv s" using inv by (simp add: server_inv_def)
  then obtain x where x: "conns ?w cn = Some x" "sockfd x = fd" and fd: "fd \<notin> fst ` set ?cs"
    using at by (auto simp: table_inv_def)
  have wf: "wf_connections ?w" using tab by (simp add: table_inv_def)
  let ?w' = "on_server (\<lambda>s. s\<lparr>connections := table_put fd cn (connections s), connections_locked := False\<rparr>) ?w"
  let ?t = "s\<lparr>sworld := ?w', accept_at := Waiting\<rparr>"
  have erase: "table_erase fd ?cs = ?cs" using fd unfolding table_erase_def by (intro filter_True) auto
  have cb: "close_callback x = Some RemoveAndNotify"
    using inv x(1) by (auto simp: server_inv_def clients_inv_def client_ok_def at_ease_def)
  have "wf_connections ?w'"
    using wf x fd cb by (auto simp: wf_connections_def table_put_def erase)
  moreover have "(sockfd y, c) \<in> set ?cs \<or> (sockfd y, c) = (fd, cn)"
    if "conns ?w c = Some y" "state y \<noteq> kDisconnected" for c y
    using that tab at unfolding table_inv_def by (metis accept_pc.inject)
  ultimately have "table_inv ?t" by (auto simp: table_inv_def table_put_def erase)
  moreover have "tasks_inv ?t = tasks_inv s" by (rule tasks_inv_cong) (simp_all add: connecting_def)
  moreover have "pool_inv b tm tr ?t = pool_inv b tm tr s" by (rule pool_inv_cong) simp_all
  moreover have "clients_inv (platform b) ?w' = clients_inv (platform b) ?w"
    by (simp add: clients_inv_def client_ok_def)
  moreover have "server_op b tm tr on_message on_connection Store s = Inr ?t"
    using at wf by (simp add: store_connection_law wf_connections_def)
  moreover have "advances ?w ?w'" by (auto simp: advances_def table_put_def erase)
  ultimately show ?thesis using inv by (simp add: server_inv_def)
qed

subsection \<open>Serving the queue\<close>

text \<open>A step that changes one sub-reactor's flags, poller or queue.\<close>

lemma server_inv_reactor:
  assumes inv: "server_inv b tm tr s" and R: "reactors (sworld s) r = Some R" and R': "r_thread_id R' = r_thread_id R"
      "r_wakeup_fd R' = r_wakeup_fd R"
    and "tasks_of (s\<lparr>sworld := put_reactor r R' (sworld s), taken := (taken s)(r := ts)\<rparr>) r = tasks_of s r"
    and "ts \<noteq> None \<longrightarrow> r \<in> pool s"
  shows "server_inv b tm tr (s\<lparr>sworld := put_reactor r R' (sworld s), taken := (taken s)(r := ts)\<rparr>)"
proof -
  let ?t = "s\<lparr>sworld := put_reactor r R' (sworld s), taken := (taken s)(r := ts)\<rparr>"
  have w: "server (sworld ?t) = server (sworld s)" "conns (sworld ?t) = conns (sworld s)"
    "next_conn (sworld ?t) = next_conn (sworld s)" by (simp_all add: put_reactor_def)
  have "tasks_of ?t q = tasks_of s q" for q
    using assms(5) by (cases "q = r") (simp_all add: tasks_of_def)
  moreover have "connecting (sworld ?t) = connecting (sworld s)" by (simp add: connecting_def put_reactor_def)
  ultimately have "tasks_inv ?t = tasks_inv s" using w(1) by (simp add: tasks_inv_def)
  moreover have "pool_inv b tm tr ?t"
    using inv R R' assms(6) w(1) by (auto simp: server_inv_def pool_inv_def isInLoopThread_def may_touch_def)
  moreover have "clients_inv pf (sworld s) \<Longrightarrow> clients_inv pf (sworld ?t)" for pf
    using w R R'(2) by (auto simp: clients_inv_def client_ok_def)
  moreover have "table_inv ?t = table_inv s" using w by (simp add: table_inv_def wf_connections_def)
  ultimately show ?thesis using inv by (simp add: server_inv_def)
qed

lemma begin_inv:
  assumes inv: "server_inv b tm tr s" and en: "enabled (BeginTasks r) s"
  shows "\<exists>t. server_op b tm tr on_message on_connection (BeginTasks r) s = Inr t \<and> server_inv b tm tr t \<and> advances (sworld s) (sworld t)"
proof -
  obtain R where R: "reactors (sworld s) r = Some R" using inv en by (auto simp: server_inv_def pool_inv_def)
  let ?R = "R\<lparr>r_calling_pending_tasks := True, r_pending_tasks := []\<rparr>"
  have "begin_tasks r (sworld s) = Inr (r_pending_tasks R, put_reactor r ?R (sworld s))"
    using R by (simp add: begin_tasks_def)
  moreover have "server_inv b tm tr (s\<lparr>sworld := put_reactor r ?R (sworld s), taken := (taken s)(r := Some (r_pending_tasks R))\<rparr>)"
    by (rule server_inv_reactor [OF inv R]) (use en R in \<open>simp_all add: tasks_of_def\<close>)
  ultimately show ?thesis by simp
qed

lemma end_inv:
  assumes inv: "server_inv b tm tr s" and en: "enabled (EndTasks r) s"
  shows "\<exists>t. server_op b tm tr on_message on_connection (EndTasks r) s = Inr t \<and> server_inv b tm tr t \<and> advances (sworld s) (sworld t)"
proof -
  have "r \<in> pool s" using inv en by (auto simp: server_inv_def pool_inv_def)
  then obtain R where R: "reactors (sworld s) r = Some R" using inv by (auto simp: server_inv_def pool_inv_def)
  let ?R = "R\<lparr>r_calling_pending_tasks := False\<rparr>"
  have "server_inv b tm tr (s\<lparr>sworld := put_reactor r ?R (sworld s), taken := (taken s)(r := None)\<rparr>)"
    by (rule server_inv_reactor [OF inv R]) (use en R in \<open>simp_all add: tasks_of_def\<close>)
  then show ?thesis using R by (simp add: end_tasks_def)
qed

text \<open>Registering a connection, in a thread the assertions accept.\<close>

lemma run_task_law:
  assumes "app_law on_connection" and R: "reactors w r = Some R" "may_touch b me R" and x: "conns w cn = Some x"
  obtains w' ch t p where "run_task b me on_connection (Register cn r) w = Inr w'"
    and "conns w' = (conns w)(cn \<mapsto> x\<lparr>conn_channel := Some (next_chan w), state := kConnected, last_active_time := t\<rparr>)"
    and "heap w' = (heap w)(next_chan w \<mapsto> ch)" and "serves (platform b) cn (sockfd x) ch"
    and "reactors w' = (reactors w)(r \<mapsto> R\<lparr>r_poller := p\<rparr>)"
    and "server w' = server w" and "next_conn w' = next_conn w" and "next_chan w' = Suc (next_chan w)"
proof -
  let ?c = "next_chan w"
  define ch where "ch = setErrorCallback (OnError cn) (setCloseCallback (OnClose cn)
     (setWriteCallback (OnWrite cn) (setReadCallback (OnRead cn) (new_channel r (sockfd x)))))"
  note set_defs = setErrorCallback_def setCloseCallback_def setWriteCallback_def setReadCallback_def new_channel_def
  let ?w1 = "(store ?c ch w)\<lparr>next_chan := Suc ?c\<rparr>"
  have "ch_reactor ch = r" by (simp add: ch_def set_defs)
  then have ch: "heap ?w1 ?c = Some ch" "reactors ?w1 (ch_reactor ch) = Some R" using R(1) by simp_all
  obtain p i k where w2: "change_interest b me EnableReading ?c ?w1 =
    Inr (put_reactor r (R\<lparr>r_poller := p\<rparr>)
      (store ?c (setIndex i (set_interest (platform b) EnableReading ch)) (?w1\<lparr>kernel := k\<rparr>)))"
    using change_interest_shape [OF ch R(2)] \<open>ch_reactor ch = r\<close> by metis
  let ?ch = "setIndex i (set_interest (platform b) EnableReading ch)"
  let ?w2 = "put_reactor r (R\<lparr>r_poller := p\<rparr>) (store ?c ?ch (?w1\<lparr>kernel := k\<rparr>))"
  have c2: "conns ?w2 = conns w" by (simp add: put_reactor_def store_def)
  let ?w3 = "?w2\<lparr>conns := (conns w)(cn \<mapsto> setChannel ?c x)\<rparr>"
  obtain t k' where w4: "establishConnection b cn ?w3 = Inr (?w3\<lparr>kernel := k', conns := (conns w)(cn \<mapsto>
      (setChannel ?c x)\<lparr>state := kConnected, last_active_time := t\<rparr>)\<rparr>)"
    using establishConnection_eq [of ?w3 cn "setChannel ?c x" b] by auto
  let ?w4 = "?w3\<lparr>kernel := k', conns := (conns w)(cn \<mapsto> (setChannel ?c x)\<lparr>state := kConnected, last_active_time := t\<rparr>)\<rparr>"
  have "conns ?w4 cn = Some ((setChannel ?c x)\<lparr>state := kConnected, last_active_time := t\<rparr>)" by simp
  then obtain w5 where w5: "notify on_connection cn ?w4 = Inr w5" "net_same ?w4 w5" "conns w5 = conns ?w4"
    by (rule notify_law [OF assms(1)])
  have run: "run_task b me on_connection (Register cn r) w = Inr w5"
    using x w2 c2 w4 w5(1) by (simp add: ch_def [symmetric] alloc_channel_def Let_def)
  have "serves (platform b) cn (sockfd x) ?ch"
    by (cases "platform b") (simp_all add: serves_def ch_def set_defs setIndex_def set_interest_def kNoneEvent_def)
  then show thesis
    by (intro that [OF run, of t ?ch p]) (use w5 net_sameD [OF w5(2)] in
      \<open>simp_all add: setChannel_def put_reactor_def store_def\<close>)
qed

lemma tasks_inv_ran:
  assumes inv: "tasks_inv s" and at: "taken s r = Some (Register cn r # ts)" and r: "r \<in> pool s"
    and R: "reactors (sworld s) r = Some R" "reactors (sworld t) = (reactors (sworld s))(r \<mapsto> R\<lparr>r_poller := p\<rparr>)"
    and t: "taken t = (taken s)(r := Some ts)" "pool t = pool s"
      "connecting (sworld t) = connecting (sworld s) - {cn}"
  shows "tasks_inv t"
proof -
  have own: "tasks_of s r = Register cn r # tasks_of t r"
    using at R t(1) by (simp add: tasks_of_def)
  have other: "tasks_of t q = tasks_of s q" if "q \<noteq> r" for q using that R(2) t(1) by (simp add: tasks_of_def)
  have s: "distinct (tasks_of s q)" "set (tasks_of s q) \<subseteq> (\<lambda>c. Register c q) ` connecting (sworld s)" if "q \<in> pool s" for q
    using inv that by (simp_all add: tasks_inv_def)
  have cn: "cn \<in> connecting (sworld s)" using s(2) [OF r] own by auto
  have only: "q = r" if "q \<in> pool s" "Register cn q \<in> set (tasks_of s q)" for q
    using that r own cn inv unfolding tasks_inv_def by (metis list.set_intros(1))
  have gone: "Register cn q \<notin> set (tasks_of t q)" if "q \<in> pool s" for q
  proof (cases "q = r")
    case True
    then show ?thesis using s(1) [OF r] own by simp
  qed (use only that other in auto)
  have "distinct (tasks_of t q) \<and> set (tasks_of t q) \<subseteq> (\<lambda>c. Register c q) ` connecting (sworld t)" if q: "q \<in> pool t" for q
  proof -
    have "distinct (tasks_of t q) \<and> set (tasks_of t q) \<subseteq> set (tasks_of s q)"
      using s(1) [of q] q t(2) own other by (cases "q = r") auto
    then show ?thesis using s(2) [of q] gone [of q] q t(2,3) by blast
  qed
  moreover have "\<exists>!q. q \<in> pool t \<and> Register c q \<in> set (tasks_of t q)" if c: "c \<in> connecting (sworld t)" for c
  proof -
    have "Register c q \<in> set (tasks_of t q) \<longleftrightarrow> Register c q \<in> set (tasks_of s q)" for q
      using c t(3) own other [of q] by (cases "q = r") auto
    with c t(2,3) inv show ?thesis by (simp add: tasks_inv_def)
  qed
  ultimately show ?thesis by (simp add: tasks_inv_def)
qed

text \<open>A client that gets its channel.\<close>

lemma clients_inv_registered:
  assumes clients: "clients_inv pf w" and x: "conns w cn = Some x" "state x = kConnecting"
    and new: "conns w' = (conns w)(cn \<mapsto> x\<lparr>conn_channel := Some (next_chan w), state := kConnected, last_active_time := t\<rparr>)"
      "heap w' = (heap w)(next_chan w \<mapsto> ch)" "serves pf cn (sockfd x) ch"
    and same: "next_conn w' = next_conn w" "next_chan w' = Suc (next_chan w)"
    and R: "\<And>q Q. reactors w' q = Some Q \<Longrightarrow> \<exists>Q'. reactors w q = Some Q' \<and> r_wakeup_fd Q = r_wakeup_fd Q'"
  shows "clients_inv pf w'"
proof (rule clients_invI)
  let ?x = "x\<lparr>conn_channel := Some (next_chan w), state := kConnected, last_active_time := t\<rparr>"
  have old: "\<exists>z. conns w c = Some z \<and> sockfd z = sockfd y" if "conns w' c = Some y" for c y
    using that x(1) new(1) by (auto split: if_splits)
  show "client_ok pf w' c y" if c: "conns w' c = Some y" for c y
  proof (cases "c = cn")
    case True
    then show ?thesis using clients x c new same by (auto simp: clients_inv_def client_ok_def at_ease_def)
  next
    case False
    then have "client_ok pf w c y" using c new(1) clients by (simp add: clients_inv_def)
    moreover have "c' < next_chan w' \<and> heap w' c' = heap w c'" if "c' < next_chan w" for c'
      using that new(2) same(2) by simp
    ultimately show ?thesis using same(1) unfolding client_ok_def by metis
  qed
  show "c = c'" if "conns w' c = Some y" "conns w' c' = Some y'" "sockfd y = sockfd y'" for c c' y y'
    using old [OF that(1)] old [OF that(2)] that(3) clients unfolding clients_inv_def by metis
  show "sockfd y \<noteq> r_wakeup_fd Q" if c: "conns w' c = Some y" and Q: "reactors w' q = Some Q" for c y q Q
    using old [OF c] R [OF Q] clients unfolding clients_inv_def by metis
qed

lemma run_inv:
  assumes app: "app_law on_connection" and inv: "server_inv b tm tr s" and en: "enabled (RunTask r) s"
  shows "\<exists>t. server_op b tm tr on_message on_connection (RunTask r) s = Inr t \<and> server_inv b tm tr t \<and> advances (sworld s) (sworld t)"
proof -
  let ?w = "sworld s"
  obtain u ts where u: "taken s r = Some (u # ts)" using en by auto
  have r: "r \<in> pool s" using inv u by (auto simp: server_inv_def pool_inv_def)
  obtain R where R: "reactors ?w r = Some R" "may_touch b (tr r) R" using inv r by (auto simp: server_inv_def pool_inv_def)
  have tasks: "tasks_inv s" and clients: "clients_inv (platform b) ?w" and tab: "table_inv s"
    using inv by (simp_all add: server_inv_def)
  have "u \<in> set (tasks_of s r)" using u by (simp add: tasks_of_def)
  then obtain cn x where at: "taken s r = Some (Register cn r # ts)" and x: "conns ?w cn = Some x" "state x = kConnecting"
    using tasks r u by (fastforce simp: tasks_inv_def connecting_def)
  from run_task_law [OF app R x(1)] obtain w' ch t p where
    run: "run_task b (tr r) on_connection (Register cn r) ?w = Inr w'"
      "conns w' = (conns ?w)(cn \<mapsto> x\<lparr>conn_channel := Some (next_chan ?w), state := kConnected, last_active_time := t\<rparr>)"
      "heap w' = (heap ?w)(next_chan ?w \<mapsto> ch)" "serves (platform b) cn (sockfd x) ch"
      "reactors w' = (reactors ?w)(r \<mapsto> R\<lparr>r_poller := p\<rparr>)"
      "server w' = server ?w" "next_conn w' = next_conn ?w" "next_chan w' = Suc (next_chan ?w)" by metis
  let ?x = "x\<lparr>conn_channel := Some (next_chan ?w), state := kConnected, last_active_time := t\<rparr>"
  let ?t = "s\<lparr>sworld := w', taken := (taken s)(r := Some ts)\<rparr>"
  have "connecting w' = connecting ?w - {cn}" using run(2) by (auto simp: connecting_def)
  then have "tasks_inv ?t"
    by (intro tasks_inv_ran [OF tasks at r R(1)]) (use run(5,6) in simp_all)
  moreover have "pool_inv b tm tr ?t"
    using inv R run(5,6) r by (auto simp: server_inv_def pool_inv_def isInLoopThread_def may_touch_def)
  moreover have "clients_inv (platform b) w'"
    by (rule clients_inv_registered [OF clients x run(2,3,4,7,8)]) (use R(1) run(5) in \<open>auto split: if_splits\<close>)
  moreover have "table_inv ?t"
  proof -
    have "wf_connections w'" using tab x(1) run(2,6) by (fastforce simp: table_inv_def wf_connections_def)
    moreover have "(sockfd y, c) \<in> set (connections (server ?w)) \<or> accept_at s = Storing (sockfd y) c"
      if "conns w' c = Some y" "state y \<noteq> kDisconnected" for c y
    proof (cases "c = cn")
      case True
      then have "sockfd y = sockfd x" using that(1) run(2) by auto
      then show ?thesis using True tab x unfolding table_inv_def by (metis conn_state.distinct(5))
    next
      case False
      then show ?thesis using that run(2) tab unfolding table_inv_def by (metis fun_upd_other)
    qed
    ultimately show ?thesis using tab x(1) run(2,6) by (auto simp: table_inv_def)
  qed
  moreover have "advances ?w w'" using run(2,6) x by (auto simp: advances_def less_eq_conn_state_def)
  ultimately show ?thesis using at run(1) by (simp add: server_inv_def del: run_task.simps)
qed

section \<open>The interface to the application\<close>

text \<open>
  The contract between the server and the application that uses it: the connection callback
  leaves the network layer alone, and, on sockets that behave as documented, the message
  callback changes no more than the buffers of the connection it is called with, to which it
  sends its reply or nothing.
\<close>

locale server_application =
  fixes b :: "'k build" and sent :: "'k \<Rightarrow> int \<Rightarrow> string"
    and reply :: "'m \<Rightarrow> string \<Rightarrow> string"
    and on_message :: "'m \<Rightarrow> conn_ptr \<Rightarrow> string \<Rightarrow> ('k, 'm, 'u, 'z) world_op"
    and on_connection :: "'u \<Rightarrow> conn_ptr \<Rightarrow> ('k, 'm, 'u, 'z) world_op"
  assumes connection_law: "app_law on_connection"
    and message_law: "socket_documented (os b) sent \<Longrightarrow> message_law sent reply on_message"
begin

lemma callback_law:
  assumes doc: "socket_documented (os b) sent" "read_documented (os b)"
    and inv: "server_inv b tm tr s" and en: "enabled (Callback cb) s"
  obtains cn x w' x' d where "server_op b tm tr on_message on_connection (Callback cb) s = Inr (s\<lparr>sworld := w'\<rparr>)"
    and "cb_conn cb = Some cn" and "conns (sworld s) cn = Some x" and "conn_effect cn x x' (sworld s) w'" and "at_ease x'"
    and "speaks sent cn x d (sworld s) w'" and "d \<in> cb_says reply b x (kernel (sworld s)) cb"
proof -
  obtain r where r: "loop_of (sworld s) cb = Some r" using en by auto
  then obtain cn x where cn: "cb_conn cb = Some cn" "conns (sworld s) cn = Some x"
    by (auto simp: loop_of_def bind_eq_Some_conv)
  have ease: "at_ease x" using inv cn(2) by (auto simp: server_inv_def clients_inv_def client_ok_def)
  have free: "\<not> connections_locked (server (sworld s))"
    using inv by (simp add: server_inv_def table_inv_def wf_connections_def)
  from invoke_handled [OF doc connection_law message_law [OF doc(1)] free cn(2) ease cn(1), of "tr r"]
  obtain w' x' d where w': "invoke b (tr r) on_message on_connection cb (sworld s) = Inr w'"
    "conn_effect cn x x' (sworld s) w'" "at_ease x'" "speaks sent cn x d (sworld s) w'"
    "d \<in> cb_says reply b x (kernel (sworld s)) cb" by (auto simp: handled_def)
  show thesis by (rule that [OF _ cn w'(2-5)]) (use r w'(1) in simp)
qed

lemma callback_inv:
  assumes doc: "socket_documented (os b) sent" "read_documented (os b)"
    and inv: "server_inv b tm tr s" and en: "enabled (Callback cb) s"
  shows "\<exists>t. server_op b tm tr on_message on_connection (Callback cb) s = Inr t \<and> server_inv b tm tr t \<and> advances (sworld s) (sworld t)"
proof -
  obtain cn x w' x' where w': "server_op b tm tr on_message on_connection (Callback cb) s = Inr (s\<lparr>sworld := w'\<rparr>)"
    "conns (sworld s) cn = Some x" "conn_effect cn x x' (sworld s) w'" "at_ease x'"
    using callback_law [OF assms] by metis
  moreover have "advances (sworld s) w'"
    using advances_effect [OF w'(3,2)] inv by (auto simp: server_inv_def)
  ultimately show ?thesis using server_inv_effect [OF w'(3,2,4) inv] by simp
qed

lemma broadcast_inv:
  assumes doc: "socket_documented (os b) sent" and inv: "server_inv b tm tr s" and en: "enabled (Broadcast message) s"
  shows "\<exists>t. server_op b tm tr on_message on_connection (Broadcast message) s = Inr t \<and> server_inv b tm tr t \<and> advances (sworld s) (sworld t)"
proof -
  have "wf_connections (sworld s)" using inv by (simp add: server_inv_def table_inv_def)
  from broadcast_law [OF doc _ this, of message] en obtain w' where
    "broadcast b message (sworld s) = Inr w'" "net_same (sworld s) w'" "identity_of w' = identity_of (sworld s)" by auto
  with server_inv_identity [OF _ _ inv] advances_identity show ?thesis by (auto dest: net_sameD)
qed

text \<open>Progress and preservation: what can happen returns, and keeps the invariant.\<close>

lemma op_inv:
  assumes "socket_documented (os b) sent" "read_documented (os b)" and "server_inv b tm tr s" and "enabled e s"
  shows "\<exists>t. server_op b tm tr on_message on_connection e s = Inr t \<and> server_inv b tm tr t \<and> advances (sworld s) (sworld t)"
proof (cases e)
  case (Accept fd peer)
  with accept_inv assms(3,4) show ?thesis by blast
next
  case Store
  with store_inv assms(3,4) show ?thesis by blast
next
  case (BeginTasks r)
  with begin_inv assms(3,4) show ?thesis by blast
next
  case (RunTask r)
  with run_inv [OF connection_law assms(3)] assms(4) show ?thesis by blast
next
  case (EndTasks r)
  with end_inv assms(3,4) show ?thesis by blast
next
  case (Callback cb)
  with callback_inv assms show ?thesis by blast
next
  case (Broadcast message)
  with broadcast_inv assms(1,3,4) show ?thesis by blast
next
  case (Network k)
  have "advances (sworld s) ((sworld s)\<lparr>kernel := k\<rparr>)" by (rule advances_same) simp_all
  with Network assms network_inv show ?thesis by simp
qed

lemma step_law:
  assumes "socket_documented (os b) sent" "read_documented (os b)" and "server_inv b tm tr s"
    and "server_step b tm tr on_message on_connection s t"
  shows "server_inv b tm tr t" and "advances (sworld s) (sworld t)"
  using assms(4) op_inv [OF assms(1-3)] by (auto elim!: server_stepE) fastforce+

end

sublocale server_application \<subseteq> threads: inductive_invariant "server_init b tm tr"
    "server_step b tm tr on_message on_connection"
    "\<lambda>s. socket_documented (os b) sent \<and> read_documented (os b) \<longrightarrow> server_inv b tm tr s" for tm tr
  using step_law(1) server_init_inv by unfold_locales blast+

context server_application
begin

lemma never_fails:
  assumes "socket_documented (os b) sent" "read_documented (os b)"
    and "reach (server_init b tm tr) (server_step b tm tr on_message on_connection) s" and "enabled e s"
  shows "\<exists>t. server_op b tm tr on_message on_connection e s = Inr t"
  using threads.reach_inv [OF assms(3)] op_inv [OF assms(1,2) _ assms(4)] assms(1,2) by blast

lemma steps_advance:
  assumes "socket_documented (os b) sent" "read_documented (os b)"
    and "server_inv b tm tr s" and "(server_step b tm tr on_message on_connection)\<^sup>*\<^sup>* s t"
  shows "server_inv b tm tr t \<and> (\<forall>cn x. conns (sworld s) cn = Some x \<longrightarrow>
     (\<exists>y. conns (sworld t) cn = Some y \<and> sockfd y = sockfd x \<and> state x \<le> state y \<and>
       (state x = kDisconnected \<and> (sockfd x, cn) \<in> set (connections (server (sworld s))) \<longrightarrow>
        (sockfd x, cn) \<in> set (connections (server (sworld t))))))"
  using assms(4,3)
proof (induction rule: rtranclp_induct)
  case (step t u)
  have t: "server_inv b tm tr t" using step by blast
  have u: "server_inv b tm tr u" "advances (sworld t) (sworld u)"
    using step_law [OF assms(1,2) t step.hyps(2)] by auto
  have "\<exists>z. conns (sworld u) cn = Some z \<and> sockfd z = sockfd x \<and> state x \<le> state z \<and>
      (state x = kDisconnected \<and> (sockfd x, cn) \<in> set (connections (server (sworld s))) \<longrightarrow>
       (sockfd x, cn) \<in> set (connections (server (sworld u))))" if x: "conns (sworld s) cn = Some x" for cn x
  proof -
    obtain y where y: "conns (sworld t) cn = Some y" "sockfd y = sockfd x" "state x \<le> state y"
      "state x = kDisconnected \<and> (sockfd x, cn) \<in> set (connections (server (sworld s))) \<longrightarrow>
       (sockfd x, cn) \<in> set (connections (server (sworld t)))" using step x by blast
    obtain z where z: "conns (sworld u) cn = Some z" "sockfd z = sockfd y" "state y \<le> state z"
      "(sockfd y, cn) \<in> set (connections (server (sworld t))) \<longrightarrow>
       (sockfd y, cn) \<in> set (connections (server (sworld u))) \<or> state y = kConnected \<and> state z = kDisconnected"
      using u(2) y(1) unfolding advances_def by blast
    have "state x \<le> state z" using y(3) z(3) by (rule order_trans)
    moreover have "state y \<noteq> kConnected" if "state x = kDisconnected"
      using y(3) that kDisconnected_top [of "state y"] by auto
    ultimately show ?thesis using y z by auto
  qed
  with u(1) show ?case by blast
qed auto

end

end
