(* ===== verification/KernelViews.thy ===== *)
theory KernelViews
  imports ServerThreads
begin

text \<open>
  What the calls on sockets leave alone. A view of the kernel that reading, writing, asking for
  the time and socket options do not change (the interest lists of epoll are one) is not
  changed by any step of the server's threads but the registration of a client.
\<close>

definition socket_keeps :: "'k os \<Rightarrow> ('k \<Rightarrow> 'a) \<Rightarrow> bool" where
  "socket_keeps sys f \<longleftrightarrow> (\<forall>k. f (snd (sys_time sys k)) = f k) \<and>
     (\<forall>fd n k. f (snd (sys_read sys fd n k)) = f k) \<and>
     (\<forall>fd data k. f (snd (sys_write sys fd data k)) = f k) \<and>
     (\<forall>fd opt k. f (snd (sys_setsockopt sys fd opt k)) = f k) \<and>
     (\<forall>fd k. f (snd (sys_getsockopt_error sys fd k)) = f k)"

lemma socket_keepsD:
  assumes "socket_keeps sys f"
  shows "sys_time sys k = (t, k') \<Longrightarrow> f k' = f k"
    and "sys_read sys fd n k = (res, k') \<Longrightarrow> f k' = f k"
    and "sys_write sys fd data k = (n', k') \<Longrightarrow> f k' = f k"
    and "sys_getsockopt_error sys fd k = (err, k') \<Longrightarrow> f k' = f k"
  using assms unfolding socket_keeps_def by (metis snd_conv)+

lemma socket_keeps_calls: "socket_keeps sys f \<Longrightarrow> calls_keep sys f"
  by (simp add: socket_keeps_def calls_keep_def)

section \<open>Connections\<close>

lemma updateLastActiveTime_keeps:
  assumes "socket_keeps (os b) f" and "updateLastActiveTime b cn w = Inr w'"
  shows "f (kernel w') = f (kernel w)"
proof -
  obtain t k where t: "sys_time (os b) (kernel w) = (t, k)" by (rule prod.exhaust)
  then have "kernel w' = k"
    using assms(2) by (auto simp: updateLastActiveTime_def now_def on_conn_def elim!: outcome_elims)
  with socket_keepsD(1) [OF assms(1) t] show ?thesis by simp
qed

lemma try_write_keeps:
  assumes "socket_keeps (os b) f" and "try_write b x data k = (res, k')"
  shows "f k' = f k"
proof -
  obtain n k1 where n: "sys_write (os b) (sockfd x) data k = (n, k1)" by (rule prod.exhaust)
  then have "k' = k \<or> k' = k1"
    using assms(2) by (auto simp: try_write_def direct_write_def Let_def split: if_splits)
  with socket_keepsD(3) [OF assms(1) n] show ?thesis by auto
qed

lemma send_keeps:
  assumes "socket_keeps (os b) f" and "send b cn data w = Inr (n, w')"
  shows "f (kernel w') = f (kernel w)"
proof -
  obtain x where x: "get_conn cn w = Inr x" using assms(2) by (auto simp: send_def elim!: outcome_elims)
  show ?thesis
  proof (cases "state x = kConnected")
    case True
    then obtain v where v: "updateLastActiveTime b cn w = Inr v" using assms(2) x
      by (auto simp: send_def elim!: outcome_elims)
    obtain res k where res: "try_write b x data (kernel v) = (res, k)" by (rule prod.exhaust)
    have "kernel w' = k" using assms(2) x True v res
      by (cases res) (auto simp: send_def Let_def cpp_assert_Inr_iff elim!: outcome_elims split: if_splits)
    then show ?thesis using try_write_keeps [OF assms(1) res] updateLastActiveTime_keeps [OF assms(1) v] by simp
  qed (use assms(2) x in \<open>simp add: send_def\<close>)
qed

lemma server_close_kernel:
  assumes "app_law on_connection" and "server_close on_connection cb cn w = Inr w'"
  shows "kernel w' = kernel w"
proof -
  obtain v x where v: "removeConnection cn w = Inr v" "notify on_connection cn v = Inr w'" "conns v cn = Some x"
    "kernel v = kernel w"
    using assms(2) by (auto simp: server_close_def removeConnection_def guarded_def lock_connections_def
        unlock_connections_def get_conn_def elim!: outcome_elims split: if_splits option.splits)
  then show ?thesis using notify_law [OF assms(1) v(3)] by (metis sum.inject(2))
qed

lemma close_kernel:
  assumes "app_law on_connection" and "closeConnection (server_close on_connection) cn w = Inr w'"
  shows "kernel w' = kernel w"
proof -
  obtain x where x: "get_conn cn w = Inr x" using assms(2) by (auto simp: closeConnection_def elim!: outcome_elims)
  show ?thesis
  proof (cases "state x = kConnected")
    case True
    then obtain u v where u: "on_conn cn (setState kDisconnecting) w = Inr u" "on_conn cn (setState kDisconnected) v = Inr w'"
      and v: "(case close_callback x of None \<Rightarrow> Inr u | Some cb \<Rightarrow> server_close on_connection cb cn u) = Inr v"
      using assms(2) x by (auto simp: closeConnection_def elim!: outcome_elims)
    have "kernel v = kernel u" using v server_close_kernel [OF assms(1)] by (cases "close_callback x") auto
    then show ?thesis using on_conn_kernel [OF u(1)] on_conn_kernel [OF u(2)] by simp
  qed (use assms(2) x in \<open>simp add: closeConnection_def\<close>)
qed

lemma handleError_keeps:
  assumes "socket_keeps (os b) f" and "app_law on_connection" and "handleError b (server_close on_connection) cn w = Inr w'"
  shows "f (kernel w') = f (kernel w)"
proof -
  obtain x where x: "get_conn cn w = Inr x" using assms(3) by (auto simp: handleError_def elim!: outcome_elims)
  obtain err k where err: "sys_getsockopt_error (os b) (sockfd x) (kernel w) = (err, k)" by (rule prod.exhaust)
  then have "closeConnection (server_close on_connection) cn (w\<lparr>kernel := k\<rparr>) = Inr w'"
    using assms(3) x by (cases err) (simp add: handleError_def)
  from close_kernel [OF assms(2) this] socket_keepsD(4) [OF assms(1) err] show ?thesis by simp
qed

lemma handleWrite_keeps:
  assumes "socket_keeps (os b) f" and "app_law on_connection" and "handleWrite b (server_close on_connection) cn w = Inr w'"
  shows "f (kernel w') = f (kernel w)"
proof -
  obtain v x where v: "updateLastActiveTime b cn w = Inr v" "get_conn cn v = Inr x"
    using assms(3) by (auto simp: handleWrite_def elim!: outcome_elims)
  obtain n k where n: "sys_write (os b) (sockfd x) (output_buffer x) (kernel v) = (n, k)" by (rule prod.exhaust)
  have "w' = v \<or> kernel w' = k \<or> handleError b (server_close on_connection) cn (v\<lparr>kernel := k\<rparr>) = Inr w'"
    using assms(3) v n on_conn_kernel by (auto simp: handleWrite_def Let_def split: if_splits) fastforce+
  with handleError_keeps [OF assms(1,2), of cn "v\<lparr>kernel := k\<rparr>" w'] show ?thesis
    using socket_keepsD(3) [OF assms(1) n] updateLastActiveTime_keeps [OF assms(1) v(1)] by auto
qed

lemma handleRead_keeps:
  assumes "socket_keeps (os b) f" and "app_law on_connection"
    and msg: "\<And>m msg w w'. on_message m cn msg w = Inr w' \<Longrightarrow> f (kernel w') = f (kernel w)"
    and "handleRead b on_message (server_close on_connection) cn w = Inr w'"
  shows "f (kernel w') = f (kernel w)"
proof -
  obtain v x where v: "updateLastActiveTime b cn w = Inr v" "get_conn cn v = Inr x"
    using assms(4) by (auto simp: handleRead_def elim!: outcome_elims)
  obtain n buf k where n: "sys_read (os b) (sockfd x) kBufferSize (kernel v) = ((n, buf), k)" by (metis prod.exhaust)
  let ?v = "v\<lparr>kernel := k\<rparr>"
  have run: "handleRead b on_message (server_close on_connection) cn w = (if n > 0 then
      obind (on_conn cn (\<lambda>x. x\<lparr>input_buffer := input_buffer x @ take (nat n) buf\<rparr>) ?v) (\<lambda>w.
      obind (get_conn cn w) (\<lambda>x. case message_callback x of None \<Rightarrow> Inr w
        | Some cb \<Rightarrow> obind (on_message cb cn (input_buffer x) w) (on_conn cn (\<lambda>x. x\<lparr>input_buffer := []\<rparr>))))
      else if n = 0 then closeConnection (server_close on_connection) cn ?v
      else if sys_errno (os b) k \<noteq> EWOULDBLOCK \<and> sys_errno (os b) k \<noteq> EAGAIN
        then handleError b (server_close on_connection) cn ?v else Inr ?v)"
    using v n by (simp add: handleRead_def Let_def)
  note res = assms(4) [unfolded run]
  have "f (kernel w') = f k"
  proof (cases "n > 0")
    case True
    then obtain u y where u: "on_conn cn (\<lambda>x. x\<lparr>input_buffer := input_buffer x @ take (nat n) buf\<rparr>) ?v = Inr u"
      "get_conn cn u = Inr y" and y: "(case message_callback y of None \<Rightarrow> Inr u | Some cb \<Rightarrow> obind (on_message cb cn (input_buffer y) u)
        (on_conn cn (\<lambda>x. x\<lparr>input_buffer := []\<rparr>))) = Inr w'"
      using True res by (auto elim!: outcome_elims)
    have "f (kernel w') = f (kernel u)"
    proof (cases "message_callback y")
      case (Some m)
      then obtain u' where "on_message m cn (input_buffer y) u = Inr u'" "on_conn cn (\<lambda>x. x\<lparr>input_buffer := []\<rparr>) u' = Inr w'"
        using y by (auto elim!: outcome_elims)
      with msg on_conn_kernel show ?thesis by metis
    qed (use y in simp)
    then show ?thesis using on_conn_kernel [OF u(1)] by simp
  next
    case False
    then show ?thesis
      using res close_kernel [OF assms(2), of cn ?v w'] handleError_keeps [OF assms(1,2), of cn ?v w']
      by (auto split: if_splits)
  qed
  then show ?thesis
    using socket_keepsD(2) [OF assms(1) n] updateLastActiveTime_keeps [OF assms(1) v(1)] by simp
qed

section \<open>The server\<close>

lemma broadcast_list_keeps:
  assumes "socket_keeps (os b) f"
  shows "ofold (broadcast_one b message) cs w = Inr w' \<Longrightarrow> f (kernel w') = f (kernel w)"
proof (induction cs arbitrary: w)
  case (Cons p cs)
  then obtain v where v: "broadcast_one b message p w = Inr v" "ofold (broadcast_one b message) cs v = Inr w'"
    by (auto elim!: outcome_elims)
  then have "f (kernel v) = f (kernel w)"
    using send_keeps [OF assms] by (auto simp: broadcast_one_def elim!: outcome_elims split: if_splits prod.splits)
  with Cons.IH [OF v(2)] show ?case by simp
qed simp

lemma broadcast_keeps:
  assumes "socket_keeps (os b) f" and "broadcast b message w = Inr w'"
  shows "f (kernel w') = f (kernel w)"
  using assms(2) broadcast_list_keeps [OF assms(1)]
  by (auto simp: broadcast_def guarded_def lock_connections_def unlock_connections_def elim!: outcome_elims split: if_splits)
    fastforce

lemma queue_connection_keeps:
  assumes "socket_keeps (os b) f" and run: "queue_connection b me on_connection fd peer w = Inr (cn, w')"
    and pool: "\<And>r. r \<in> set (sub_reactors (server w)) \<Longrightarrow> \<exists>R. reactors w r = Some R \<and> \<not> isInLoopThread me R"
  shows "f (kernel w') = f (kernel w)"
proof -
  note calls = socket_keeps_calls [OF assms(1)]
  obtain r s R w3 where w3: "kernel w3 = kernel (new_connection b (next_conn w) fd peer (w\<lparr>server := s, next_conn := Suc (next_conn w)\<rparr>))"
    "queueInLoop b me r (Register (next_conn w) r) w3 = Inr w'" by (rule queue_connection_calls [OF run pool])
  then show ?thesis
    using queueInLoop_keeps [OF calls w3(2)]
      new_connection_keeps [OF calls, of "next_conn w" fd peer "w\<lparr>server := s, next_conn := Suc (next_conn w)\<rparr>"] by simp
qed

end
