(* ===== verification/Polling.thy ===== *)
theory Polling
  imports EventLoop
begin

text \<open>
  Polling, on both platforms: with the poller's table in step with the channels and, for epoll,
  with the kernel's interest list, a poll returns, reports registered channels only, and changes
  nothing of the channels but the returned events.
\<close>

section \<open>What polling changes\<close>

definition revents_only :: "('k, 'cb, 'z) net_scheme \<Rightarrow> ('k, 'cb, 'z) net_scheme \<Rightarrow> bool" where
  "revents_only w w' \<longleftrightarrow> net.more w' = net.more w \<and>
     (\<forall>c. case heap w c of None \<Rightarrow> heap w' c = None | Some ch \<Rightarrow> \<exists>m. heap w' c = Some (setRevents m ch))"

lemma revents_same: "setRevents (ch_revents ch) ch = ch" "setRevents m (setRevents n ch) = setRevents m ch"
  by (simp_all add: setRevents_def)

lemma revents_only_kernel [simp]: "revents_only w (w\<lparr>kernel := k\<rparr>)"
  by (auto simp: revents_only_def split: option.splits) (metis revents_same(1))

lemma revents_only_refl [simp]: "revents_only w w"
  using revents_only_kernel [of w "kernel w"] by simp

lemma revents_only_store: "heap w c = Some ch \<Longrightarrow> revents_only w (store c (setRevents m ch) w)"
  by (auto simp: revents_only_def store_def split: option.splits) (metis revents_same(1))

lemma dom_store: "heap w c = Some ch \<Longrightarrow> dom (heap (store c ch' w)) = dom (heap w)"
  by auto

lemma revents_onlyD:
  assumes "revents_only w w'"
  shows "heap w c = None \<longleftrightarrow> heap w' c = None"
    and "heap w c = Some ch \<Longrightarrow> \<exists>m. heap w' c = Some (setRevents m ch)"
    and "heap w' c = Some ch' \<Longrightarrow> \<exists>ch m. heap w c = Some ch \<and> ch' = setRevents m ch"
  using assms unfolding revents_only_def by (auto split: option.splits dest!: spec [of _ c])

lemma revents_cases:
  assumes "revents_only w w'"
  obtains (dead) "heap w c = None" "heap w' c = None"
  | (live) ch m where "heap w c = Some ch" "heap w' c = Some (setRevents m ch)"
  using revents_onlyD(1,2) [OF assms, of c] by (cases "heap w c") auto

lemma revents_only_trans:
  assumes "revents_only u v" and "revents_only v w"
  shows "revents_only u w"
proof -
  have "case heap u c of None \<Rightarrow> heap w c = None | Some ch \<Rightarrow> \<exists>m. heap w c = Some (setRevents m ch)" for c
    using revents_onlyD(1,2) [OF assms(1), of c] revents_onlyD(1,2) [OF assms(2), of c]
    by (auto split: option.splits simp: revents_same) (metis revents_same(2))
  with assms show ?thesis by (simp add: revents_only_def)
qed

lemma revents_only_rnet:
  assumes "revents_only w w'"
  shows "reactors w' = reactors w" and "next_chan w' = next_chan w" and "rnet.more w' = rnet.more w"
  using assms by (cases w; cases w'; simp add: revents_only_def)+

lemma revents_only_table:
  assumes "revents_only w w'"
  shows "wf_table C m w' = wf_table C m w"
proof -
  have "fd_of w' = fd_of w"
  proof
    show "fd_of w' c = fd_of w c" for c
      by (cases rule: revents_cases [OF assms, of c]) (simp_all add: fd_of_def)
  qed
  moreover have "dom (heap w') = dom (heap w)" by (simp add: dom_def revents_onlyD(1) [OF assms])
  ultimately show ?thesis by (simp add: wf_table_def distinct_fds_def)
qed

lemma revents_only_poller:
  assumes "revents_only w w'" and "wf_poller C (p, w)"
  shows "wf_poller C (p, w')"
  using assms(2) revents_only_table [OF assms(1)]
  by (cases p) (auto dest!: revents_onlyD(3) [OF assms(1)])

lemma revents_only_expected:
  assumes "revents_only w w'"
  shows "expected_interest p w' = expected_interest p w"
proof
  fix fd
  show "expected_interest p w' fd = expected_interest p w fd"
  proof (cases "ep_channels p fd")
    case (Some c)
    then show ?thesis by (cases rule: revents_cases [OF assms, of c]) (simp_all add: expected_interest_def)
  qed (simp add: expected_interest_def)
qed

section \<open>The epoll poller\<close>

text \<open>Delivering events: every pointer must be live; then the list grows by the pointers, in order.\<close>

lemma fill_active_all:
  assumes "snd ` set evs \<subseteq> dom (heap w)"
  shows "\<exists>w'. ofold fill_active evs (active, w) = Inr (active @ map snd evs, w') \<and>
     revents_only w w' \<and> kernel w' = kernel w"
  using assms
proof (induction evs arbitrary: active w)
  case (Cons ev evs)
  obtain m c where ev: "ev = (m, c)" by force
  obtain ch where ch: "heap w c = Some ch" using Cons.prems ev by auto
  let ?w = "store c (setRevents m ch) w"
  have "fill_active ev (active, w) = Inr (active @ [c], ?w)" using ev ch by (simp add: fill_active_def)
  moreover have "snd ` set evs \<subseteq> dom (heap ?w)" using Cons.prems dom_store [OF ch] by auto
  from Cons.IH [OF this, of "active @ [c]"] obtain w' where
    "ofold fill_active evs (active @ [c], ?w) = Inr ((active @ [c]) @ map snd evs, w')"
    "revents_only ?w w'" "kernel w' = kernel w" by auto
  ultimately show ?case using ev revents_only_trans [OF revents_only_store [OF ch]] by auto
qed simp

lemma epoll_poll_law:
  assumes "epoll_wait_documented sys il" and "synced il (p, w)" and "ran (ep_channels p) \<subseteq> dom (heap w)"
  shows "\<exists>ready p' w'. epoll_poll sys timeout_ms (p, w) active = Inr (active @ ready, p', w') \<and>
     revents_only w w' \<and> il (kernel w') = il (kernel w) \<and>
     distinct ready \<and> set ready \<subseteq> ran (ep_channels p) \<and>
     ep_fd p' = ep_fd p \<and> ep_channels p' = ep_channels p \<and>
     ep_events_size p' = (if ready \<noteq> [] \<and> length ready = ep_events_size p
       then 2 * ep_events_size p else ep_events_size p)"
proof -
  obtain res k where wait: "sys_epoll_wait sys (ep_fd p) (ep_events_size p) timeout_ms (kernel w) = (res, k)"
    by force
  note doc = assms(1) [unfolded epoll_wait_documented_def, rule_format, where epfd = "ep_fd p"
      and n = "ep_events_size p" and t = timeout_ms and k = "kernel w", unfolded wait, simplified]
  let ?w = "w\<lparr>kernel := k\<rparr>"
  show ?thesis
  proof (cases "res = None \<or> res = Some []")
    case True
    with doc show ?thesis
      by (intro exI [of _ "[]"] exI [of _ p] exI [of _ ?w]) (auto simp: epoll_poll_def wait)
  next
    case False
    then obtain evs where evs: "res = Some evs" "evs \<noteq> []" by auto
    have live: "snd ` set evs \<subseteq> ran (ep_channels p)"
      using doc evs assms(2)
      by (force simp: synced_def expected_interest_def ran_def split: option.splits if_splits)
    then obtain w' where w': "ofold fill_active evs (active, ?w) = Inr (active @ map snd evs, w')"
      "revents_only ?w w'" "kernel w' = k"
      using fill_active_all [of evs ?w active] assms(3) by auto
    let ?p = "if length evs = ep_events_size p then p\<lparr>ep_events_size := ep_events_size p * 2\<rparr> else p"
    have "epoll_poll sys timeout_ms (p, w) active = Inr (active @ map snd evs, ?p, w')"
      using evs w'(1) by (simp add: epoll_poll_def wait)
    moreover have "revents_only w w'" using revents_only_trans [OF revents_only_kernel w'(2)] .
    ultimately show ?thesis
      using doc evs live w'(3) by (intro exI [of _ "map snd evs"] exI [of _ ?p] exI [of _ w']) auto
  qed
qed


section \<open>The select poller\<close>

lemma select_fds_all:
  "set cs \<subseteq> dom (heap w) \<Longrightarrow> \<exists>acc'. ofold select_fds cs (acc, w) = Inr (acc', w)"
proof (induction cs arbitrary: acc)
  case (Cons c cs)
  then obtain ch where "heap w c = Some ch" by auto
  then obtain acc' where "select_fds c (acc, w) = Inr (acc', w)"
    by (cases acc rule: prod_cases4) (auto simp: select_fds_def Let_def)
  with Cons show ?case by auto
qed (simp del: split_paired_Ex)

lemma select_collect_all:
  "set cs \<subseteq> dom (heap w) \<Longrightarrow> distinct cs \<Longrightarrow> \<exists>ready w'. ofold (select_collect rs ws es) cs (active, w) = Inr (active @ ready, w') \<and>
     revents_only w w' \<and> kernel w' = kernel w \<and> distinct ready \<and> set ready \<subseteq> set cs"
proof (induction cs arbitrary: active w)
  case (Cons c cs)
  then obtain ch where ch: "heap w c = Some ch" by auto
  then consider (quiet) "select_collect rs ws es c (active, w) = Inr (active, w)"
    | (ready) m where "select_collect rs ws es c (active, w) = Inr (active @ [c], store c (setRevents m ch) w)"
    by (simp add: select_collect_def Let_def) metis
  then show ?case
  proof cases
    case quiet
    with Cons.IH [of w active] Cons.prems show ?thesis by auto
  next
    case ready
    let ?w = "store c (setRevents m ch) w"
    have "set cs \<subseteq> dom (heap ?w)" using Cons.prems(1) dom_store [OF ch] by auto
    from Cons.IH [OF this, of "active @ [c]"] Cons.prems(2) obtain rd w' where
      "ofold (select_collect rs ws es) cs (active @ [c], ?w) = Inr ((active @ [c]) @ rd, w')"
      "revents_only ?w w'" "kernel w' = kernel w" "distinct rd" "set rd \<subseteq> set cs" by auto
    with ready Cons.prems(2) revents_only_trans [OF revents_only_store [OF ch]] show ?thesis
      by (intro exI [of _ "c # rd"] exI [of _ w']) auto
  qed
qed simp

lemma select_poll_law:
  assumes "set (sp_polled p) \<subseteq> dom (heap w)" and "distinct (sp_polled p)"
    and "\<And>n rs ws es t k. f (snd (sys_select sys n rs ws es t k)) = f k"
  shows "\<exists>ready w'. select_poll sys timeout_ms (p, w) active = Inr (active @ ready, p, w') \<and>
     revents_only w w' \<and> f (kernel w') = f (kernel w) \<and> distinct ready \<and> set ready \<subseteq> set (sp_polled p)"
proof (cases "sp_polled p = []")
  case False
  obtain rs ws es m where fds: "ofold select_fds (sp_polled p) (([], [], [], 0), w) = Inr ((rs, ws, es, m), w)"
    using select_fds_all [OF assms(1), of "([], [], [], 0)"] by auto
  obtain res rs' ws' es' k where sel: "sys_select sys (m + 1) rs ws es
      (if timeout_ms < 0 then None else Some (timeout_ms div 1000, timeout_ms mod 1000 * 1000)) (kernel w) =
      ((res, rs', ws', es'), k)" by (metis prod.exhaust)
  have k: "f k = f (kernel w)" using assms(3) sel by (metis snd_conv)
  let ?w = "w\<lparr>kernel := k\<rparr>"
  have "set (sp_polled p) \<subseteq> dom (heap ?w)" using assms(1) by simp
  from select_collect_all [OF this assms(2), of rs' ws' es' active] obtain ready w' where
    w': "ofold (select_collect rs' ws' es') (sp_polled p) (active, ?w) = Inr (active @ ready, w')"
      "revents_only ?w w'" "kernel w' = k" "distinct ready" "set ready \<subseteq> set (sp_polled p)" by auto
  have "revents_only w w'" using revents_only_trans [OF revents_only_kernel w'(2)] .
  then show ?thesis using False fds sel w' k
    by (cases "res > 0") (auto simp: select_poll_def intro: exI [of _ "[]"])
qed (simp add: select_poll_def)

section \<open>Both\<close>

text \<open>For epoll the kernel's interest list is in step with the table; select asks for no such thing.\<close>

fun poller_synced :: "('k \<Rightarrow> int \<Rightarrow> int \<rightharpoonup> epoll_event) \<Rightarrow> poller \<times> ('k, 'cb, 'z) net_scheme \<Rightarrow> bool" where
  "poller_synced il (Epoll p, w) \<longleftrightarrow> synced il (p, w)"
| "poller_synced il (Select p, w) \<longleftrightarrow> True"

text \<open>The descriptor of the kernel's interest list.\<close>

fun poller_fd :: "poller \<Rightarrow> int option" where
  "poller_fd (Epoll p) = Some (ep_fd p)"
| "poller_fd (Select p) = None"

lemma expected_interest_agree:
  assumes "\<And>c. c \<in> ran (ep_channels p) \<Longrightarrow> heap w' c = heap w c"
  shows "expected_interest p w' = expected_interest p w"
  using assms by (auto simp: expected_interest_def fun_eq_iff ran_def split: option.splits) (metis option.inject option.distinct)+

lemma poller_synced_cong:
  assumes "\<And>c. c \<in> registrations p \<Longrightarrow> heap w' c = heap w c"
    and "\<And>e. poller_fd p = Some e \<Longrightarrow> il (kernel w') e = il (kernel w) e"
  shows "poller_synced il (p, w') = poller_synced il (p, w)"
proof (cases p)
  case (Epoll q)
  with assms expected_interest_agree [of q w' w] show ?thesis by (simp add: synced_def)
qed simp

text \<open>The documented behaviour of the two waiting calls, for an interest list.\<close>

definition wait_documented :: "'k os \<Rightarrow> ('k \<Rightarrow> int \<Rightarrow> int \<rightharpoonup> epoll_event) \<Rightarrow> bool" where
  "wait_documented sys il \<longleftrightarrow> epoll_wait_documented sys il \<and>
     (\<forall>n rs ws es t k. il (snd (sys_select sys n rs ws es t k)) = il k)"

lemma registrations_live: "wf_poller C (p, w) \<Longrightarrow> registrations p \<subseteq> C \<inter> dom (heap w)"
  by (cases p) (auto simp: wf_table_def distinct_fds_def ran_def)

lemma poller_poll_law:
  assumes doc: "wait_documented sys il" and wf: "wf_poller C (p, w)" and sync: "poller_synced il (p, w)"
  shows "\<exists>ready p' w'. poller_poll sys timeout_ms (p, w) active = Inr (active @ ready, p', w') \<and>
     revents_only w w' \<and> il (kernel w') = il (kernel w) \<and> distinct ready \<and> set ready \<subseteq> registrations p \<and>
     registrations p' = registrations p \<and> poller_fd p' = poller_fd p \<and>
     wf_poller C (p', w') \<and> poller_synced il (p', w')"
proof (cases p)
  case (Epoll q)
  with doc registrations_live [OF wf] sync have
    q: "epoll_wait_documented sys il" "synced il (q, w)" "ran (ep_channels q) \<subseteq> dom (heap w)"
    by (auto simp: wait_documented_def)
  from epoll_poll_law [OF this, of timeout_ms active] obtain ready q' w' where
    w': "epoll_poll sys timeout_ms (q, w) active = Inr (active @ ready, q', w')" "revents_only w w'"
      "il (kernel w') = il (kernel w)" "distinct ready" "set ready \<subseteq> ran (ep_channels q)"
      "ep_fd q' = ep_fd q" "ep_channels q' = ep_channels q" by blast
  have "wf_epoll C (q, w')" using revents_only_poller [OF w'(2) wf] Epoll by simp
  then have "wf_epoll C (q', w')" using w'(7) by simp
  moreover have "synced il (q', w')"
    using q(2) revents_only_expected [OF w'(2)] w'(3,6,7) by (simp add: synced_def expected_interest_def fun_eq_iff)
  ultimately show ?thesis using w' Epoll
    by (intro exI [of _ ready] exI [of _ "Epoll q'"] exI [of _ w']) (simp del: wf_epoll.simps)
next
  case (Select q)
  have "set (sp_polled q) \<subseteq> dom (heap w)" "distinct (sp_polled q)"
    using registrations_live [OF wf] wf Select by auto
  moreover have "\<And>n rs ws es t k. il (snd (sys_select sys n rs ws es t k)) = il k"
    using doc by (simp add: wait_documented_def)
  ultimately obtain ready w' where
    w': "select_poll sys timeout_ms (q, w) active = Inr (active @ ready, q, w')" "revents_only w w'"
      "il (kernel w') = il (kernel w)" "distinct ready" "set ready \<subseteq> set (sp_polled q)"
    using select_poll_law [where f = il] by metis
  then show ?thesis using revents_only_poller [OF w'(2) wf] Select
    by (intro exI [of _ ready] exI [of _ p] exI [of _ w']) (simp del: wf_select.simps)
qed

section \<open>Changing an interest\<close>

lemma ctl_others:
  assumes "epoll_ctl_documented sys il" and "e \<noteq> epfd"
  shows "il (snd (sys_epoll_ctl sys epfd op fd ev k)) e = il k e"
  using assms(1) [unfolded epoll_ctl_documented_def, rule_format, where epfd = epfd and op = op and fd = fd and ev = ev and k = k] assms(2)
  by (auto split: prod.splits ctl_op.splits option.splits)

lemma poller_update_others:
  assumes "epoll_ctl_documented sys il" and "heap w c = Some ch" and "poller_updateChannel sys c (p, w) = Inr (p', w')"
  shows "poller_fd p' = poller_fd p" and "Some e \<noteq> poller_fd p \<Longrightarrow> il (kernel w') e = il (kernel w) e"
  using assms ctl_others [OF assms(1)]
  by (cases p; auto simp: epoll_updateChannel_def select_updateChannel_def epoll_update_eq Let_def
      elim!: outcome_elims split: if_splits option.splits)+

text \<open>The poller's part of an interest change and of a removal.\<close>

lemma change_interest_runs:
  assumes ch: "heap w c = Some ch" "reactors w (ch_reactor ch) = Some R" and run: "change_interest b me i c w = Inr w'"
  obtains p w1 ix k where "poller_updateChannel (os b) c (r_poller R, store c (set_interest (platform b) i ch) w) = Inr (p, w1)"
    and "w1 = store c (setIndex ix (set_interest (platform b) i ch)) (w\<lparr>kernel := k\<rparr>)"
    and "w' = put_reactor (ch_reactor ch) (R\<lparr>r_poller := p\<rparr>) w1"
proof -
  let ?ch = "set_interest (platform b) i ch" and ?v = "store c (set_interest (platform b) i ch) w"
  have own: "ch_reactor ?ch = ch_reactor ch" by (simp add: set_interest_def)
  have v: "heap ?v c = Some ?ch" by simp
  obtain p w1 where w1: "poller_updateChannel (os b) c (r_poller R, ?v) = Inr (p, w1)"
    "w' = put_reactor (ch_reactor ch) (R\<lparr>r_poller := p\<rparr>) w1"
    using run ch own by (auto simp: change_interest_def channel_update_def reactor_updateChannel_def deref_def
        cpp_assert_Inr_iff elim!: outcome_elims)
  from poller_updateChannel_shape [OF v, of "os b" "r_poller R"] w1(1) obtain ix k where
    "w1 = store c (setIndex ix ?ch) (w\<lparr>kernel := k\<rparr>)" by (auto simp: touched_def)
  with that w1 show thesis by blast
qed

lemma channel_remove_runs:
  assumes ch: "heap w c = Some ch" "reactors w (ch_reactor ch) = Some R" and run: "channel_remove b me c w = Inr w'"
  obtains p w1 ix k where "poller_removeChannel (os b) c (r_poller R, w) = Inr (p, w1)"
    and "w1 = store c (setIndex ix ch) (w\<lparr>kernel := k\<rparr>)" and "w' = put_reactor (ch_reactor ch) (R\<lparr>r_poller := p\<rparr>) w1"
proof -
  obtain p w1 where w1: "poller_removeChannel (os b) c (r_poller R, w) = Inr (p, w1)"
    "w' = put_reactor (ch_reactor ch) (R\<lparr>r_poller := p\<rparr>) w1"
    using run ch by (auto simp: channel_remove_def reactor_removeChannel_def deref_def cpp_assert_Inr_iff elim!: outcome_elims)
  from poller_removeChannel_shape [OF ch(1), of "os b" "r_poller R"] w1(1) obtain ix k where
    "w1 = store c (setIndex ix ch) (w\<lparr>kernel := k\<rparr>)" by (auto simp: touched_def)
  with that w1 show thesis by blast
qed

lemma poller_remove_others:
  assumes "epoll_ctl_documented sys il" and "heap w c = Some ch" and "poller_removeChannel sys c (p, w) = Inr (p', w')"
  shows "poller_fd p' = poller_fd p" and "Some e \<noteq> poller_fd p \<Longrightarrow> il (kernel w') e = il (kernel w) e"
  using assms ctl_others [OF assms(1)]
  by (cases p; auto simp: epoll_removeChannel_def select_removeChannel_def epoll_update_eq Let_def
      elim!: outcome_elims split: if_splits option.splits)+

text \<open>
  An interest change keeps the reactor's own interest list in step and leaves those of the other
  reactors alone.
\<close>

lemma change_interest_synced:
  assumes doc: "epoll_ctl_documented (os b) il" and wf: "wf_reactor b me r C w" and c: "c \<in> C"
    and R: "reactors w r = Some R" and sync: "poller_synced il (r_poller R, w)"
    and run: "change_interest b me i c w = Inr w'"
  obtains p ch ix where "reactors w' = (reactors w)(r \<mapsto> R\<lparr>r_poller := p\<rparr>)" and "poller_synced il (p, w')"
    and "poller_fd p = poller_fd (r_poller R)" and "heap w c = Some ch"
    and "heap w' = (heap w)(c \<mapsto> setIndex ix (set_interest (platform b) i ch))"
    and "\<And>e. Some e \<noteq> poller_fd (r_poller R) \<Longrightarrow> il (kernel w') e = il (kernel w) e"
proof -
  obtain ch where ch: "heap w c = Some ch" "ch_reactor ch = r" "may_touch b me R" "wf_poller C (r_poller R, w)"
    using wf c R by (auto elim!: wf_reactorE)
  let ?ch = "set_interest (platform b) i ch" and ?v = "store c (set_interest (platform b) i ch) w"
  have own: "reactors w (ch_reactor ch) = Some R" using R ch(2) by simp
  obtain p w1 ix k where w1: "poller_updateChannel (os b) c (r_poller R, ?v) = Inr (p, w1)"
    "w' = put_reactor r (R\<lparr>r_poller := p\<rparr>) w1" and t: "w1 = store c (setIndex ix ?ch) (w\<lparr>kernel := k\<rparr>)"
    using change_interest_runs [OF ch(1) own run] ch(2) by metis
  have v: "heap ?v c = Some ?ch" by simp
  have "poller_synced il (p, w1)"
  proof (cases "r_poller R")
    case (Epoll q)
    then obtain q' where q': "epoll_set_events (os b) (new_events (platform b) i (ch_events ch)) c (q, w) = Inr (q', w1)" "p = Epoll q'"
      using w1(1) ch(1) by (auto simp: epoll_set_events_def set_interest_def elim!: outcome_elims)
    have "wf_epoll C (q, w)" "synced il (q, w)" using ch(4) sync Epoll by simp_all
    from epoll_set_events_synced [OF doc this c q'(1)] q'(2) show ?thesis by simp
  next
    case (Select q)
    then show ?thesis using w1(1) by (auto elim!: outcome_elims)
  qed
  then have "poller_synced il (p, w')" using poller_synced_cong [of p w' w1 il] w1(2) by simp
  moreover have "reactors w' = (reactors w)(r \<mapsto> R\<lparr>r_poller := p\<rparr>)" "heap w' = (heap w)(c \<mapsto> setIndex ix ?ch)"
    using w1(2) t by simp_all
  moreover have "poller_fd p = poller_fd (r_poller R)" using poller_update_others(1) [OF doc v w1(1)] .
  moreover have "il (kernel w') e = il (kernel w) e" if "Some e \<noteq> poller_fd (r_poller R)" for e
    using poller_update_others(2) [OF doc v w1(1) that] w1(2) by simp
  ultimately show thesis using that ch(1) by metis
qed

section \<open>Witness\<close>


end
