(* ===== verification/Registry.thy ===== *)
theory Registry
  imports KernelViews Polling
begin

text \<open>
  The channels of the sub-reactors of a running server: every channel belongs to a wakeup
  descriptor or to a client, the pollers' tables are in step with the channels and with the
  kernel, and polling and registering keep this so.
\<close>

section \<open>The invariant\<close>

definition chans :: "reactor_ptr \<Rightarrow> ('k, 'cb, 'z) net_scheme \<Rightarrow> chan_ptr set" where
  "chans r w = {c. \<exists>ch. heap w c = Some ch \<and> ch_reactor ch = r}"

text \<open>The channel that wakes its reactor, and the channel of a registered client.\<close>

definition is_wakeup :: "('k, 'm, 'u, 'z) snet_scheme \<Rightarrow> chan_cb channel \<Rightarrow> bool" where
  "is_wakeup w ch \<longleftrightarrow> (\<exists>R. reactors w (ch_reactor ch) = Some R \<and> ch_fd ch = r_wakeup_fd R) \<and>
     read_callback ch = Some (OnWakeup (ch_reactor ch)) \<and> write_callback ch = None \<and>
     Channel.channel.close_callback ch = None \<and> error_callback ch = None"

definition of_client :: "('k, 'm, 'u, 'z) snet_scheme \<Rightarrow> chan_ptr \<Rightarrow> bool" where
  "of_client w c \<longleftrightarrow> (\<exists>cn x. conns w cn = Some x \<and> conn_channel x = Some c \<and> state x \<noteq> kConnecting)"

definition registry_ok :: "('k \<Rightarrow> int \<Rightarrow> int \<rightharpoonup> epoll_event) \<Rightarrow> ('k, 'm, 'u, 'z) snet_scheme \<Rightarrow> reactor_ptr \<Rightarrow> bool" where
  "registry_ok il w r \<longleftrightarrow> (\<exists>R. reactors w r = Some R \<and> wf_poller (chans r w) (r_poller R, w) \<and>
     poller_synced il (r_poller R, w))"

text \<open>Different sub-reactors have different interest lists in the kernel.\<close>

definition lists_apart :: "('k, 'm, 'u, 'z) snet_scheme \<Rightarrow> bool" where
  "lists_apart w \<longleftrightarrow> (\<forall>r r' R R' e. r \<in> set (sub_reactors (server w)) \<and> r' \<in> set (sub_reactors (server w)) \<and>
     reactors w r = Some R \<and> reactors w r' = Some R' \<and>
     poller_fd (r_poller R) = Some e \<and> poller_fd (r_poller R') = Some e \<longrightarrow> r = r')"

definition registry_inv :: "('k \<Rightarrow> int \<Rightarrow> int \<rightharpoonup> epoll_event) \<Rightarrow> ('k, 'm, 'u, 'z) snet_scheme \<Rightarrow> bool" where
  "registry_inv il w \<longleftrightarrow> (\<forall>c. heap w c \<noteq> None \<longrightarrow> c < next_chan w) \<and>
     (\<forall>r \<in> set (sub_reactors (server w)). registry_ok il w r) \<and> lists_apart w \<and>
     (\<forall>c ch. heap w c = Some ch \<and> ch_reactor ch \<in> set (sub_reactors (server w)) \<longrightarrow> is_wakeup w ch \<or> of_client w c)"

lemma registry_poolE:
  assumes "registry_inv il w" and "r \<in> set (sub_reactors (server w))"
  obtains R where "reactors w r = Some R" and "wf_poller (chans r w) (r_poller R, w)" and "poller_synced il (r_poller R, w)"
  using assms unfolding registry_inv_def registry_ok_def by blast

section \<open>What steps leave alone\<close>

text \<open>
  What no step of a loop, of the accepting thread or of a broadcast changes: the owners and the
  read callbacks of channels, the identity of the reactors, their quit flags, and the
  server's fields but the counter, the table and its lock. Clients keep their descriptors, and
  only accepting brings new ones, \<open>F\<close>.
\<close>

definition marks :: "'t reactor \<Rightarrow> bool \<times> thread_id \<times> int \<times> int option" where
  "marks R = (r_quit R, r_thread_id R, r_wakeup_fd R, poller_fd (r_poller R))"

definition frozen :: "('m, 'u) tcp_server \<Rightarrow> ('m, 'u) tcp_server" where
  "frozen s = s\<lparr>next_reactor := 0, connections := [], connections_locked := False\<rparr>"

definition channels_kept :: "('k, 'cb, 'z) net_scheme \<Rightarrow> ('k, 'cb, 'z) net_scheme \<Rightarrow> bool" where
  "channels_kept w w' \<longleftrightarrow> (\<forall>c ch. heap w c = Some ch \<longrightarrow>
     (\<exists>ch'. heap w' c = Some ch' \<and> ch_reactor ch' = ch_reactor ch \<and> read_callback ch' = read_callback ch))"

abbreviation client_fds :: "('k, 'm, 'u, 'z) snet_scheme \<Rightarrow> int set" where
  "client_fds w \<equiv> sockfd ` ran (conns w)"

definition loop_frame :: "int set \<Rightarrow> ('k, 'm, 'u, 'z) snet_scheme \<Rightarrow> ('k, 'm, 'u, 'z) snet_scheme \<Rightarrow> bool" where
  "loop_frame F w w' \<longleftrightarrow> channels_kept w w' \<and> client_fds w' \<subseteq> client_fds w \<union> F \<and>
     (\<forall>r. map_option marks (reactors w' r) = map_option marks (reactors w r)) \<and> frozen (server w') = frozen (server w)"

lemma channels_kept_same: "heap w' = heap w \<Longrightarrow> channels_kept w w'"
  by (simp add: channels_kept_def)

lemma channels_kept_trans: "channels_kept u v \<Longrightarrow> channels_kept v w \<Longrightarrow> channels_kept u w"
  unfolding channels_kept_def by metis

lemma channels_kept_chans: "channels_kept w w' \<Longrightarrow> chans q w \<subseteq> chans q w'"
  by (fastforce simp: channels_kept_def chans_def)

lemma frozen_eqD:
  assumes "frozen s' = frozen s"
  shows "sub_reactors s' = sub_reactors s" "thread_num s' = thread_num s" "main_reactor s' = main_reactor s"
    "main_thread s' = main_thread s" "reactor_threads s' = reactor_threads s" "accept_channel s' = accept_channel s"
    "listen_fd s' = listen_fd s" "running s' = running s"
  using arg_cong [OF assms, of sub_reactors] arg_cong [OF assms, of thread_num] arg_cong [OF assms, of main_reactor]
    arg_cong [OF assms, of main_thread] arg_cong [OF assms, of reactor_threads] arg_cong [OF assms, of accept_channel]
    arg_cong [OF assms, of listen_fd] arg_cong [OF assms, of running]
  by (simp_all add: frozen_def)

lemma loop_frame_refl [simp]: "loop_frame F w w"
  by (auto simp: loop_frame_def channels_kept_same)

lemma loop_frame_trans: "loop_frame F u v \<Longrightarrow> loop_frame F v w \<Longrightarrow> loop_frame F u w"
  unfolding loop_frame_def using channels_kept_trans [of u v w] subset_trans [of "client_fds w" "client_fds v \<union> F" "client_fds u \<union> F"]
  by auto

lemma loop_frame_pool: "loop_frame F w w' \<Longrightarrow> sub_reactors (server w') = sub_reactors (server w)"
  using frozen_eqD(1) [of "server w'" "server w"] by (simp add: loop_frame_def)

subsection \<open>Steps that leave channels and pollers alone\<close>

lemma lists_apart_mono:
  assumes "lists_apart w" and "sub_reactors (server w') = sub_reactors (server w)"
    and "\<And>r R'. r \<in> set (sub_reactors (server w)) \<Longrightarrow> reactors w' r = Some R' \<Longrightarrow>
      \<exists>R. reactors w r = Some R \<and> poller_fd (r_poller R') = poller_fd (r_poller R)"
  shows "lists_apart w'"
  unfolding lists_apart_def
proof (intro allI impI, elim conjE)
  fix r r' R R' e
  assume r: "r \<in> set (sub_reactors (server w'))" "r' \<in> set (sub_reactors (server w'))"
    and R: "reactors w' r = Some R" "reactors w' r' = Some R'" "poller_fd (r_poller R) = Some e" "poller_fd (r_poller R') = Some e"
  obtain Q Q' where "reactors w r = Some Q" "poller_fd (r_poller Q) = Some e" "reactors w r' = Some Q'" "poller_fd (r_poller Q') = Some e"
    using assms(2) assms(3) [OF _ R(1)] assms(3) [OF _ R(2)] r R(3,4) by auto
  with assms(1,2) r show "r = r'" unfolding lists_apart_def by metis
qed

lemma registry_frame:
  assumes inv: "registry_inv il w" and heap: "heap w' = heap w" "next_chan w' = next_chan w"
    and pool: "sub_reactors (server w') = sub_reactors (server w)"
    and R: "\<And>r. map_option (\<lambda>R. (r_poller R, r_wakeup_fd R)) (reactors w' r) =
      map_option (\<lambda>R. (r_poller R, r_wakeup_fd R)) (reactors w r)"
    and il: "il (kernel w') = il (kernel w)"
    and conns: "\<And>cn x. conns w cn = Some x \<Longrightarrow> state x \<noteq> kConnecting \<Longrightarrow>
      \<exists>y. conns w' cn = Some y \<and> conn_channel y = conn_channel x \<and> state y \<noteq> kConnecting"
  shows "registry_inv il w'"
proof -
  have fwd: "\<exists>R'. reactors w' r = Some R' \<and> r_poller R' = r_poller R \<and> r_wakeup_fd R' = r_wakeup_fd R"
    if "reactors w r = Some R" for r R using assms(5) [of r] that by auto
  have bwd: "\<exists>Q. reactors w r = Some Q \<and> r_poller R' = r_poller Q" if "reactors w' r = Some R'" for r R'
    using assms(5) [of r, symmetric] that by auto
  have ok: "registry_ok il w' r" if r: "r \<in> set (sub_reactors (server w))" for r
  proof -
    obtain R where R: "reactors w r = Some R" "wf_poller (chans r w) (r_poller R, w)" "poller_synced il (r_poller R, w)"
      using inv r by (rule registry_poolE)
    obtain R' where "reactors w' r = Some R'" "r_poller R' = r_poller R" using fwd [OF R(1)] by blast
    moreover have "chans r w' = chans r w" using heap(1) by (simp add: chans_def)
    moreover have "wf_poller (chans r w) (r_poller R, w')" using R(2) wf_poller_net_cong [OF heap(1)] by simp
    moreover have "poller_synced il (r_poller R, w')" using R(3) poller_synced_cong [of "r_poller R" w' w il] heap(1) il by simp
    ultimately show ?thesis by (auto simp: registry_ok_def)
  qed
  have "lists_apart w" using inv by (simp add: registry_inv_def)
  then have "lists_apart w'" by (rule lists_apart_mono [OF _ pool]) (metis bwd)
  moreover have "is_wakeup w' ch" if "is_wakeup w ch" for ch using that fwd by (fastforce simp: is_wakeup_def)
  moreover have "of_client w' c" if "of_client w c" for c using that conns unfolding of_client_def by metis
  ultimately show ?thesis using inv ok unfolding registry_inv_def heap pool by metis
qed

section \<open>Polling\<close>

text \<open>The first part of a round of the loop.\<close>

definition poll_phase :: "'k build \<Rightarrow> reactor_ptr \<Rightarrow> ('k, 'cb, 't, 'z) rnet_scheme \<Rightarrow>
    (chan_ptr list \<times> ('k, 'cb, 't, 'z) rnet_scheme) outcome" where
  "poll_phase b r w =
     obind (on_reactor r (\<lambda>R. R\<lparr>r_active_channels := []\<rparr>) w) (\<lambda>w.
     obind (get_reactor r w) (\<lambda>R.
     obind (poller_poll (os b) 1000 (r_poller R, w) (r_active_channels R)) (\<lambda>(active, p, w).
       Inr (active, put_reactor r (R\<lparr>r_poller := p, r_active_channels := active\<rparr>) w))))"

lemma loop_round_phases:
  "loop_round b call run r w = obind (poll_phase b r w) (\<lambda>(active, w).
     obind (ofold (handle_channel b call) active w) (\<lambda>w.
     obind (begin_tasks r w) (\<lambda>(ts, w). obind (ofold run ts w) (end_tasks r))))"
proof -
  have "obind (obind m f) (\<lambda>(x, w). g x w) = obind m (\<lambda>y. obind (f y) (\<lambda>(x, w). g x w))"
    for m :: "'y outcome" and f :: "'y \<Rightarrow> ('x \<times> ('a, 'b, 'c, 'd) rnet_scheme) outcome" and g
    by (rule obind_assoc)
  then show ?thesis
    by (simp add: loop_round_def poll_phase_def doPendingTasks_phases [abs_def] Let_def obind_assoc case_prod_unfold)
qed

lemma poll_phase_law:
  assumes doc: "wait_documented (os b) il" and inv: "registry_inv il w" and r: "r \<in> set (sub_reactors (server w))"
  obtains R cs p w1 where "reactors w r = Some R" and "poll_phase b r w = Inr (cs, put_reactor r (R\<lparr>r_poller := p, r_active_channels := cs\<rparr>) w1)"
    and "revents_only w w1" and "il (kernel w1) = il (kernel w)" and "set cs \<subseteq> chans r w"
    and "poller_fd p = poller_fd (r_poller R)" and "wf_poller (chans r w) (p, w1)" and "poller_synced il (p, w1)"
proof -
  obtain R where R: "reactors w r = Some R" "wf_poller (chans r w) (r_poller R, w)" "poller_synced il (r_poller R, w)"
    using inv r by (rule registry_poolE)
  let ?R = "R\<lparr>r_active_channels := []\<rparr>" and ?w = "put_reactor r (R\<lparr>r_active_channels := []\<rparr>) w"
  have "wf_poller (chans r w) (r_poller R, ?w)" using R(2) wf_poller_net_cong [of ?w w] by simp
  moreover have "poller_synced il (r_poller R, ?w)" using R(3) poller_synced_cong [of "r_poller R" ?w w il] by simp
  ultimately obtain cs p v where v: "poller_poll (os b) 1000 (r_poller R, ?w) [] = Inr (cs, p, v)"
    "revents_only ?w v" "il (kernel v) = il (kernel w)" "set cs \<subseteq> registrations (r_poller R)"
    "poller_fd p = poller_fd (r_poller R)" "wf_poller (chans r w) (p, v)" "poller_synced il (p, v)"
    using poller_poll_law [OF doc, of "chans r w" "r_poller R" ?w 1000 "[]"] by auto
  let ?w1 = "v\<lparr>reactors := reactors w\<rparr>"
  have more: "net.more ?w1 = net.more w" using v(2) by (cases w; cases v) (simp add: revents_only_def put_reactor_def)
  have h: "heap ?w1 = heap v" by simp
  have "revents_only w ?w1" using v(2) more unfolding revents_only_def h by simp
  moreover have "put_reactor r Q v = put_reactor r Q ?w1" for Q
    using revents_only_rnet(1) [OF v(2)] by (simp add: put_reactor_def)
  ultimately show thesis using that [of R cs p ?w1] R(1) v registrations_live [OF R(2)]
      wf_poller_net_cong [of ?w1 v] poller_synced_cong [of p ?w1 v il]
    by (auto simp: poll_phase_def)
qed

lemma wf_poller_agree:
  assumes "wf_poller C (p, w)" and "\<And>c. c \<in> C \<Longrightarrow> heap w' c = heap w c"
  shows "wf_poller C (p, w')"
proof -
  have "fd_of w' c = fd_of w c" if "c \<in> C" for c using assms(2) [OF that] by (simp add: fd_of_def)
  then have "wf_table C m w \<Longrightarrow> wf_table C m w'" for m
    using assms(2) by (auto simp: wf_table_def distinct_fds_def inj_on_def dom_def)
  then show ?thesis using assms by (cases p) auto
qed

text \<open>Polling keeps the invariant.\<close>

lemma poll_registry:
  assumes doc: "wait_documented (os b) il" and inv: "registry_inv il w" and r: "r \<in> set (sub_reactors (server w))"
    and run: "poll_phase b r w = Inr (cs, w')"
  shows "registry_inv il w'" and "set cs \<subseteq> chans r w'" and "chans q w' = chans q w"
proof -
  obtain R p w1 where R: "reactors w r = Some R" and w': "w' = put_reactor r (R\<lparr>r_poller := p, r_active_channels := cs\<rparr>) w1"
    and w1: "revents_only w w1" "il (kernel w1) = il (kernel w)" "set cs \<subseteq> chans r w"
      "poller_fd p = poller_fd (r_poller R)" "wf_poller (chans r w) (p, w1)" "poller_synced il (p, w1)"
    using poll_phase_law [OF doc inv r] run by (metis Pair_inject sum.inject(2))
  have same: "reactors w1 = reactors w" "next_chan w1 = next_chan w" "server w1 = server w" "conns w1 = conns w"
    using revents_only_rnet [OF w1(1)] snet_more [of w1 w] by simp_all
  have ch: "chans q w' = chans q w" for q
    using revents_onlyD(2,3) [OF w1(1)] w' by (fastforce simp: chans_def)
  then show "chans q w' = chans q w" .
  show "set cs \<subseteq> chans r w'" using ch w1(3) by simp
  have "registry_ok il w' q" if q: "q \<in> set (sub_reactors (server w))" for q
  proof (cases "q = r")
    case True
    then show ?thesis
      using w' w1(5,6) ch wf_poller_net_cong [of w' w1] poller_synced_cong [of p w' w1 il] by (simp add: registry_ok_def)
  next
    case False
    obtain Q where Q: "reactors w q = Some Q" "wf_poller (chans q w) (r_poller Q, w)" "poller_synced il (r_poller Q, w)"
      using inv q by (rule registry_poolE)
    have "wf_poller (chans q w') (r_poller Q, w')"
      using revents_only_poller [OF w1(1) Q(2)] w' ch wf_poller_net_cong [of w' w1] by simp
    moreover have "poller_synced il (r_poller Q, w1)"
      using Q(3) revents_only_expected [OF w1(1)] w1(2) by (cases "r_poller Q") (simp_all add: synced_def)
    then have "poller_synced il (r_poller Q, w')" using w' poller_synced_cong [of "r_poller Q" w' w1 il] by simp
    moreover have "reactors w' q = Some Q" using False Q(1) w' same(1) by simp
    ultimately show ?thesis by (auto simp: registry_ok_def)
  qed
  moreover have "lists_apart w'"
    by (rule lists_apart_mono [of w]) (use inv R w' w1(4) same in \<open>auto simp: registry_inv_def put_reactor_def split: if_splits\<close>)
  moreover have "is_wakeup w' ch' \<or> of_client w' c" if c: "heap w' c = Some ch'" "ch_reactor ch' \<in> set (sub_reactors (server w))" for c ch'
  proof -
    obtain ch m where ch: "heap w c = Some ch" "ch' = setRevents m ch" using revents_onlyD(3) [OF w1(1), of c ch'] c(1) w' by auto
    then have "is_wakeup w ch \<or> of_client w c" using inv c(2) by (auto simp: registry_inv_def)
    then show ?thesis using ch R w' same(1,4) by (auto simp: is_wakeup_def of_client_def setRevents_def put_reactor_def)
  qed
  moreover have "c < next_chan w'" if "heap w' c \<noteq> None" for c
    using that inv revents_onlyD(1) [OF w1(1), of c] w' same(2) unfolding registry_inv_def by (metis net_put_reactor(1,3))
  moreover have "server w' = server w" using w' same(3) by (simp add: put_reactor_def)
  ultimately show "registry_inv il w'" by (auto simp: registry_inv_def)
qed

section \<open>Registering a client\<close>

text \<open>The phases of the registration task.\<close>

lemma run_task_phases:
  assumes app: "app_law on_connection" and keeps: "socket_keeps (os b) f" and x: "conns w cn = Some x"
    and run: "run_task b me on_connection (Register cn r) w = Inr w'"
  obtains ch w1 w2 where "alloc_channel ch w = (next_chan w, w1)" and "ch_fd ch = sockfd x" and "ch_index ch = kNew"
    and "ch_reactor ch = r" and "change_interest b me EnableReading (next_chan w) w1 = Inr w2"
    and "heap w' = heap w2" and "reactors w' = reactors w2" and "f (kernel w') = f (kernel w2)"
proof -
  let ?ch = "setErrorCallback (OnError cn) (setCloseCallback (OnClose cn)
      (setWriteCallback (OnWrite cn) (setReadCallback (OnRead cn) (new_channel r (sockfd x)))))"
  obtain c w1 w2 w3 w4 where w1: "alloc_channel ?ch w = (c, w1)" and w2: "change_interest b me EnableReading c w1 = Inr w2"
    and w3: "on_conn cn (setChannel c) w2 = Inr w3" and w4: "establishConnection b cn w3 = Inr w4" "notify on_connection cn w4 = Inr w'"
    using run x by (auto simp: Let_def elim!: outcome_elims split: prod.splits)
  obtain v where v: "on_conn cn (setState kConnected) w3 = Inr v" "updateLastActiveTime b cn v = Inr w4"
    using w4(1) by (auto simp: establishConnection_def elim!: outcome_elims)
  obtain y where y: "conns v cn = Some y" using v(2)
    by (auto simp: updateLastActiveTime_def now_def on_conn_def get_conn_def elim!: outcome_elims split: prod.splits option.splits)
  have w4_eq: "heap w4 = heap v" "reactors w4 = reactors v" "conns w4 cn \<noteq> None"
    using v(2) updateLastActiveTime_eq [OF y, of b] by auto
  then obtain z where "conns w4 cn = Some z" by auto
  from notify_law [OF app this] w4(2) have n: "net_same w4 w'" "kernel w' = kernel w4" by (metis sum.inject(2))+
  have conn: "heap w3 = heap w2" "reactors w3 = reactors w2" "kernel w3 = kernel w2"
    "heap v = heap w3" "reactors v = reactors w3" "kernel v = kernel w3"
    using w3 v(1) by (auto simp: on_conn_def elim!: outcome_elims)
  have "f (kernel w') = f (kernel w2)" using n(2) updateLastActiveTime_keeps [OF keeps v(2)] conn by simp
  moreover have "heap w' = heap w2" "reactors w' = reactors w2" using net_sameD(2,3) [OF n(1)] w4_eq conn by simp_all
  moreover have "c = next_chan w" using w1 by (auto simp: alloc_channel_def)
  ultimately show thesis using that [of ?ch w1 w2] w1 w2
    by (simp add: setErrorCallback_def setCloseCallback_def setWriteCallback_def setReadCallback_def new_channel_def index_defs)
qed

text \<open>The descriptor of a client that is not registered yet has no channel.\<close>

lemma client_fd_new:
  assumes inv: "registry_inv il w" and clients: "clients_inv pf w" and r: "r \<in> set (sub_reactors (server w))"
    and x: "conns w cn = Some x" "state x = kConnecting"
  shows "sockfd x \<notin> fd_of w ` chans r w"
proof
  assume "sockfd x \<in> fd_of w ` chans r w"
  then obtain c ch where ch: "heap w c = Some ch" "ch_reactor ch = r" "ch_fd ch = sockfd x"
    by (auto simp: chans_def fd_of_def)
  then have "is_wakeup w ch \<or> of_client w c" using inv r by (auto simp: registry_inv_def)
  then show False
  proof
    assume "is_wakeup w ch"
    then show ?thesis using clients x(1) ch(3) unfolding is_wakeup_def clients_inv_def by metis
  next
    assume "of_client w c"
    then obtain d z where z: "conns w d = Some z" "conn_channel z = Some c" "state z \<noteq> kConnecting" by (auto simp: of_client_def)
    then have "ch_fd ch = sockfd z"
      using clients ch(1) unfolding clients_inv_def client_ok_def serves_def by (metis option.inject)
    moreover have "d \<noteq> cn" using z(1,3) x by auto
    ultimately show ?thesis using clients z(1) x(1) ch(3) unfolding clients_inv_def by metis
  qed
qed

lemma register_poller:
  assumes app: "app_law on_connection" and doc: "epoll_ctl_documented (os b) il" "socket_keeps (os b) il"
    and inv: "registry_inv il w" and clients: "clients_inv (platform b) w"
    and r: "r \<in> set (sub_reactors (server w))" and R: "reactors w r = Some R" "may_touch b me R"
    and x: "conns w cn = Some x" "state x = kConnecting"
    and run: "run_task b me on_connection (Register cn r) w = Inr w'"
  obtains p ch where "reactors w' = (reactors w)(r \<mapsto> R\<lparr>r_poller := p\<rparr>)"
    and "heap w' = (heap w)(next_chan w \<mapsto> ch)" and "ch_reactor ch = r" and "poller_fd p = poller_fd (r_poller R)"
    and "wf_poller (insert (next_chan w) (chans r w)) (p, w')" and "poller_synced il (p, w')"
    and "\<And>e. Some e \<noteq> poller_fd (r_poller R) \<Longrightarrow> il (kernel w') e = il (kernel w) e"
proof -
  let ?c = "next_chan w" and ?C = "chans r w"
  have none: "heap w ?c = None" using inv unfolding registry_inv_def by (metis less_irrefl)
  have pol: "wf_poller ?C (r_poller R, w)" "poller_synced il (r_poller R, w)"
    using inv r R(1) by (auto elim!: registry_poolE)
  then have wf: "wf_reactor b me r ?C w" using R by (auto simp: wf_reactor_def chans_def)
  obtain ch w1 w2 where w1: "alloc_channel ch w = (?c, w1)" "ch_fd ch = sockfd x" "ch_index ch = kNew" "ch_reactor ch = r"
    and w2: "change_interest b me EnableReading ?c w1 = Inr w2"
    and w': "heap w' = heap w2" "reactors w' = reactors w2" "il (kernel w') = il (kernel w2)"
    by (rule run_task_phases [OF app doc(2) x(1) run])
  have "ch_fd ch \<notin> fd_of w ` ?C" using client_fd_new [OF inv clients r x] w1(2) by simp
  note new = wf_reactor_fresh [OF wf none this w1(3,4,1)]
  have k1: "kernel w1 = kernel w" using w1(1) by (auto simp: alloc_channel_def store_def)
  have R1: "reactors w1 r = Some R" using R(1) new(3) by simp
  have "heap w1 c = heap w c" if "c \<in> registrations (r_poller R)" for c
    using that registrations_live [OF pol(1)] none new(4) by auto
  then have sync: "poller_synced il (r_poller R, w1)"
    using pol(2) poller_synced_cong [of "r_poller R" w1 w il] k1 by simp
  obtain p ch' ix where p: "reactors w2 = (reactors w1)(r \<mapsto> R\<lparr>r_poller := p\<rparr>)" "poller_synced il (p, w2)"
    "poller_fd p = poller_fd (r_poller R)" "heap w1 ?c = Some ch'" "heap w2 = (heap w1)(?c \<mapsto> setIndex ix (set_interest (platform b) EnableReading ch'))"
    "\<And>e. Some e \<noteq> poller_fd (r_poller R) \<Longrightarrow> il (kernel w2) e = il (kernel w1) e"
    by (rule change_interest_synced [OF doc(1) new(1) _ R1 sync w2]) auto
  have "wf_reactor b me r (insert ?c ?C) w2"
    using change_interest_law [OF new(1), of ?c EnableReading] w2 by auto
  then have "wf_poller (insert ?c ?C) (p, w2)" using p(1) by (auto simp: wf_reactor_def)
  then have "wf_poller (insert ?c ?C) (p, w')" using wf_poller_net_cong [OF w'(1)] by simp
  moreover have "poller_synced il (p, w')" using p(2) poller_synced_cong [of p w' w2 il] w'(1,3) by simp
  moreover have "heap w' = (heap w)(?c \<mapsto> setIndex ix (set_interest (platform b) EnableReading ch))"
    "reactors w' = (reactors w)(r \<mapsto> R\<lparr>r_poller := p\<rparr>)" using p(1,4,5) new(3,4) w'(1,2) by simp_all
  ultimately show thesis using that [of p] w1(4) p(3,6) w'(3) k1 by simp
qed

lemma register_registry:
  assumes app: "app_law on_connection" and doc: "epoll_ctl_documented (os b) il" "socket_keeps (os b) il"
    and inv: "registry_inv il w" and clients: "clients_inv (platform b) w"
    and r: "r \<in> set (sub_reactors (server w))" and R: "reactors w r = Some R" "may_touch b me R"
    and x: "conns w cn = Some x" "state x = kConnecting"
    and run: "run_task b me on_connection (Register cn r) w = Inr w'"
    and after: "conns w' = (conns w)(cn \<mapsto> y)" "conn_channel y = Some (next_chan w)" "state y = kConnected"
      "server w' = server w" "next_chan w' = Suc (next_chan w)" "sockfd y = sockfd x"
  shows "registry_inv il w'" and "loop_frame {} w w'"
proof -
  let ?c = "next_chan w"
  have none: "heap w ?c = None" using inv unfolding registry_inv_def by (metis less_irrefl)
  obtain p ch where reg: "reactors w' = (reactors w)(r \<mapsto> R\<lparr>r_poller := p\<rparr>)" and h: "heap w' = (heap w)(?c \<mapsto> ch)" "ch_reactor ch = r"
    and p: "poller_fd p = poller_fd (r_poller R)" "wf_poller (insert ?c (chans r w)) (p, w')" "poller_synced il (p, w')"
      "\<And>e. Some e \<noteq> poller_fd (r_poller R) \<Longrightarrow> il (kernel w') e = il (kernel w) e"
    by (rule register_poller [OF app doc inv clients r R x run]) blast
  have own: "chans r w' = insert ?c (chans r w)" and other: "q \<noteq> r \<Longrightarrow> chans q w' = chans q w" for q
    using h none by (auto simp: chans_def)
  have "channels_kept w w'" using h(1) none by (auto simp: channels_kept_def)
  moreover have "client_fds w' \<subseteq> client_fds w" using after(1,6) x(1) by (auto simp: ran_def split: if_splits)
  ultimately show "loop_frame {} w w'" using reg R(1) p(1) after(4) by (auto simp: loop_frame_def marks_def)
  have "registry_ok il w' q" if q: "q \<in> set (sub_reactors (server w))" for q
  proof (cases "q = r")
    case True
    then show ?thesis using reg own p(2,3) by (simp add: registry_ok_def)
  next
    case False
    obtain Q where Q: "reactors w q = Some Q" "wf_poller (chans q w) (r_poller Q, w)" "poller_synced il (r_poller Q, w)"
      using inv q by (rule registry_poolE)
    have agree: "heap w' c = heap w c" if "c \<in> chans q w" for c using that h(1) none by (auto simp: chans_def)
    have "il (kernel w') e = il (kernel w) e" if e: "poller_fd (r_poller Q) = Some e" for e
    proof (rule p(4))
      have "lists_apart w" using inv by (simp add: registry_inv_def)
      then show "Some e \<noteq> poller_fd (r_poller R)" using q r R(1) Q(1) e False unfolding lists_apart_def by metis
    qed
    then have "poller_synced il (r_poller Q, w')"
      using Q(3) poller_synced_cong [of "r_poller Q" w' w il] agree registrations_live [OF Q(2)] by blast
    then show ?thesis using wf_poller_agree [OF Q(2) agree] other [OF False] False reg Q(1) by (simp add: registry_ok_def)
  qed
  moreover have "lists_apart w'"
  proof (rule lists_apart_mono [of w])
    show "\<exists>Q. reactors w q = Some Q \<and> poller_fd (r_poller Q') = poller_fd (r_poller Q)" if "reactors w' q = Some Q'" for q Q'
      using that reg R(1) p(1) by (auto split: if_splits)
  qed (use inv after(4) in \<open>simp_all add: registry_inv_def\<close>)
  moreover have "is_wakeup w' d \<or> of_client w' c" if d: "heap w' c = Some d" "ch_reactor d \<in> set (sub_reactors (server w))" for c d
  proof (cases "c = ?c")
    case True
    then show ?thesis using after(1-3) by (auto simp: of_client_def)
  next
    case False
    then have "is_wakeup w d \<or> of_client w c" using d h(1) inv by (auto simp: registry_inv_def)
    moreover have "is_wakeup w d \<Longrightarrow> is_wakeup w' d" using reg R(1) by (auto simp: is_wakeup_def)
    moreover have "of_client w c \<Longrightarrow> of_client w' c"
      using x after(1) unfolding of_client_def by (metis fun_upd_apply option.inject)
    ultimately show ?thesis by blast
  qed
  moreover have "c < next_chan w'" if "heap w' c \<noteq> None" for c
    using that h(1) after(5) inv unfolding registry_inv_def by (metis fun_upd_other lessI less_SucI)
  ultimately show "registry_inv il w'" unfolding registry_inv_def after(4) by blast
qed

end
