(* ===== verification/LoopThreads.thy ===== *)
theory LoopThreads
  imports Registry
begin

text \<open>
  The threads of a running server with the loops of its sub-reactors written out: a loop polls,
  handles the active channels one after the other, and then serves its queue, while the other
  threads go on. The theory shows that polling, dispatching and serving never fail and that a
  callback always finds its connection.
\<close>

section \<open>States and events\<close>

text \<open>
  The channels each sub-reactor's thread still has to handle in this round (\<^const>\<open>None\<close>
  between two rounds).
\<close>

record ('k, 'm, 'u, 'z) loops =
  threads :: "('k, 'm, 'u, 'z) sthreads"
  active :: "reactor_ptr \<Rightarrow> chan_ptr list option"

datatype 'k loop_event = Poll reactor_ptr | Handle reactor_ptr | Thread "'k server_event"

abbreviation world_of :: "('k, 'm, 'u, 'z) loops \<Rightarrow> ('k, 'm, 'u, 'z) snet_scheme" where
  "world_of s \<equiv> sworld (threads s)"

text \<open>
  The order of a round: callbacks come from handling a channel, and the queue is served when
  every active channel has been handled. The kernel does not change interest lists by itself.
\<close>

fun in_order :: "('k \<Rightarrow> int \<Rightarrow> int \<rightharpoonup> epoll_event) \<Rightarrow> 'k server_event \<Rightarrow> ('k, 'm, 'u, 'z) loops \<Rightarrow> bool" where
  "in_order il (BeginTasks r) s \<longleftrightarrow> active s r = Some []"
| "in_order il (Callback cb) s \<longleftrightarrow> False"
| "in_order il (Network k) s \<longleftrightarrow> il k = il (kernel (world_of s))"
| "in_order il e s \<longleftrightarrow> True"

fun loop_enabled :: "('k \<Rightarrow> int \<Rightarrow> int \<rightharpoonup> epoll_event) \<Rightarrow> 'k loop_event \<Rightarrow> ('k, 'm, 'u, 'z) loops \<Rightarrow> bool" where
  "loop_enabled il (Poll r) s \<longleftrightarrow> r \<in> pool (threads s) \<and> active s r = None"
| "loop_enabled il (Handle r) s \<longleftrightarrow> (\<exists>c cs. active s r = Some (c # cs))"
| "loop_enabled il (Thread e) s \<longleftrightarrow> enabled e (threads s) \<and> in_order il e s"

fun round_over :: "'k server_event \<Rightarrow> (reactor_ptr \<Rightarrow> chan_ptr list option) \<Rightarrow> reactor_ptr \<Rightarrow> chan_ptr list option" where
  "round_over (EndTasks r) a = a(r := None)"
| "round_over _ a = a"

fun loop_op :: "'k build \<Rightarrow> thread_id \<Rightarrow> (reactor_ptr \<Rightarrow> thread_id) \<Rightarrow>
    ('m \<Rightarrow> conn_ptr \<Rightarrow> string \<Rightarrow> ('k, 'm, 'u, 'z) world_op) \<Rightarrow> ('u \<Rightarrow> conn_ptr \<Rightarrow> ('k, 'm, 'u, 'z) world_op) \<Rightarrow>
    'k loop_event \<Rightarrow> ('k, 'm, 'u, 'z) loops \<Rightarrow> ('k, 'm, 'u, 'z) loops outcome" where
  "loop_op b tm tr on_message on_connection (Poll r) s =
     obind (poll_phase b r (world_of s)) (\<lambda>(cs, w).
       Inr (s\<lparr>threads := (threads s)\<lparr>sworld := w\<rparr>, active := (active s)(r := Some cs)\<rparr>))"
| "loop_op b tm tr on_message on_connection (Handle r) s =
     (case active s r of
        Some (c # cs) \<Rightarrow> obind (handle_channel b (invoke b (tr r) on_message on_connection) c (world_of s)) (\<lambda>w.
          Inr (s\<lparr>threads := (threads s)\<lparr>sworld := w\<rparr>, active := (active s)(r := Some cs)\<rparr>))
      | _ \<Rightarrow> Inr s)"
| "loop_op b tm tr on_message on_connection (Thread e) s =
     obind (server_op b tm tr on_message on_connection e (threads s)) (\<lambda>t.
       Inr (s\<lparr>threads := t, active := round_over e (active s)\<rparr>))"

inductive loop_steps :: "('k \<Rightarrow> int \<Rightarrow> int \<rightharpoonup> epoll_event) \<Rightarrow> 'k build \<Rightarrow> thread_id \<Rightarrow> (reactor_ptr \<Rightarrow> thread_id) \<Rightarrow>
    ('m \<Rightarrow> conn_ptr \<Rightarrow> string \<Rightarrow> ('k, 'm, 'u, 'z) world_op) \<Rightarrow> ('u \<Rightarrow> conn_ptr \<Rightarrow> ('k, 'm, 'u, 'z) world_op) \<Rightarrow>
    ('k, 'm, 'u, 'z) loops \<Rightarrow> ('k, 'm, 'u, 'z) loops \<Rightarrow> bool"
  for il b tm tr on_message on_connection where
  loop_happens: "loop_enabled il e s \<Longrightarrow> loop_op b tm tr on_message on_connection e s = Inr t \<Longrightarrow>
     loop_steps il b tm tr on_message on_connection s t"

inductive_cases loop_stepsE: "loop_steps il b tm tr on_message on_connection s t"

section \<open>The invariant\<close>

definition active_inv :: "('k, 'm, 'u, 'z) loops \<Rightarrow> bool" where
  "active_inv s \<longleftrightarrow> (\<forall>r cs. active s r = Some cs \<longrightarrow> r \<in> pool (threads s) \<and> set cs \<subseteq> chans r (world_of s)) \<and>
     (\<forall>r. taken (threads s) r \<noteq> None \<longrightarrow> active s r = Some [])"

definition loops_inv :: "('k \<Rightarrow> int \<Rightarrow> int \<rightharpoonup> epoll_event) \<Rightarrow> 'k build \<Rightarrow> thread_id \<Rightarrow> (reactor_ptr \<Rightarrow> thread_id) \<Rightarrow>
    ('k, 'm, 'u, 'z) loops \<Rightarrow> bool" where
  "loops_inv il b tm tr s \<longleftrightarrow> server_inv b tm tr (threads s) \<and> registry_inv il (world_of s) \<and> active_inv s"

text \<open>A started server: no loop has begun its first round.\<close>

definition loops_init :: "('k \<Rightarrow> int \<Rightarrow> int \<rightharpoonup> epoll_event) \<Rightarrow> 'k build \<Rightarrow> thread_id \<Rightarrow> (reactor_ptr \<Rightarrow> thread_id) \<Rightarrow>
    ('k, 'm, 'u, 'z) loops \<Rightarrow> bool" where
  "loops_init il b tm tr s \<longleftrightarrow> server_init b tm tr (threads s) \<and> registry_inv il (world_of s) \<and> active s = (\<lambda>_. None)"

lemma loops_init_inv: "loops_init il b tm tr s \<Longrightarrow> loops_inv il b tm tr s"
  using server_init_inv by (fastforce simp: loops_init_def loops_inv_def active_inv_def server_init_def)

lemma server_inv_revents:
  assumes "revents_only (sworld s) w" and "server_inv b tm tr s"
  shows "server_inv b tm tr (s\<lparr>sworld := w\<rparr>)"
proof -
  have same: "reactors w = reactors (sworld s)" "next_chan w = next_chan (sworld s)" "server w = server (sworld s)"
    "conns w = conns (sworld s)" "next_conn w = next_conn (sworld s)"
    using revents_only_rnet [OF assms(1)] snet_more [of w "sworld s"] by simp_all
  have "client_ok pf w cn x" if "client_ok pf (sworld s) cn x" for pf cn x
    using that revents_onlyD(2) [OF assms(1)] same unfolding client_ok_def serves_def setRevents_def by fastforce
  then have "clients_inv (platform b) w" using assms(2) same by (auto simp: server_inv_def clients_inv_def)
  moreover have "tasks_inv (s\<lparr>sworld := w\<rparr>) = tasks_inv s" using same by (intro tasks_inv_cong) (simp_all add: connecting_def)
  moreover have "pool_inv b tm tr (s\<lparr>sworld := w\<rparr>) = pool_inv b tm tr s" using same by (intro pool_inv_cong) simp_all
  moreover have "table_inv (s\<lparr>sworld := w\<rparr>) = table_inv s" using same by (simp add: table_inv_def wf_connections_def)
  ultimately show ?thesis using assms(2) by (simp add: server_inv_def)
qed

subsection \<open>Polling\<close>

lemma channels_kept_revents: "revents_only w w' \<Longrightarrow> channels_kept w w'"
  using revents_onlyD(2) unfolding channels_kept_def setRevents_def by fastforce

lemma poll_inv:
  assumes doc: "wait_documented (os b) il" and inv: "loops_inv il b tm tr s" and en: "loop_enabled il (Poll r) s"
  shows "\<exists>t. loop_op b tm tr on_message on_connection (Poll r) s = Inr t \<and> loops_inv il b tm tr t \<and>
     loop_frame {} (world_of s) (world_of t)"
proof -
  let ?w = "world_of s"
  have r: "r \<in> pool (threads s)" and reg: "registry_inv il ?w" using en inv by (simp_all add: loops_inv_def)
  obtain R cs p w1 where R: "reactors ?w r = Some R"
    and run: "poll_phase b r ?w = Inr (cs, put_reactor r (R\<lparr>r_poller := p, r_active_channels := cs\<rparr>) w1)" and w1: "revents_only ?w w1"
    and p: "poller_fd p = poller_fd (r_poller R)"
    using poll_phase_law [OF doc reg r] by metis
  let ?R = "R\<lparr>r_poller := p, r_active_channels := cs\<rparr>"
  let ?t = "(threads s)\<lparr>sworld := put_reactor r ?R w1\<rparr>"
  note reg' = poll_registry [OF doc reg r run]
  have same: "reactors w1 = reactors ?w" "server w1 = server ?w" "conns w1 = conns ?w"
    using revents_only_rnet [OF w1] snet_more [of w1 ?w] by simp_all
  have "server_inv b tm tr ((threads s)\<lparr>sworld := w1\<rparr>)"
    using server_inv_revents [OF w1] inv by (simp add: loops_inv_def)
  from server_inv_reactor [OF this, of r R ?R "taken (threads s) r"] R same(1) r
  have "server_inv b tm tr ?t" by (simp add: tasks_of_def fun_upd_idem same(2))
  moreover have "active_inv (s\<lparr>threads := ?t, active := (active s)(r := Some cs)\<rparr>)"
    using inv en reg'(2,3) r same(2) by (auto simp: loops_inv_def active_inv_def put_reactor_def)
  moreover have "loop_frame {} ?w (put_reactor r ?R w1)"
    using channels_kept_revents [OF w1] same R p by (simp add: loop_frame_def marks_def put_reactor_def channels_kept_def)
  ultimately show ?thesis using run reg'(1) by (simp add: loops_inv_def)
qed

subsection \<open>Dispatching\<close>

text \<open>What handling a channel leaves.\<close>

definition handled_well :: "('k \<Rightarrow> int \<Rightarrow> int \<rightharpoonup> epoll_event) \<Rightarrow> 'k build \<Rightarrow> thread_id \<Rightarrow> (reactor_ptr \<Rightarrow> thread_id) \<Rightarrow>
    ('k, 'm, 'u, 'z) sthreads \<Rightarrow> ('k, 'm, 'u, 'z) snet_scheme \<Rightarrow> bool" where
  "handled_well il b tm tr t w \<longleftrightarrow> server_inv b tm tr (t\<lparr>sworld := w\<rparr>) \<and> registry_inv il w \<and> heap w = heap (sworld t) \<and>
     reactors w = reactors (sworld t) \<and> frozen (server w) = frozen (server (sworld t)) \<and> client_fds w \<subseteq> client_fds (sworld t)"

lemma handled_frame: "handled_well il b tm tr t w \<Longrightarrow> loop_frame {} (sworld t) w"
  by (simp add: handled_well_def loop_frame_def channels_kept_same)

lemma dispatch_callbacks:
  "set (dispatch pf ch) \<subseteq> {cb. read_callback ch = Some cb \<or> write_callback ch = Some cb \<or>
     Channel.channel.close_callback ch = Some cb \<or> error_callback ch = Some cb}"
proof -
  have "cb' = Some cb" if "cb \<in> set (selected cond cb')" for cond cb and cb' :: "'a option"
    using that by (cases cond; cases cb') (simp_all add: selected_def)
  then show ?thesis by (cases pf) (auto simp: dispatch_def Let_def)
qed

text \<open>
  The contract with the application, with one more law: what its message callback does on
  sockets leaves the kernel's interest lists alone.
\<close>

locale polled_application = server_application b sent reply on_message on_connection
  for b :: "'k build" and sent :: "'k \<Rightarrow> int \<Rightarrow> string" and reply :: "'m \<Rightarrow> string \<Rightarrow> string"
    and on_message :: "'m \<Rightarrow> conn_ptr \<Rightarrow> string \<Rightarrow> ('k, 'm, 'u, 'z) world_op"
    and on_connection :: "'u \<Rightarrow> conn_ptr \<Rightarrow> ('k, 'm, 'u, 'z) world_op" +
  fixes il :: "'k \<Rightarrow> int \<Rightarrow> int \<rightharpoonup> epoll_event"
  assumes message_keeps: "socket_keeps (os b) il \<Longrightarrow> on_message m cn msg w = Inr w' \<Longrightarrow> il (kernel w') = il (kernel w)"
begin

lemma invoke_keeps:
  assumes keeps: "socket_keeps (os b) il" and "cb_conn cb = Some cn"
    and run: "invoke b me on_message on_connection cb w = Inr w'"
  shows "il (kernel w') = il (kernel w)"
proof -
  have close: "il (kernel w') = il (kernel w)" if "closeConnection (server_close on_connection) cn w = Inr w'"
    using close_kernel [OF connection_law that] by simp
  show ?thesis
    using assms(2) run close handleRead_keeps [OF keeps connection_law message_keeps [OF keeps]]
      handleWrite_keeps [OF keeps connection_law] by (cases cb) auto
qed

lemma wakeup_handled:
  assumes "socket_keeps (os b) il" and inv: "server_inv b tm tr t" "registry_inv il (sworld t)"
    and R: "reactors (sworld t) r = Some R"
  shows "\<exists>w. handleWakeup b r (sworld t) = Inr w \<and> handled_well il b tm tr t w"
proof -
  obtain n bytes k where rd: "sys_read (os b) (r_wakeup_fd R) (length (wakeup_message (platform b))) (kernel (sworld t)) = ((n, bytes), k)"
    by (metis prod.exhaust)
  let ?w = "(sworld t)\<lparr>kernel := k\<rparr>"
  have "il k = il (kernel (sworld t))" using socket_keepsD(2) [OF assms(1) rd] .
  then have "registry_inv il ?w" by (intro registry_frame [OF inv(2)]) simp_all
  then show ?thesis using R rd network_inv [OF inv(1), of k] by (simp add: handleWakeup_def handled_well_def)
qed

lemma client_handled:
  assumes doc: "socket_documented (os b) sent" "read_documented (os b)" "socket_keeps (os b) il"
    and inv: "server_inv b tm tr t" "registry_inv il (sworld t)"
    and loop: "loop_of (sworld t) cb = Some r" "taken t r = None"
  shows "\<exists>w. invoke b (tr r) on_message on_connection cb (sworld t) = Inr w \<and> handled_well il b tm tr t w"
proof -
  have "enabled (Callback cb) t" using loop by simp
  from callback_law [OF doc(1,2) inv(1) this] obtain cn x w x' where
    op: "server_op b tm tr on_message on_connection (Callback cb) t = Inr (t\<lparr>sworld := w\<rparr>)"
    and w: "cb_conn cb = Some cn" "conns (sworld t) cn = Some x" "conn_effect cn x x' (sworld t) w" "at_ease x'" by metis
  have run: "invoke b (tr r) on_message on_connection cb (sworld t) = Inr w"
    using op loop(1) by (auto elim!: outcome_elims dest: arg_cong [of _ _ sworld])
  have same: "heap w = heap (sworld t)" "next_chan w = next_chan (sworld t)" "reactors w = reactors (sworld t)"
    "frozen (server w) = frozen (server (sworld t))"
    using w(3) by (auto simp: conn_effect_def net_same_def frozen_def)
  have "\<exists>y. conns w c = Some y \<and> conn_channel y = conn_channel z \<and> state y \<noteq> kConnecting"
    if "conns (sworld t) c = Some z" "state z \<noteq> kConnecting" for c z
    using that w(2,3) by (auto simp: conn_effect_def same_conn_def)
  then have "registry_inv il w"
    by (intro registry_frame [OF inv(2)]) (use same frozen_eqD [OF same(4)] invoke_keeps [OF doc(3) w(1) run] in simp_all)
  moreover have "client_fds w \<subseteq> client_fds (sworld t)"
    using w(2,3) by (auto simp: conn_effect_def same_conn_def ran_def split: if_splits)
  ultimately show ?thesis using run same server_inv_effect [OF w(3,2,4) inv(1)] by (simp add: handled_well_def)
qed

text \<open>A callback of a channel of the loop \<open>r\<close> finds its reactor or its connection.\<close>

lemma invoke_inv:
  assumes doc: "socket_documented (os b) sent" "read_documented (os b)" "socket_keeps (os b) il"
    and inv: "server_inv b tm tr t" "registry_inv il (sworld t)" and r: "r \<in> pool t" "taken t r = None"
    and ch: "heap (sworld t) c = Some ch" "ch_reactor ch = r" "cb \<in> set (dispatch (platform b) ch)"
  shows "\<exists>w. invoke b (tr r) on_message on_connection cb (sworld t) = Inr w \<and> handled_well il b tm tr t w"
proof -
  have "is_wakeup (sworld t) ch \<or> of_client (sworld t) c" using inv(2) r(1) ch by (auto simp: registry_inv_def)
  then show ?thesis
  proof
    assume wake: "is_wakeup (sworld t) ch"
    then have "cb = OnWakeup r" using ch(2,3) dispatch_callbacks [of "platform b" ch] by (auto simp: is_wakeup_def)
    moreover obtain R where "reactors (sworld t) r = Some R" using wake ch(2) by (auto simp: is_wakeup_def)
    ultimately show ?thesis using wakeup_handled [OF doc(3) inv] by simp
  next
    assume "of_client (sworld t) c"
    then obtain cn x where x: "conns (sworld t) cn = Some x" "conn_channel x = Some c" "state x \<noteq> kConnecting"
      by (auto simp: of_client_def)
    then have "serves (platform b) cn (sockfd x) ch"
      using inv(1) ch(1) unfolding server_inv_def clients_inv_def client_ok_def by (metis option.inject)
    then have "cb_conn cb = Some cn"
      using ch(3) dispatch_callbacks [of "platform b" ch] by (auto simp: serves_def)
    then have "loop_of (sworld t) cb = Some r" using x(1,2) ch(1,2) by (simp add: loop_of_def)
    with client_handled [OF doc inv] r(2) show ?thesis by blast
  qed
qed

lemma dispatch_inv:
  assumes doc: "socket_documented (os b) sent" "read_documented (os b)" "socket_keeps (os b) il"
    and ch: "ch_reactor ch = r" "set cbs \<subseteq> set (dispatch (platform b) ch)"
  shows "server_inv b tm tr t \<Longrightarrow> registry_inv il (sworld t) \<Longrightarrow> r \<in> pool t \<Longrightarrow> taken t r = None \<Longrightarrow>
    heap (sworld t) c = Some ch \<Longrightarrow>
    \<exists>w. ofold (invoke b (tr r) on_message on_connection) cbs (sworld t) = Inr w \<and> handled_well il b tm tr t w"
  using ch(2)
proof (induction cbs arbitrary: t)
  case Nil
  then show ?case by (simp add: handled_well_def)
next
  case (Cons cb cbs)
  have "cb \<in> set (dispatch (platform b) ch)" using Cons.prems(6) by simp
  from invoke_inv [OF doc Cons.prems(1-5) ch(1) this] obtain v where
    v: "invoke b (tr r) on_message on_connection cb (sworld t) = Inr v" "handled_well il b tm tr t v" by blast
  let ?t = "t\<lparr>sworld := v\<rparr>"
  have "\<exists>w. ofold (invoke b (tr r) on_message on_connection) cbs (sworld ?t) = Inr w \<and> handled_well il b tm tr ?t w"
    by (rule Cons.IH) (use v(2) loop_frame_pool [OF handled_frame [OF v(2)]] Cons.prems in \<open>simp_all add: handled_well_def\<close>)
  then obtain w where w: "ofold (invoke b (tr r) on_message on_connection) cbs v = Inr w" "handled_well il b tm tr ?t w" by auto
  have "handled_well il b tm tr t w" 
    using v(2) w(2) subset_trans [of "client_fds w" "client_fds v" "client_fds (sworld t)"] by (simp add: handled_well_def)
  with v(1) w(1) show ?case by simp
qed

lemma handle_inv:
  assumes doc: "socket_documented (os b) sent" "read_documented (os b)" "socket_keeps (os b) il"
    and inv: "loops_inv il b tm tr s" and en: "loop_enabled il (Handle r) s"
  shows "\<exists>t. loop_op b tm tr on_message on_connection (Handle r) s = Inr t \<and> loops_inv il b tm tr t \<and>
     loop_frame {} (world_of s) (world_of t)"
proof -
  obtain c cs where cs: "active s r = Some (c # cs)" using en by auto
  have r: "r \<in> pool (threads s)" "c \<in> chans r (world_of s)" "set cs \<subseteq> chans r (world_of s)"
    using inv cs by (fastforce simp: loops_inv_def active_inv_def)+
  have idle: "taken (threads s) r = None" using inv cs unfolding loops_inv_def active_inv_def by (metis list.distinct(1) option.inject)
  obtain ch where ch: "heap (world_of s) c = Some ch" "ch_reactor ch = r" using r(2) by (auto simp: chans_def)
  obtain w where w: "ofold (invoke b (tr r) on_message on_connection) (dispatch (platform b) ch) (world_of s) = Inr w"
    "handled_well il b tm tr (threads s) w"
    using dispatch_inv [OF doc ch(2) order_refl _ _ r(1) idle ch(1)] inv by (auto simp: loops_inv_def)
  have "chans q w = chans q (world_of s)" for q using w(2) by (simp add: chans_def handled_well_def)
  then have "active_inv (s\<lparr>threads := (threads s)\<lparr>sworld := w\<rparr>, active := (active s)(r := Some cs)\<rparr>)"
    using inv r idle loop_frame_pool [OF handled_frame [OF w(2)]] by (simp add: loops_inv_def active_inv_def)
  then show ?thesis
    using cs ch w handled_frame [OF w(2)] by (simp add: handle_channel_def handleEvent_dispatch loops_inv_def handled_well_def)
qed

end

subsection \<open>The other steps\<close>

text \<open>The descriptors a step brings.\<close>

fun new_fds :: "'k loop_event \<Rightarrow> int set" where
  "new_fds (Thread (Accept fd peer)) = {fd}"
| "new_fds _ = {}"

text \<open>What a step of the threads leaves of the channels.\<close>

definition keeps_registry :: "('k \<Rightarrow> int \<Rightarrow> int \<rightharpoonup> epoll_event) \<Rightarrow> int set \<Rightarrow> ('k, 'm, 'u, 'z) snet_scheme \<Rightarrow> ('k, 'm, 'u, 'z) snet_scheme \<Rightarrow> bool" where
  "keeps_registry il F w w' \<longleftrightarrow> registry_inv il w' \<and> loop_frame F w w'"

lemma keeps_registry_frame:
  assumes "registry_inv il w" and "heap w' = heap w" "next_chan w' = next_chan w" and "frozen (server w') = frozen (server w)"
    and "\<And>r. map_option (\<lambda>R. (r_poller R, marks R)) (reactors w' r) = map_option (\<lambda>R. (r_poller R, marks R)) (reactors w r)"
    and "il (kernel w') = il (kernel w)"
    and "\<And>cn x. conns w cn = Some x \<Longrightarrow> state x \<noteq> kConnecting \<Longrightarrow>
      \<exists>y. conns w' cn = Some y \<and> conn_channel y = conn_channel x \<and> state y \<noteq> kConnecting"
    and "client_fds w' \<subseteq> client_fds w \<union> F"
  shows "keeps_registry il F w w'"
proof -
  note part = arg_cong [OF assms(5), of "map_option h" for h, unfolded option.map_comp comp_def]
  have "registry_inv il w'"
    by (rule registry_frame [OF assms(1-3) _ _ assms(6,7)])
      (use frozen_eqD [OF assms(4)] part [of "\<lambda>(p, q, t, fd, e). (p, fd)"] in \<open>simp_all add: marks_def\<close>)
  moreover have "loop_frame F w w'" using assms(2,4,8) part [of snd] by (simp add: loop_frame_def channels_kept_same)
  ultimately show ?thesis by (simp add: keeps_registry_def)
qed

lemma accept_registry:
  assumes keeps: "socket_keeps (os b) il" and inv: "server_inv b tm tr t" "registry_inv il (sworld t)"
    and en: "enabled (Accept fd peer) t" and op: "server_op b tm tr on_message on_connection (Accept fd peer) t = Inr t'"
  shows "keeps_registry il {fd} (sworld t) (sworld t')"
proof -
  let ?w = "sworld t"
  have wf: "wf_pool (server ?w)" "0 \<le> sint (next_reactor (server ?w))"
    "\<And>r. r \<in> pool t \<Longrightarrow> \<exists>R. reactors ?w r = Some R \<and> \<not> isInLoopThread tm R"
    using inv(1) en by (auto simp: server_inv_def pool_inv_def)
  obtain w' r R c where q: "queue_connection b tm on_connection fd peer ?w = Inr (next_conn ?w, w')" "reactors ?w r = Some R"
    "conns w' = (conns ?w)(next_conn ?w \<mapsto> accepted_conn fd peer c (srv_message_callback (server ?w)))"
    "heap w' = heap ?w" "next_chan w' = next_chan ?w"
    "reactors w' = (reactors ?w)(r \<mapsto> R\<lparr>r_pending_tasks := r_pending_tasks R @ [Register (next_conn ?w) r]\<rparr>)"
    "server w' = (server ?w)\<lparr>next_reactor := next_reactor (server ?w) + 1\<rparr>"
    using queue_connection_law [OF wf] by metis
  have old: "cn \<noteq> next_conn ?w" if "conns ?w cn = Some x" for cn x
    using that inv(1) by (auto simp: server_inv_def clients_inv_def client_ok_def)
  have "keeps_registry il {fd} ?w w'"
    by (rule keeps_registry_frame [OF inv(2)])
      (use q(2-7) old queue_connection_keeps [OF keeps q(1) wf(3)] in \<open>auto simp: frozen_def marks_def accepted_conn_def ran_def split: if_splits\<close>)
  then show ?thesis using op q(1) by auto
qed

lemma store_registry:
  assumes "registry_inv il (sworld t)" and "server_op b tm tr on_message on_connection Store t = Inr t'"
  shows "keeps_registry il {} (sworld t) (sworld t')"
proof -
  have "\<exists>f. sworld t' = on_server f (sworld t) \<and> (\<forall>s. frozen (f s) = frozen s)"
  proof (cases "accept_at t")
    case Waiting
    then show ?thesis using assms(2) by (intro exI [of _ id]) (simp add: on_server_def)
  next
    case (Storing fd cn)
    let ?f = "\<lambda>s. s\<lparr>connections := table_put fd cn (connections s), connections_locked := False\<rparr>"
    have "connections_locked (server (sworld t)) \<longrightarrow> False" using assms(2) Storing
      by (auto simp: store_connection_def guarded_def lock_connections_def)
    then have "sworld t' = on_server ?f (sworld t)" using assms(2) Storing by (auto simp: store_connection_law)
    then show ?thesis by (intro exI [of _ ?f]) (simp add: frozen_def)
  qed
  then show ?thesis using assms(1) by (auto intro!: keeps_registry_frame simp: on_server_def)
qed

lemma reactor_registry:
  assumes "registry_inv il w" and "reactors w r = Some R" and "r_poller R' = r_poller R" and "marks R' = marks R"
  shows "keeps_registry il {} w (put_reactor r R' w)"
  by (rule keeps_registry_frame [OF assms(1)]) (use assms(2-4) in \<open>auto simp: put_reactor_def\<close>)

lemma queue_registry:
  assumes "server_inv b tm tr t" "registry_inv il (sworld t)" and "enabled e t" and "e = BeginTasks r \<or> e = EndTasks r"
    and "server_op b tm tr on_message on_connection e t = Inr t'"
  shows "keeps_registry il {} (sworld t) (sworld t')"
proof -
  have "r \<in> pool t" using assms(1,3,4) by (auto simp: server_inv_def pool_inv_def)
  then obtain R where R: "reactors (sworld t) r = Some R" using assms(1) by (auto simp: server_inv_def pool_inv_def)
  then have "sworld t' = put_reactor r (R\<lparr>r_calling_pending_tasks := True, r_pending_tasks := []\<rparr>) (sworld t) \<or>
    sworld t' = put_reactor r (R\<lparr>r_calling_pending_tasks := False\<rparr>) (sworld t)"
    using assms(4,5) by (auto simp: begin_tasks_def end_tasks_def)
  then show ?thesis by (elim disjE ssubst) (rule reactor_registry [OF assms(2) R]; simp add: marks_def)+
qed

lemma task_registry:
  assumes app: "app_law on_connection" and doc: "epoll_ctl_documented (os b) il" "socket_keeps (os b) il"
    and inv: "server_inv b tm tr t" "registry_inv il (sworld t)" and en: "enabled (RunTask r) t"
    and op: "server_op b tm tr on_message on_connection (RunTask r) t = Inr t'"
  shows "keeps_registry il {} (sworld t) (sworld t')"
proof -
  let ?w = "sworld t"
  obtain u ts where u: "taken t r = Some (u # ts)" using en by auto
  have r: "r \<in> pool t" using inv(1) u by (auto simp: server_inv_def pool_inv_def)
  obtain R where R: "reactors ?w r = Some R" "may_touch b (tr r) R" using inv(1) r by (auto simp: server_inv_def pool_inv_def)
  have clients: "clients_inv (platform b) ?w" using inv(1) by (simp add: server_inv_def)
  have "u \<in> set (tasks_of t r)" using u by (simp add: tasks_of_def)
  then obtain cn x where at: "u = Register cn r" and x: "conns ?w cn = Some x" "state x = kConnecting"
    using inv(1) r by (fastforce simp: server_inv_def tasks_inv_def connecting_def)
  obtain w' c where run: "run_task b (tr r) on_connection (Register cn r) ?w = Inr w'"
      "conns w' = (conns ?w)(cn \<mapsto> x\<lparr>conn_channel := Some (next_chan ?w), state := kConnected, last_active_time := c\<rparr>)"
      "server w' = server ?w" "next_chan w' = Suc (next_chan ?w)"
    using run_task_law [OF app R x(1)] by metis
  note reg = register_registry [OF app doc inv(2) clients r R x run(1,2) _ _ run(3,4)]
  have "keeps_registry il {} ?w w'" using reg by (simp add: keeps_registry_def)
  then show ?thesis using op u at run(1) by (auto simp del: run_task.simps)
qed

lemma broadcast_registry:
  assumes doc: "socket_documented (os b) sent" "socket_keeps (os b) il"
    and inv: "server_inv b tm tr t" "registry_inv il (sworld t)" and en: "enabled (Broadcast message) t"
    and op: "server_op b tm tr on_message on_connection (Broadcast message) t = Inr t'"
  shows "keeps_registry il {} (sworld t) (sworld t')"
proof -
  have "wf_connections (sworld t)" using inv(1) by (simp add: server_inv_def table_inv_def)
  from broadcast_law [OF doc(1) _ this, of message] en obtain w' where
    w': "broadcast b message (sworld t) = Inr w'" "net_same (sworld t) w'" "identity_of w' = identity_of (sworld t)" by auto
  have "\<exists>y. conns w' cn = Some y \<and> conn_channel y = conn_channel x \<and> state y \<noteq> kConnecting"
    if "conns (sworld t) cn = Some x" "state x \<noteq> kConnecting" for cn x
    using that fun_cong [OF w'(3), of cn] by (auto simp: identity_of_def)
  moreover have "\<exists>x. conns (sworld t) cn = Some x \<and> sockfd y = sockfd x" if "conns w' cn = Some y" for cn y
    using that fun_cong [OF w'(3), of cn] by (cases "conns (sworld t) cn") (auto simp: identity_of_def)
  then have "client_fds w' \<subseteq> client_fds (sworld t)" by (fastforce simp: ran_def)
  ultimately have "keeps_registry il {} (sworld t) w'"
    by (intro keeps_registry_frame [OF inv(2)]) (use net_sameD [OF w'(2)] broadcast_keeps [OF doc(2) w'(1)] in simp_all)
  then show ?thesis using op w'(1) by auto
qed

section \<open>Every step\<close>

text \<open>What the loops need of the kernel.\<close>

definition kernel_documented :: "'k os \<Rightarrow> ('k \<Rightarrow> int \<Rightarrow> string) \<Rightarrow> ('k \<Rightarrow> int \<Rightarrow> int \<rightharpoonup> epoll_event) \<Rightarrow> bool" where
  "kernel_documented sys sent il \<longleftrightarrow> socket_documented sys sent \<and> read_documented sys \<and> socket_keeps sys il \<and>
     wait_documented sys il \<and> epoll_ctl_documented sys il"

context polled_application
begin

lemma thread_registry:
  assumes doc: "kernel_documented (os b) sent il" and inv: "loops_inv il b tm tr s" and en: "loop_enabled il (Thread e) s"
    and op: "server_op b tm tr on_message on_connection e (threads s) = Inr t"
  shows "keeps_registry il (new_fds (Thread e)) (world_of s) (sworld t)"
proof -
  have docs: "socket_documented (os b) sent" "socket_keeps (os b) il" "epoll_ctl_documented (os b) il"
    using doc by (simp_all add: kernel_documented_def)
  have i: "server_inv b tm tr (threads s)" "registry_inv il (world_of s)" and e: "enabled e (threads s)" "in_order il e s"
    using inv en by (simp_all add: loops_inv_def)
  show ?thesis
  proof (cases e)
    case (Accept fd peer)
    with accept_registry [OF docs(2) i] e(1) op show ?thesis by simp
  next
    case Store
    with store_registry [OF i(2)] op show ?thesis by simp
  next
    case (BeginTasks r)
    with queue_registry [OF i e(1) _ op] show ?thesis by simp
  next
    case (RunTask r)
    with task_registry [OF connection_law docs(3,2) i] e(1) op show ?thesis by simp
  next
    case (EndTasks r)
    with queue_registry [OF i e(1) _ op] show ?thesis by simp
  next
    case (Callback cb)
    with e(2) show ?thesis by simp
  next
    case (Broadcast message)
    with broadcast_registry [OF docs(1,2) i] e(1) op show ?thesis by simp
  next
    case (Network k)
    with op e(2) show ?thesis by (auto intro!: keeps_registry_frame [OF i(2)])
  qed
qed

lemma thread_taken:
  assumes "in_order il e s" and "enabled e (threads s)" and "server_op b tm tr on_message on_connection e (threads s) = Inr t"
    and "\<And>r. taken (threads s) r \<noteq> None \<Longrightarrow> active s r = Some []" and "taken t r \<noteq> None"
  shows "round_over e (active s) r = Some []"
proof (cases "\<exists>q. e = EndTasks q")
  case True
  then obtain q where "e = EndTasks q" ..
  with assms(3-5) show ?thesis by (cases "r = q") (auto elim!: outcome_elims)
next
  case False
  then have "round_over e (active s) = active s" by (cases e) simp_all
  moreover have "taken (threads s) r \<noteq> None \<or> e = BeginTasks r"
    using assms(2,3,5) False by (cases e) (auto elim!: outcome_elims split: accept_pc.splits option.splits if_splits prod.splits)
  ultimately show ?thesis using assms(1,4) by auto
qed

lemma thread_inv:
  assumes doc: "kernel_documented (os b) sent il" and inv: "loops_inv il b tm tr s" and en: "loop_enabled il (Thread e) s"
  shows "\<exists>t. loop_op b tm tr on_message on_connection (Thread e) s = Inr t \<and> loops_inv il b tm tr t \<and>
     loop_frame (new_fds (Thread e)) (world_of s) (world_of t)"
proof -
  obtain t where t: "server_op b tm tr on_message on_connection e (threads s) = Inr t" "server_inv b tm tr t"
    using op_inv [of tm tr "threads s" e] doc inv en by (auto simp: kernel_documented_def loops_inv_def)
  note reg = thread_registry [OF doc inv en t(1)]
  have act: "active_inv s" using inv by (simp add: loops_inv_def)
  have "r \<in> pool t \<and> set cs \<subseteq> chans r (sworld t)" if "round_over e (active s) r = Some cs" for r cs
  proof -
    have "active s r = Some cs" using that by (cases e) (auto split: if_splits)
    then show ?thesis using act reg loop_frame_pool [of _ "world_of s" "sworld t"] channels_kept_chans [of "world_of s" "sworld t"]
      unfolding active_inv_def keeps_registry_def loop_frame_def by fastforce
  qed
  moreover have "round_over e (active s) r = Some []" if "taken t r \<noteq> None" for r
    by (rule thread_taken [OF _ _ t(1) _ that]) (use en act in \<open>simp_all add: active_inv_def\<close>)
  ultimately have "active_inv (s\<lparr>threads := t, active := round_over e (active s)\<rparr>)" by (simp add: active_inv_def)
  then show ?thesis using t reg by (simp add: loops_inv_def keeps_registry_def)
qed

text \<open>Progress and preservation for the loops.\<close>

lemma loop_op_inv:
  assumes doc: "kernel_documented (os b) sent il" and inv: "loops_inv il b tm tr s" and en: "loop_enabled il e s"
  shows "\<exists>t. loop_op b tm tr on_message on_connection e s = Inr t \<and> loops_inv il b tm tr t \<and>
     loop_frame (new_fds e) (world_of s) (world_of t)"
proof (cases e)
  case (Poll r)
  have "wait_documented (os b) il" using doc by (simp add: kernel_documented_def)
  with poll_inv [OF _ inv] Poll en show ?thesis by simp
next
  case (Handle r)
  have "socket_documented (os b) sent" "read_documented (os b)" "socket_keeps (os b) il"
    using doc by (simp_all add: kernel_documented_def)
  with handle_inv [OF _ _ _ inv] Handle en show ?thesis by simp
next
  case (Thread e')
  with thread_inv [OF doc inv] en show ?thesis by blast
qed

end

sublocale polled_application \<subseteq> loops: inductive_invariant "loops_init il b tm tr"
    "loop_steps il b tm tr on_message on_connection" "\<lambda>s. kernel_documented (os b) sent il \<longrightarrow> loops_inv il b tm tr s" for tm tr
proof
  show "kernel_documented (os b) sent il \<longrightarrow> loops_inv il b tm tr t"
    if "loop_steps il b tm tr on_message on_connection s t" "kernel_documented (os b) sent il \<longrightarrow> loops_inv il b tm tr s" for s t
    using that loop_op_inv by (auto elim!: loop_stepsE) fastforce
qed (simp add: loops_init_inv)

context polled_application
begin

lemma loops_never_fail:
  assumes "kernel_documented (os b) sent il" and "reach (loops_init il b tm tr) (loop_steps il b tm tr on_message on_connection) s"
    and "loop_enabled il e s"
  shows "\<exists>t. loop_op b tm tr on_message on_connection e s = Inr t"
  using loops.reach_inv [OF assms(2)] loop_op_inv [OF assms(1) _ assms(3)] assms(1) by blast

end

end
