(* ===== verification/LoopRounds.thy ===== *)
theory LoopRounds
  imports LoopThreads
begin

text \<open>
  Whole rounds of a sub-reactor's loop: the steps of \<open>LoopThreads\<close>, taken one after the other by
  one loop while the other threads pause, are \<^const>\<open>loop_round\<close>; from every state between two
  rounds that the threads can reach a round returns, and from every state inside of one the loop
  gets to its end.
\<close>

text \<open>The steps of one loop: from the end of its poll on, and with the poll.\<close>

definition rest_of_round :: "reactor_ptr \<Rightarrow> 'k loop_event set" where
  "rest_of_round r = {Handle r, Thread (BeginTasks r), Thread (RunTask r), Thread (EndTasks r)}"

definition round_of :: "reactor_ptr \<Rightarrow> 'k loop_event set" where
  "round_of r = insert (Poll r) (rest_of_round r)"

definition steps_in :: "'k loop_event set \<Rightarrow> ('k \<Rightarrow> int \<Rightarrow> int \<rightharpoonup> epoll_event) \<Rightarrow> 'k build \<Rightarrow> thread_id \<Rightarrow> (reactor_ptr \<Rightarrow> thread_id) \<Rightarrow>
    ('m \<Rightarrow> conn_ptr \<Rightarrow> string \<Rightarrow> ('k, 'm, 'u, 'z) world_op) \<Rightarrow> ('u \<Rightarrow> conn_ptr \<Rightarrow> ('k, 'm, 'u, 'z) world_op) \<Rightarrow>
    ('k, 'm, 'u, 'z) loops \<Rightarrow> ('k, 'm, 'u, 'z) loops \<Rightarrow> bool" where
  "steps_in E il b tm tr on_message on_connection s t \<longleftrightarrow>
     (\<exists>e \<in> E. loop_enabled il e s \<and> loop_op b tm tr on_message on_connection e s = Inr t)"

lemma steps_in_mono:
  "E \<subseteq> F \<Longrightarrow> (steps_in E il b tm tr on_message on_connection)\<^sup>*\<^sup>* s t \<Longrightarrow> (steps_in F il b tm tr on_message on_connection)\<^sup>*\<^sup>* s t"
  by (erule rtranclp_mono [THEN predicate2D, rotated]) (unfold steps_in_def, blast)

lemma steps_in_loop_steps:
  "(steps_in E il b tm tr on_message on_connection)\<^sup>*\<^sup>* s t \<Longrightarrow> (loop_steps il b tm tr on_message on_connection)\<^sup>*\<^sup>* s t"
  by (erule rtranclp_mono [THEN predicate2D, rotated]) (auto simp: steps_in_def intro: loop_happens)

context polled_application
begin

abbreviation taking :: "'k loop_event set \<Rightarrow> thread_id \<Rightarrow> (reactor_ptr \<Rightarrow> thread_id) \<Rightarrow> ('k, 'm, 'u, 'z) loops \<Rightarrow> ('k, 'm, 'u, 'z) loops \<Rightarrow> bool" where
  "taking E tm tr \<equiv> steps_in E il b tm tr on_message on_connection"

lemma takeI:
  assumes "kernel_documented (os b) sent il" and "loops_inv il b tm tr s" and "loop_enabled il e s" and "e \<in> E" and "new_fds e = {}"
  obtains t where "loop_op b tm tr on_message on_connection e s = Inr t" and "loops_inv il b tm tr t"
    and "loop_frame {} (world_of s) (world_of t)" and "(taking E tm tr)\<^sup>*\<^sup>* s t"
  using loop_op_inv [OF assms(1-3), unfolded assms(5)] assms(3,4) unfolding steps_in_def by blast

lemma handle_all:
  assumes doc: "kernel_documented (os b) sent il"
  shows "loops_inv il b tm tr s \<Longrightarrow> active s r = Some cs \<Longrightarrow>
    \<exists>t. ofold (handle_channel b (invoke b (tr r) on_message on_connection)) cs (world_of s) = Inr (world_of t) \<and>
      loops_inv il b tm tr t \<and> loop_frame {} (world_of s) (world_of t) \<and> active t r = Some [] \<and> taken (threads t) = taken (threads s) \<and>
      (taking (rest_of_round r) tm tr)\<^sup>*\<^sup>* s t"
proof (induction cs arbitrary: s)
  case (Cons c cs)
  then have "loop_enabled il (Handle r) s" "Handle r \<in> rest_of_round r" "new_fds (Handle r) = {}" by (simp_all add: rest_of_round_def)
  from takeI [OF doc Cons.prems(1) this] obtain t where t: "loop_op b tm tr on_message on_connection (Handle r) s = Inr t"
    "loops_inv il b tm tr t" "loop_frame {} (world_of s) (world_of t)" "(taking (rest_of_round r) tm tr)\<^sup>*\<^sup>* s t" by blast
  then obtain w where w: "handle_channel b (invoke b (tr r) on_message on_connection) c (world_of s) = Inr w"
    "t = s\<lparr>threads := (threads s)\<lparr>sworld := w\<rparr>, active := (active s)(r := Some cs)\<rparr>"
    using Cons.prems(2) by (auto elim!: outcome_elims)
  from Cons.IH [OF t(2)] w(2) obtain u where
    "ofold (handle_channel b (invoke b (tr r) on_message on_connection)) cs w = Inr (world_of u)" "loops_inv il b tm tr u"
    "loop_frame {} (world_of t) (world_of u)" "active u r = Some []" "taken (threads u) = taken (threads s)"
    "(taking (rest_of_round r) tm tr)\<^sup>*\<^sup>* t u" by auto
  then show ?case using w(1) t(4) loop_frame_trans [OF t(3)] rtranclp_trans [OF t(4)] by auto
qed auto

lemma run_all:
  assumes doc: "kernel_documented (os b) sent il"
  shows "loops_inv il b tm tr s \<Longrightarrow> taken (threads s) r = Some ts \<Longrightarrow>
    \<exists>t. ofold (run_task b (tr r) on_connection) ts (world_of s) = Inr (world_of t) \<and>
      loops_inv il b tm tr t \<and> loop_frame {} (world_of s) (world_of t) \<and> taken (threads t) r = Some [] \<and>
      (taking (rest_of_round r) tm tr)\<^sup>*\<^sup>* s t"
proof (induction ts arbitrary: s)
  case (Cons u ts)
  then have "loop_enabled il (Thread (RunTask r)) s" "Thread (RunTask r) \<in> rest_of_round r" "new_fds (Thread (RunTask r)) = {}" by (simp_all add: rest_of_round_def)
  from takeI [OF doc Cons.prems(1) this] obtain t where t: "loop_op b tm tr on_message on_connection (Thread (RunTask r)) s = Inr t"
    "loops_inv il b tm tr t" "loop_frame {} (world_of s) (world_of t)" "(taking (rest_of_round r) tm tr)\<^sup>*\<^sup>* s t" by blast
  then obtain w where w: "run_task b (tr r) on_connection u (world_of s) = Inr w"
    "threads t = (threads s)\<lparr>sworld := w, taken := (taken (threads s))(r := Some ts)\<rparr>"
    using Cons.prems(2) by (auto elim!: outcome_elims simp del: run_task.simps)
  from Cons.IH [OF t(2)] w(2) obtain v where
    "ofold (run_task b (tr r) on_connection) ts w = Inr (world_of v)" "loops_inv il b tm tr v"
    "loop_frame {} (world_of t) (world_of v)" "taken (threads v) r = Some []" "(taking (rest_of_round r) tm tr)\<^sup>*\<^sup>* t v" by auto
  then show ?case using w(1) loop_frame_trans [OF t(3)] rtranclp_trans [OF t(4)] by (auto simp del: run_task.simps)
qed auto

text \<open>Running the tasks taken, and the end of the round.\<close>

lemma tasks_end:
  assumes doc: "kernel_documented (os b) sent il" and inv: "loops_inv il b tm tr s" and ts: "taken (threads s) r = Some ts"
  shows "\<exists>t. obind (ofold (run_task b (tr r) on_connection) ts (world_of s)) (end_tasks r) = Inr (world_of t) \<and>
     loops_inv il b tm tr t \<and> loop_frame {} (world_of s) (world_of t) \<and> active t r = None \<and>
     (taking (rest_of_round r) tm tr)\<^sup>*\<^sup>* s t"
proof -
  from run_all [OF doc inv ts] obtain s1 where
    s1: "ofold (run_task b (tr r) on_connection) ts (world_of s) = Inr (world_of s1)" "loops_inv il b tm tr s1"
      "loop_frame {} (world_of s) (world_of s1)" "taken (threads s1) r = Some []" "(taking (rest_of_round r) tm tr)\<^sup>*\<^sup>* s s1" by blast
  then have "loop_enabled il (Thread (EndTasks r)) s1" "Thread (EndTasks r) \<in> rest_of_round r" "new_fds (Thread (EndTasks r)) = {}" by (simp_all add: rest_of_round_def)
  from takeI [OF doc s1(2) this] obtain t where t: "loop_op b tm tr on_message on_connection (Thread (EndTasks r)) s1 = Inr t"
    "loops_inv il b tm tr t" "loop_frame {} (world_of s1) (world_of t)" "(taking (rest_of_round r) tm tr)\<^sup>*\<^sup>* s1 t" by blast
  then have "end_tasks r (world_of s1) = Inr (world_of t)" "active t r = None" by (auto elim!: outcome_elims)
  then show ?thesis
    using s1(1) t(2) loop_frame_trans [OF s1(3) t(3)] rtranclp_trans [OF s1(5) t(4)] by (auto simp del: run_task.simps)
qed

text \<open>From the end of a poll to the end of the round.\<close>

lemma handled_end:
  assumes doc: "kernel_documented (os b) sent il" and inv: "loops_inv il b tm tr s"
    and cs: "active s r = Some cs" and idle: "taken (threads s) r = None"
  shows "\<exists>t. obind (ofold (handle_channel b (invoke b (tr r) on_message on_connection)) cs (world_of s)) (\<lambda>w.
       obind (begin_tasks r w) (\<lambda>(ts, w). obind (ofold (run_task b (tr r) on_connection) ts w) (end_tasks r))) = Inr (world_of t) \<and>
     loops_inv il b tm tr t \<and> loop_frame {} (world_of s) (world_of t) \<and> active t r = None \<and> (taking (rest_of_round r) tm tr)\<^sup>*\<^sup>* s t"
proof -
  from handle_all [OF doc inv cs] idle obtain s1 where
    s1: "ofold (handle_channel b (invoke b (tr r) on_message on_connection)) cs (world_of s) = Inr (world_of s1)"
      "loops_inv il b tm tr s1" "loop_frame {} (world_of s) (world_of s1)" "active s1 r = Some []" "taken (threads s1) r = None"
      "(taking (rest_of_round r) tm tr)\<^sup>*\<^sup>* s s1" by metis
  have "r \<in> pool (threads s1)" using s1(2,4) by (auto simp: loops_inv_def active_inv_def)
  then have "loop_enabled il (Thread (BeginTasks r)) s1" "Thread (BeginTasks r) \<in> rest_of_round r" "new_fds (Thread (BeginTasks r)) = {}"
    using s1(4,5) by (simp_all add: rest_of_round_def)
  from takeI [OF doc s1(2) this] obtain s2 where s2: "loop_op b tm tr on_message on_connection (Thread (BeginTasks r)) s1 = Inr s2"
    "loops_inv il b tm tr s2" "loop_frame {} (world_of s1) (world_of s2)" "(taking (rest_of_round r) tm tr)\<^sup>*\<^sup>* s1 s2" by blast
  then obtain ts where ts: "begin_tasks r (world_of s1) = Inr (ts, world_of s2)" "taken (threads s2) r = Some ts"
    by (auto elim!: outcome_elims)
  from tasks_end [OF doc s2(2) ts(2)] obtain t where
    t: "obind (ofold (run_task b (tr r) on_connection) ts (world_of s2)) (end_tasks r) = Inr (world_of t)" "loops_inv il b tm tr t"
      "loop_frame {} (world_of s2) (world_of t)" "active t r = None" "(taking (rest_of_round r) tm tr)\<^sup>*\<^sup>* s2 t" by blast
  have "loop_frame {} (world_of s) (world_of t)" "(taking (rest_of_round r) tm tr)\<^sup>*\<^sup>* s t"
    using loop_frame_trans [OF s1(3) loop_frame_trans [OF s2(3) t(3)]]
      rtranclp_trans [OF s1(6) rtranclp_trans [OF s2(4) t(5)]] by simp_all
  with s1(1) ts(1) t(1,2,4) show ?thesis by (auto simp del: run_task.simps)
qed

text \<open>A loop in the middle of a round gets to its end.\<close>

lemma round_ends:
  assumes doc: "kernel_documented (os b) sent il" and inv: "loops_inv il b tm tr s"
  shows "\<exists>t. loops_inv il b tm tr t \<and> loop_frame {} (world_of s) (world_of t) \<and> active t r = None \<and> (taking (rest_of_round r) tm tr)\<^sup>*\<^sup>* s t"
proof (cases "active s r")
  case None
  with inv show ?thesis by (intro exI [of _ s]) simp
next
  case (Some cs)
  show ?thesis
  proof (cases "taken (threads s) r")
    case None
    from handled_end [OF doc inv Some this] show ?thesis by blast
  next
    case (Some ts)
    from tasks_end [OF doc inv this] show ?thesis by blast
  qed
qed

lemma round_returns:
  assumes doc: "kernel_documented (os b) sent il" and inv: "loops_inv il b tm tr s"
    and r: "r \<in> pool (threads s)" "active s r = None"
  shows "\<exists>t. loop_round b (invoke b (tr r) on_message on_connection) (run_task b (tr r) on_connection) r (world_of s) = Inr (world_of t) \<and>
     loops_inv il b tm tr t \<and> loop_frame {} (world_of s) (world_of t) \<and> active t r = None \<and> (taking (round_of r) tm tr)\<^sup>*\<^sup>* s t"
proof -
  have "loop_enabled il (Poll r) s" "Poll r \<in> round_of r" "new_fds (Poll r) = {}" using r by (simp_all add: round_of_def)
  from takeI [OF doc inv this] obtain s1 where s1: "loop_op b tm tr on_message on_connection (Poll r) s = Inr s1"
    "loops_inv il b tm tr s1" "loop_frame {} (world_of s) (world_of s1)" "(taking (round_of r) tm tr)\<^sup>*\<^sup>* s s1" by blast
  then obtain cs where poll: "poll_phase b r (world_of s) = Inr (cs, world_of s1)" "active s1 r = Some cs" "taken (threads s1) = taken (threads s)"
    by (auto elim!: outcome_elims)
  have idle: "taken (threads s1) r = None"
    using inv r(2) poll(3) unfolding loops_inv_def active_inv_def by (metis option.distinct(1))
  from handled_end [OF doc s1(2) poll(2) idle] obtain t where
    t: "obind (ofold (handle_channel b (invoke b (tr r) on_message on_connection)) cs (world_of s1)) (\<lambda>w.
       obind (begin_tasks r w) (\<lambda>(ts, w). obind (ofold (run_task b (tr r) on_connection) ts w) (end_tasks r))) = Inr (world_of t)"
      "loops_inv il b tm tr t" "loop_frame {} (world_of s1) (world_of t)" "active t r = None" "(taking (rest_of_round r) tm tr)\<^sup>*\<^sup>* s1 t" by blast
  have "(taking (round_of r) tm tr)\<^sup>*\<^sup>* s1 t" using steps_in_mono [OF _ t(5), of "round_of r"] by (auto simp: round_of_def)
  then have "(taking (round_of r) tm tr)\<^sup>*\<^sup>* s t" using s1(4) by (rule rtranclp_trans [rotated])
  then show ?thesis using poll(1) t(1,2,4) loop_frame_trans [OF s1(3) t(3)]
    by (intro exI [of _ t]) (simp add: loop_round_phases del: run_task.simps)
qed

end

end
