(* ===== verification/Stopping.thy ===== *)
theory Stopping
  imports LoopRounds
begin

text \<open>
  Stopping a running server while its threads go on: \<^verbatim>\<open>TcpServer::stop()\<close> as one more thread, which
  closes the acceptor, tells the reactors to quit, waits for the threads that loop them, and closes
  the connections. The theory shows that every step but the last returns, when the last one waits
  for a lock its own thread holds, and that the threads it waits for come to their end.
\<close>

section \<open>States and events\<close>

text \<open>
  Where the stopping thread stands; which loops have found \<^verbatim>\<open>quit_\<close> unset and go on to poll, and
  which have returned.
\<close>

datatype stop_pc = Serving | QuitMain | JoinMain | QuitSubs "reactor_ptr list" | JoinSubs "reactor_ptr list" | CloseAll | Stopped

record ('k, 'm, 'u, 'z) stopping =
  looping :: "('k, 'm, 'u, 'z) loops"
  stop_at :: stop_pc
  checked :: "reactor_ptr set"
  ended :: "reactor_ptr set"

datatype 'k stop_event = Loop "'k loop_event" | Check reactor_ptr | Stop

abbreviation stop_world :: "('k, 'm, 'u, 'z) stopping \<Rightarrow> ('k, 'm, 'u, 'z) snet_scheme" where
  "stop_world s \<equiv> world_of (looping s)"

abbreviation with_world :: "('k, 'm, 'u, 'z) snet_scheme \<Rightarrow> ('k, 'm, 'u, 'z) loops \<Rightarrow> ('k, 'm, 'u, 'z) loops" where
  "with_world w l \<equiv> l\<lparr>threads := (threads l)\<lparr>sworld := w\<rparr>\<rparr>"

text \<open>The steps of \<^verbatim>\<open>stop()\<close>, in the order of the code.\<close>

definition stop_step :: "'k build \<Rightarrow> thread_id \<Rightarrow> ('u \<Rightarrow> conn_ptr \<Rightarrow> ('k, 'm, 'u, 'z) world_op) \<Rightarrow> stop_pc \<Rightarrow>
    ('k, 'm, 'u, 'z) snet_scheme \<Rightarrow> (stop_pc \<times> ('k, 'm, 'u, 'z) snet_scheme) outcome" where
  "stop_step b me on_connection pc w = (case pc of
       Serving \<Rightarrow> obind (close_acceptor b me (on_server (\<lambda>s. s\<lparr>running := False\<rparr>) w)) (\<lambda>w. Inr (QuitMain, w))
     | QuitMain \<Rightarrow> obind (case main_reactor (server w) of None \<Rightarrow> Inr w | Some r \<Rightarrow> quit b me r w) (\<lambda>w. Inr (JoinMain, w))
     | JoinMain \<Rightarrow> Inr (QuitSubs (sub_reactors (server w)), on_server (\<lambda>s. s\<lparr>main_thread := None\<rparr>) w)
     | QuitSubs [] \<Rightarrow> Inr (JoinSubs (reactor_threads (server w)), w)
     | QuitSubs (r # rs) \<Rightarrow> obind (quit b me r w) (\<lambda>w. Inr (QuitSubs rs, w))
     | JoinSubs [] \<Rightarrow> Inr (CloseAll, on_server (\<lambda>s. s\<lparr>reactor_threads := []\<rparr>) w)
     | JoinSubs (r # rs) \<Rightarrow> Inr (JoinSubs rs, w)
     | CloseAll \<Rightarrow> obind (close_all on_connection w) (\<lambda>w. Inr (Stopped, w))
     | Stopped \<Rightarrow> Inr (Stopped, w))"

text \<open>
  When an event can happen. A loop polls after it has found \<^verbatim>\<open>quit_\<close> unset; the main loop accepts as long
  as it has not returned, and it looks at \<^verbatim>\<open>quit_\<close> between two clients. A new client has
  another descriptor than the listening socket. Joining a thread waits until its loop has returned,
  and nothing is looked at once \<^verbatim>\<open>stop()\<close> has returned.
\<close>

fun ready :: "('k \<Rightarrow> int \<Rightarrow> int \<rightharpoonup> epoll_event) \<Rightarrow> 'k loop_event \<Rightarrow> ('k, 'm, 'u, 'z) stopping \<Rightarrow> bool" where
  "ready il (Poll r) s \<longleftrightarrow> r \<in> checked s"
| "ready il (Thread (Accept fd peer)) s \<longleftrightarrow> main_reactor (server (stop_world s)) \<notin> Some ` ended s \<and>
     fd \<noteq> listen_fd (server (stop_world s))"
| "ready il e s \<longleftrightarrow> True"

definition between_rounds :: "reactor_ptr \<Rightarrow> ('k, 'm, 'u, 'z) stopping \<Rightarrow> bool" where
  "between_rounds r s \<longleftrightarrow> (if main_reactor (server (stop_world s)) = Some r then accept_at (threads (looping s)) = Waiting
     else r \<in> pool (threads (looping s)) \<and> active (looping s) r = None)"

fun stop_enabled :: "('k \<Rightarrow> int \<Rightarrow> int \<rightharpoonup> epoll_event) \<Rightarrow> 'k stop_event \<Rightarrow> ('k, 'm, 'u, 'z) stopping \<Rightarrow> bool" where
  "stop_enabled il (Loop e) s \<longleftrightarrow> stop_at s \<noteq> Stopped \<and> loop_enabled il e (looping s) \<and> ready il e s"
| "stop_enabled il (Check r) s \<longleftrightarrow> stop_at s \<noteq> Stopped \<and> r \<notin> checked s \<union> ended s \<and> between_rounds r s"
| "stop_enabled il Stop s \<longleftrightarrow> (case stop_at s of
       JoinMain \<Rightarrow> (\<forall>r. main_thread (server (stop_world s)) = Some r \<longrightarrow> r \<in> ended s)
     | JoinSubs (r # rs) \<Rightarrow> r \<in> ended s
     | Stopped \<Rightarrow> False
     | _ \<Rightarrow> True)"

text \<open>
  What happens then. Checking \<^verbatim>\<open>quit_\<close> ends a loop or lets it go on; the main loop's next round is the
  accepting of clients.
\<close>

fun after_loop :: "'k loop_event \<Rightarrow> reactor_ptr set \<Rightarrow> reactor_ptr set" where
  "after_loop (Poll r) C = C - {r}"
| "after_loop _ C = C"

fun stop_op :: "'k build \<Rightarrow> thread_id \<Rightarrow> thread_id \<Rightarrow> (reactor_ptr \<Rightarrow> thread_id) \<Rightarrow>
    ('m \<Rightarrow> conn_ptr \<Rightarrow> string \<Rightarrow> ('k, 'm, 'u, 'z) world_op) \<Rightarrow> ('u \<Rightarrow> conn_ptr \<Rightarrow> ('k, 'm, 'u, 'z) world_op) \<Rightarrow>
    'k stop_event \<Rightarrow> ('k, 'm, 'u, 'z) stopping \<Rightarrow> ('k, 'm, 'u, 'z) stopping outcome" where
  "stop_op b me tm tr on_message on_connection (Loop e) s =
     obind (loop_op b tm tr on_message on_connection e (looping s)) (\<lambda>l.
       Inr (s\<lparr>looping := l, checked := after_loop e (checked s)\<rparr>))"
| "stop_op b me tm tr on_message on_connection (Check r) s =
     obind (get_reactor r (stop_world s)) (\<lambda>R.
       Inr (if r_quit R then s\<lparr>ended := insert r (ended s)\<rparr>
            else if main_reactor (server (stop_world s)) = Some r then s
            else s\<lparr>checked := insert r (checked s)\<rparr>))"
| "stop_op b me tm tr on_message on_connection Stop s =
     obind (stop_step b me on_connection (stop_at s) (stop_world s)) (\<lambda>(pc, w).
       Inr (s\<lparr>looping := with_world w (looping s), stop_at := pc\<rparr>))"

inductive stop_steps :: "('k \<Rightarrow> int \<Rightarrow> int \<rightharpoonup> epoll_event) \<Rightarrow> 'k build \<Rightarrow> thread_id \<Rightarrow> thread_id \<Rightarrow> (reactor_ptr \<Rightarrow> thread_id) \<Rightarrow>
    ('m \<Rightarrow> conn_ptr \<Rightarrow> string \<Rightarrow> ('k, 'm, 'u, 'z) world_op) \<Rightarrow> ('u \<Rightarrow> conn_ptr \<Rightarrow> ('k, 'm, 'u, 'z) world_op) \<Rightarrow>
    ('k, 'm, 'u, 'z) stopping \<Rightarrow> ('k, 'm, 'u, 'z) stopping \<Rightarrow> bool"
  for il b me tm tr on_message on_connection where
  stop_happens: "stop_enabled il e s \<Longrightarrow> stop_op b me tm tr on_message on_connection e s = Inr t \<Longrightarrow>
     stop_steps il b me tm tr on_message on_connection s t"

inductive_cases stop_stepsE: "stop_steps il b me tm tr on_message on_connection s t"

subsection \<open>The steps make up the function\<close>

text \<open>What is left of \<^verbatim>\<open>stop()\<close> at each point, for threads that have already ended.\<close>

primrec points_left :: "stop_pc \<Rightarrow> nat" where
  "points_left Serving = 6"
| "points_left QuitMain = 5"
| "points_left JoinMain = 4"
| "points_left (QuitSubs rs) = 3"
| "points_left (JoinSubs rs) = 2"
| "points_left CloseAll = 1"
| "points_left Stopped = 0"

function rest_of_stop :: "'k build \<Rightarrow> thread_id \<Rightarrow> ('u \<Rightarrow> conn_ptr \<Rightarrow> ('k, 'm, 'u, 'z) world_op) \<Rightarrow> stop_pc \<Rightarrow> ('k, 'm, 'u, 'z) world_op" where
  "rest_of_stop b me on_connection Serving w =
     obind (close_acceptor b me (on_server (\<lambda>s. s\<lparr>running := False\<rparr>) w)) (\<lambda>w. rest_of_stop b me on_connection QuitMain w)"
| "rest_of_stop b me on_connection QuitMain w =
     obind (case main_reactor (server w) of None \<Rightarrow> Inr w | Some r \<Rightarrow> quit b me r w) (\<lambda>w. rest_of_stop b me on_connection JoinMain w)"
| "rest_of_stop b me on_connection JoinMain w =
     rest_of_stop b me on_connection (QuitSubs (sub_reactors (server w))) (on_server (\<lambda>s. s\<lparr>main_thread := None\<rparr>) w)"
| "rest_of_stop b me on_connection (QuitSubs rs) w =
     obind (ofold (quit b me) rs w) (\<lambda>w. rest_of_stop b me on_connection (JoinSubs (reactor_threads (server w))) w)"
| "rest_of_stop b me on_connection (JoinSubs rs) w =
     rest_of_stop b me on_connection CloseAll (on_server (\<lambda>s. s\<lparr>reactor_threads := []\<rparr>) w)"
| "rest_of_stop b me on_connection CloseAll w = close_all on_connection w"
| "rest_of_stop b me on_connection Stopped w = Inr w"
  by pat_completeness auto

termination
  by (relation "measure (\<lambda>(b, me, on_connection, pc, w). points_left pc)") simp_all

lemma rest_of_stop_fun:
  "rest_of_stop b me on_connection QuitMain = (\<lambda>w.
     obind (case main_reactor (server w) of None \<Rightarrow> Inr w | Some r \<Rightarrow> quit b me r w) (\<lambda>w. rest_of_stop b me on_connection JoinMain w))"
  "rest_of_stop b me on_connection JoinMain = (\<lambda>w.
     rest_of_stop b me on_connection (QuitSubs (sub_reactors (server w))) (on_server (\<lambda>s. s\<lparr>main_thread := None\<rparr>) w))"
  by (rule ext, rule rest_of_stop.simps)+

lemma rest_of_stop_step:
  "rest_of_stop b me on_connection pc w = obind (stop_step b me on_connection pc w) (\<lambda>(pc, w). rest_of_stop b me on_connection pc w)"
proof (cases pc)
  case (QuitSubs rs)
  then show ?thesis by (cases rs) (simp_all add: stop_step_def obind_assoc)
next
  case (JoinSubs rs)
  then show ?thesis by (cases rs) (simp_all add: stop_step_def)
qed (simp_all add: stop_step_def obind_assoc rest_of_stop_fun)

lemma stop_rest:
  fixes w :: "('k, 'm, 'u, 'z) snet_scheme"
  shows "running (server w) \<Longrightarrow> stop b me (\<lambda>r w. Inr w) on_connection w = rest_of_stop b me on_connection Serving w"
proof -
  have main: "(case main_thread (server v) of None \<Rightarrow> Inr v | Some r \<Rightarrow> obind (Inr v) (\<lambda>w. Inr (on_server (\<lambda>s. s\<lparr>main_thread := None\<rparr>) w))) =
      (Inr (on_server (\<lambda>s. s\<lparr>main_thread := None\<rparr>) v) :: ('k, 'm, 'u, 'z) snet_scheme outcome)" for v :: "('k, 'm, 'u, 'z) snet_scheme"
    by (cases "main_thread (server v)") (simp_all add: on_server_def)
  have subs: "ofold (\<lambda>r w. Inr w) rs v = (Inr v :: ('k, 'm, 'u, 'z) snet_scheme outcome)" for rs :: "reactor_ptr list" and v
    by (induction rs) simp_all
  show "running (server w) \<Longrightarrow> ?thesis" unfolding stop_def main subs by (simp add: rest_of_stop_fun on_server_def)
qed

subsection \<open>The accept channel\<close>

text \<open>
  \<^verbatim>\<open>stop()\<close> frees the accept channel while the main loop still runs: a main loop that has this
  channel among those it has to handle in its round follows a pointer to a freed object.
\<close>

lemma accept_channel_freed:
  assumes "accept_channel (server w) = Some c" and "stop_step b me on_connection Serving w = Inr (pc, w')"
  shows "handle_channel b call c w' = Inl Undefined"
proof -
  have "close_acceptor b me (on_server (\<lambda>s. s\<lparr>running := False\<rparr>) w) = Inr w'"
    using assms(2) by (auto simp: stop_step_def elim!: outcome_elims)
  then obtain w1 w2 where w2: "destroy_channel b c w1 = Inr w2"
    and last: "(let v = on_server (\<lambda>s. s\<lparr>accept_channel := None\<rparr>) w2 in if listen_fd (server v) \<ge> 0
      then on_server (\<lambda>s. s\<lparr>listen_fd := - 1\<rparr>) (v\<lparr>kernel := sys_close (os b) (listen_fd (server v)) (kernel v)\<rparr>) else v) = w'"
    using assms(1) by (auto simp: close_acceptor_def Let_def elim!: outcome_elims)
  have "heap w' = heap w2" unfolding last [symmetric] by (simp add: on_server_def Let_def)
  with w2 have "heap w' c = None" by (auto simp: destroy_channel_def on_server_def elim!: outcome_elims split: if_splits)
  then show ?thesis by (simp add: handle_channel_def deref_def)
qed

section \<open>What the steps of \<^verbatim>\<open>stop()\<close> leave of the loops\<close>

text \<open>The invariants depend only on what the sub-reactors and the clients have.\<close>

lemma server_inv_frame:
  assumes inv: "server_inv b tm tr s" and conns: "conns w' = conns (sworld s)" "next_conn w' = next_conn (sworld s)"
      "next_chan w' = next_chan (sworld s)"
    and srv: "sub_reactors (server w') = sub_reactors (server (sworld s))" "thread_num (server w') = thread_num (server (sworld s))"
      "connections (server w') = connections (server (sworld s))"
      "connections_locked (server w') = connections_locked (server (sworld s))"
    and R: "\<And>r. map_option (\<lambda>R. (r_pending_tasks R, r_thread_id R, r_wakeup_fd R)) (reactors w' r) =
      map_option (\<lambda>R. (r_pending_tasks R, r_thread_id R, r_wakeup_fd R)) (reactors (sworld s) r)"
    and heap: "\<And>c ch cn. heap (sworld s) c = Some ch \<Longrightarrow> read_callback ch = Some (OnRead cn) \<Longrightarrow> heap w' c = Some ch"
  shows "server_inv b tm tr (s\<lparr>sworld := w'\<rparr>)"
proof -
  let ?w = "sworld s" and ?t = "s\<lparr>sworld := w'\<rparr>"
  have fwd: "\<exists>R'. reactors w' r = Some R' \<and> r_thread_id R' = r_thread_id R \<and> r_wakeup_fd R' = r_wakeup_fd R"
    if "reactors ?w r = Some R" for r R using R [of r] that by auto
  have bwd: "\<exists>Q. reactors ?w r = Some Q \<and> r_wakeup_fd R' = r_wakeup_fd Q" if "reactors w' r = Some R'" for r R'
    using R [of r, symmetric] that by auto
  have "tasks_of ?t r = tasks_of s r" for r
    using R [of r] by (cases "reactors w' r"; cases "reactors ?w r") (auto simp: tasks_of_def)
  moreover have "connecting w' = connecting ?w" using conns(1) by (simp add: connecting_def)
  ultimately have "tasks_inv ?t = tasks_inv s" using srv(1) by (simp add: tasks_inv_def)
  moreover have "pool_inv b tm tr ?t"
    using inv srv(1,2) fwd unfolding server_inv_def pool_inv_def wf_pool_def isInLoopThread_def may_touch_def by fastforce
  moreover have "clients_inv (platform b) w'"
  proof (rule clients_invI)
    show "client_ok (platform b) w' cn x" if "conns w' cn = Some x" for cn x
    proof -
      have "client_ok (platform b) ?w cn x" using that inv conns(1) by (simp add: server_inv_def clients_inv_def)
      moreover have "heap w' c = Some ch" if "heap ?w c = Some ch" "serves pf cn fd ch" for c ch pf fd
        using heap that by (simp add: serves_def)
      ultimately show ?thesis using conns(2,3) unfolding client_ok_def by metis
    qed
    show "cn = cn'" if "conns w' cn = Some x" "conns w' cn' = Some x'" "sockfd x = sockfd x'" for cn cn' x x'
      using that inv conns(1) unfolding server_inv_def clients_inv_def by metis
    show "sockfd x \<noteq> r_wakeup_fd Q" if "conns w' cn = Some x" "reactors w' r = Some Q" for cn x r Q
      using that bwd inv conns(1) unfolding server_inv_def clients_inv_def by metis
  qed
  moreover have "table_inv ?t = table_inv s" using conns(1) srv by (simp add: table_inv_def wf_connections_def)
  ultimately show ?thesis using inv by (simp add: server_inv_def)
qed

lemma registry_outside:
  assumes inv: "registry_inv il w" and same: "next_chan w' = next_chan w" "conns w' = conns w"
      "sub_reactors (server w') = sub_reactors (server w)"
    and R: "\<And>r. r \<in> set (sub_reactors (server w)) \<Longrightarrow> map_option (\<lambda>R. (r_poller R, r_wakeup_fd R)) (reactors w' r) =
      map_option (\<lambda>R. (r_poller R, r_wakeup_fd R)) (reactors w r)"
    and own: "\<And>c ch. heap w c = Some ch \<Longrightarrow> ch_reactor ch \<in> set (sub_reactors (server w)) \<Longrightarrow> heap w' c = Some ch"
    and old: "\<And>c ch. heap w' c = Some ch \<Longrightarrow> heap w c = Some ch"
    and il: "\<And>r R e. r \<in> set (sub_reactors (server w)) \<Longrightarrow> reactors w r = Some R \<Longrightarrow> poller_fd (r_poller R) = Some e \<Longrightarrow>
      il (kernel w') e = il (kernel w) e"
  shows "registry_inv il w'" and "r \<in> set (sub_reactors (server w)) \<Longrightarrow> chans r w' = chans r w"
proof -
  have fwd: "\<exists>R'. reactors w' r = Some R' \<and> r_poller R' = r_poller R \<and> r_wakeup_fd R' = r_wakeup_fd R"
    if "r \<in> set (sub_reactors (server w))" "reactors w r = Some R" for r R using assms(5) [OF that(1)] that(2) by auto
  have bwd: "\<exists>Q. reactors w r = Some Q \<and> poller_fd (r_poller R') = poller_fd (r_poller Q)"
    if "r \<in> set (sub_reactors (server w))" "reactors w' r = Some R'" for r R'
    using assms(5) [OF that(1), symmetric] that(2) by auto
  have ch: "chans r w' = chans r w" if "r \<in> set (sub_reactors (server w))" for r
    using that own old unfolding chans_def by (metis (no_types, lifting))
  then show "r \<in> set (sub_reactors (server w)) \<Longrightarrow> chans r w' = chans r w" .
  have "registry_ok il w' r" if r: "r \<in> set (sub_reactors (server w))" for r
  proof -
    obtain R where R: "reactors w r = Some R" "wf_poller (chans r w) (r_poller R, w)" "poller_synced il (r_poller R, w)"
      using inv r by (rule registry_poolE)
    obtain R' where R': "reactors w' r = Some R'" "r_poller R' = r_poller R" using fwd [OF r R(1)] by blast
    have agree: "heap w' c = heap w c" if "c \<in> chans r w" for c using that own r by (auto simp: chans_def)
    have "poller_synced il (r_poller R, w')"
      using R(3) poller_synced_cong [of "r_poller R" w' w il] agree registrations_live [OF R(2)] il [OF r R(1)] by blast
    then show ?thesis using R' wf_poller_agree [OF R(2) agree] ch [OF r] by (simp add: registry_ok_def)
  qed
  moreover have "lists_apart w'"
    by (rule lists_apart_mono [of w, OF _ same(3)]) (use inv bwd in \<open>auto simp: registry_inv_def\<close>)
  moreover have "is_wakeup w' ch \<or> of_client w' c" if c: "heap w' c = Some ch" "ch_reactor ch \<in> set (sub_reactors (server w))" for c ch
  proof -
    have "is_wakeup w ch \<or> of_client w c" using inv old [OF c(1)] c(2) by (simp add: registry_inv_def)
    moreover have "is_wakeup w ch \<Longrightarrow> is_wakeup w' ch" using fwd [OF c(2)] by (fastforce simp: is_wakeup_def)
    ultimately show ?thesis using same(2) by (auto simp: of_client_def)
  qed
  moreover have "c < next_chan w'" if "heap w' c \<noteq> None" for c
    using that old inv same(1) unfolding registry_inv_def by (metis option.exhaust option.distinct(1))
  ultimately show "registry_inv il w'" using same(3) by (simp add: registry_inv_def)
qed

lemma loops_inv_frame:
  assumes inv: "loops_inv il b tm tr l" and conns: "conns w' = conns (world_of l)" "next_conn w' = next_conn (world_of l)"
      "next_chan w' = next_chan (world_of l)"
    and srv: "sub_reactors (server w') = sub_reactors (server (world_of l))" "thread_num (server w') = thread_num (server (world_of l))"
      "connections (server w') = connections (server (world_of l))"
      "connections_locked (server w') = connections_locked (server (world_of l))"
    and R: "\<And>r. map_option (\<lambda>R. (r_pending_tasks R, r_thread_id R, r_wakeup_fd R)) (reactors w' r) =
      map_option (\<lambda>R. (r_pending_tasks R, r_thread_id R, r_wakeup_fd R)) (reactors (world_of l) r)"
      "\<And>r. r \<in> pool (threads l) \<Longrightarrow> map_option r_poller (reactors w' r) = map_option r_poller (reactors (world_of l) r)"
    and heap: "\<And>c ch. heap (world_of l) c = Some ch \<Longrightarrow> (\<exists>cn. read_callback ch = Some (OnRead cn)) \<or> ch_reactor ch \<in> pool (threads l) \<Longrightarrow>
      heap w' c = Some ch"
    and old: "\<And>c ch. heap w' c = Some ch \<Longrightarrow> heap (world_of l) c = Some ch"
    and il: "\<And>r R e. r \<in> pool (threads l) \<Longrightarrow> reactors (world_of l) r = Some R \<Longrightarrow> poller_fd (r_poller R) = Some e \<Longrightarrow>
      il (kernel w') e = il (kernel (world_of l)) e"
  shows "loops_inv il b tm tr (with_world w' l)"
proof -
  have i: "server_inv b tm tr (threads l)" "registry_inv il (world_of l)" "active_inv l" using inv by (simp_all add: loops_inv_def)
  have "server_inv b tm tr ((threads l)\<lparr>sworld := w'\<rparr>)"
    by (rule server_inv_frame [OF i(1) conns srv R(1)]) (use heap in blast)
  moreover have both: "map_option (\<lambda>R. (r_poller R, r_wakeup_fd R)) (reactors w' r) =
      map_option (\<lambda>R. (r_poller R, r_wakeup_fd R)) (reactors (world_of l) r)" if "r \<in> pool (threads l)" for r
    using R(1) [of r] R(2) [OF that] by (cases "reactors w' r"; cases "reactors (world_of l) r") simp_all
  have hp: "heap w' c = Some ch" if "heap (world_of l) c = Some ch" "ch_reactor ch \<in> pool (threads l)" for c ch
    using heap that by blast
  have "registry_inv il w'"
    by (rule registry_outside(1) [of il "world_of l" w']; (fact i(2) conns(1,3) srv(1) | blast intro: both hp old il))
  moreover have "chans r w' = chans r (world_of l)" if "r \<in> pool (threads l)" for r
    by (rule registry_outside(2) [of il "world_of l" w']; (fact i(2) conns(1,3) srv(1) that | blast intro: both hp old il))
  then have "active_inv (with_world w' l)" using i(3) srv(1) by (simp add: active_inv_def)
  ultimately show ?thesis by (simp add: loops_inv_def)
qed

section \<open>The invariant\<close>

text \<open>Closing a descriptor takes it out of the interest lists of the others.\<close>

definition close_documented :: "'k os \<Rightarrow> ('k \<Rightarrow> int \<Rightarrow> int \<rightharpoonup> epoll_event) \<Rightarrow> bool" where
  "close_documented sys il \<longleftrightarrow> (\<forall>fd k e. e \<noteq> fd \<longrightarrow> il (sys_close sys fd k) e = (il k e)(fd := None))"

text \<open>
  The main reactor is not one of the pool, has an interest list of its own, and belongs to the
  thread that stops; the accept channel is its channel; and the listening socket is the descriptor
  of nothing else.
\<close>

definition main_ok :: "'k build \<Rightarrow> thread_id \<Rightarrow> ('k, 'm, 'u, 'z) snet_scheme \<Rightarrow> bool" where
  "main_ok b me w \<longleftrightarrow> (\<exists>m R. main_reactor (server w) = Some m \<and> m \<notin> set (sub_reactors (server w)) \<and>
     reactors w m = Some R \<and> may_touch b me R \<and>
     (\<forall>r Q e. r \<in> set (sub_reactors (server w)) \<and> reactors w r = Some Q \<and> poller_fd (r_poller Q) = Some e \<longrightarrow>
        poller_fd (r_poller R) \<noteq> Some e))"

definition acceptor_own :: "('k, 'm, 'u, 'z) snet_scheme \<Rightarrow> bool" where
  "acceptor_own w \<longleftrightarrow> (\<forall>c. accept_channel (server w) = Some c \<longrightarrow> (\<exists>ch. heap w c = Some ch \<and>
     main_reactor (server w) = Some (ch_reactor ch) \<and> read_callback ch = Some OnAccept))"

definition listener_apart :: "('k, 'm, 'u, 'z) snet_scheme \<Rightarrow> bool" where
  "listener_apart w \<longleftrightarrow> listen_fd (server w) \<notin> client_fds w \<and>
     (\<forall>r R. reactors w r = Some R \<longrightarrow> r_wakeup_fd R \<noteq> listen_fd (server w) \<and> poller_fd (r_poller R) \<noteq> Some (listen_fd (server w)))"

lemma marksE:
  assumes "\<And>r. map_option marks (reactors w' r) = map_option marks (reactors w r)" and "reactors w' r = Some R'"
  obtains R where "reactors w r = Some R" and "r_quit R' = r_quit R" and "r_thread_id R' = r_thread_id R"
    and "r_wakeup_fd R' = r_wakeup_fd R" and "poller_fd (r_poller R') = poller_fd (r_poller R)"
  using assms(1) [of r, symmetric] assms(2) by (auto simp: marks_def)

lemma main_ok_frame:
  assumes "main_ok b me w" and "\<And>r. map_option marks (reactors w' r) = map_option marks (reactors w r)"
    and "main_reactor (server w') = main_reactor (server w)" and "sub_reactors (server w') = sub_reactors (server w)"
  shows "main_ok b me w'"
proof -
  obtain m R where R: "main_reactor (server w) = Some m" "m \<notin> set (sub_reactors (server w))" "reactors w m = Some R"
    "may_touch b me R" "\<And>r Q e. r \<in> set (sub_reactors (server w)) \<Longrightarrow> reactors w r = Some Q \<Longrightarrow> poller_fd (r_poller Q) = Some e \<Longrightarrow>
        poller_fd (r_poller R) \<noteq> Some e" using assms(1) unfolding main_ok_def by blast
  obtain R' where R': "reactors w' m = Some R'" using assms(2) [of m] R(3) by (cases "reactors w' m") simp_all
  obtain Q where Q: "reactors w m = Some Q" "r_thread_id R' = r_thread_id Q" "poller_fd (r_poller R') = poller_fd (r_poller Q)"
    using marksE [OF assms(2) R'] by metis
  have "may_touch b me R'" using R(3,4) Q by (simp add: may_touch_def isInLoopThread_def)
  moreover have "poller_fd (r_poller R') \<noteq> Some e"
    if "r \<in> set (sub_reactors (server w))" "reactors w' r = Some P" "poller_fd (r_poller P) = Some e" for r P e
    using marksE [OF assms(2) that(2)] R(3,5) Q that(1,3) by (metis option.inject)
  ultimately show ?thesis using R(1,2) R' assms(3,4) unfolding main_ok_def by metis
qed

lemma front_frame:
  assumes "loop_frame F w w'" and "listen_fd (server w) \<notin> F"
  shows "main_ok b me w \<Longrightarrow> main_ok b me w'" and "acceptor_own w \<Longrightarrow> acceptor_own w'" and "listener_apart w \<Longrightarrow> listener_apart w'"
    and "quit_flag r w' = quit_flag r w"
proof -
  have m: "map_option marks (reactors w' r) = map_option marks (reactors w r)" for r using assms(1) by (simp add: loop_frame_def)
  have "frozen (server w') = frozen (server w)" using assms(1) by (simp add: loop_frame_def)
  note same = frozen_eqD [OF this]
  show "main_ok b me w \<Longrightarrow> main_ok b me w'" by (rule main_ok_frame [OF _ m same(3,1)])
  show "acceptor_own w \<Longrightarrow> acceptor_own w'"
    using assms(1) same(3,6) unfolding loop_frame_def channels_kept_def acceptor_own_def by metis
  show "quit_flag r w' = quit_flag r w"
    using m [of r] by (cases "reactors w r"; cases "reactors w' r") (auto simp: quit_flag_def marks_def)
  have "client_fds w' \<subseteq> client_fds w \<union> F" using assms(1) by (simp add: loop_frame_def)
  then show "listener_apart w'" if "listener_apart w"
    using that assms(2) same(7) marksE [OF m] unfolding listener_apart_def by (metis (no_types, lifting) UnE subsetD)
qed

text \<open>
  What holds at each point of \<^verbatim>\<open>stop()\<close>.
\<close>

primrec main_joined :: "stop_pc \<Rightarrow> bool" where
  "main_joined Serving = False"
| "main_joined QuitMain = False"
| "main_joined JoinMain = False"
| "main_joined (QuitSubs rs) = True"
| "main_joined (JoinSubs rs) = True"
| "main_joined CloseAll = True"
| "main_joined Stopped = True"

definition pc_inv :: "stop_pc \<Rightarrow> reactor_ptr set \<Rightarrow> ('k, 'm, 'u, 'z) snet_scheme \<Rightarrow> bool" where
  "pc_inv pc E w \<longleftrightarrow>
     (if pc = Serving then running (server w) else \<not> running (server w) \<and> accept_channel (server w) = None \<and> listen_fd (server w) < 0) \<and>
     (if main_joined pc then main_thread (server w) = None \<and> main_reactor (server w) \<in> Some ` E
      else main_thread (server w) = main_reactor (server w)) \<and>
     (if pc = CloseAll then reactor_threads (server w) = [] \<and> set (sub_reactors (server w)) \<subseteq> E
      else reactor_threads (server w) = sub_reactors (server w)) \<and>
     (pc = JoinMain \<longrightarrow> (\<forall>m. main_reactor (server w) = Some m \<longrightarrow> quit_flag m w = Some True)) \<and>
     (\<forall>rs. pc = QuitSubs rs \<longrightarrow> set rs \<subseteq> set (sub_reactors (server w)) \<and>
        (\<forall>r \<in> set (sub_reactors (server w)) - set rs. quit_flag r w = Some True)) \<and>
     (\<forall>rs. pc = JoinSubs rs \<longrightarrow> set rs \<subseteq> set (sub_reactors (server w)) \<and> set (sub_reactors (server w)) \<subseteq> set rs \<union> E \<and>
        (\<forall>r \<in> set (sub_reactors (server w)). quit_flag r w = Some True))"

lemma pc_inv_frame:
  assumes "pc_inv pc E w" and "E \<subseteq> E'" and "frozen (server w') = frozen (server w)" and "\<And>r. quit_flag r w' = quit_flag r w"
  shows "pc_inv pc E' w'"
  using assms(1,2,4) frozen_eqD [OF assms(3)] unfolding pc_inv_def by (auto split: if_splits) blast+

definition loops_apart :: "('k, 'm, 'u, 'z) stopping \<Rightarrow> bool" where
  "loops_apart s \<longleftrightarrow> (\<forall>r \<in> checked s. r \<in> pool (threads (looping s)) \<and> active (looping s) r = None \<and> r \<notin> ended s) \<and>
     (\<forall>r \<in> ended s. between_rounds r s)"

definition live_inv :: "('k \<Rightarrow> int \<Rightarrow> int \<rightharpoonup> epoll_event) \<Rightarrow> 'k build \<Rightarrow> thread_id \<Rightarrow> thread_id \<Rightarrow> (reactor_ptr \<Rightarrow> thread_id) \<Rightarrow>
    ('k, 'm, 'u, 'z) stopping \<Rightarrow> bool" where
  "live_inv il b me tm tr s \<longleftrightarrow> stop_at s \<noteq> Stopped \<and> loops_inv il b tm tr (looping s) \<and> main_ok b me (stop_world s) \<and>
     (stop_at s = Serving \<longrightarrow> acceptor_own (stop_world s) \<and> listener_apart (stop_world s)) \<and>
     pc_inv (stop_at s) (ended s) (stop_world s) \<and> loops_apart s"

text \<open>When \<^verbatim>\<open>stop()\<close> has returned, no loop runs, nothing listens and the table is empty.\<close>

definition closed_down :: "reactor_ptr set \<Rightarrow> ('k, 'm, 'u, 'z) snet_scheme \<Rightarrow> bool" where
  "closed_down E w \<longleftrightarrow> \<not> running (server w) \<and> accept_channel (server w) = None \<and> listen_fd (server w) < 0 \<and>
     main_thread (server w) = None \<and> reactor_threads (server w) = [] \<and> main_reactor (server w) \<in> Some ` E \<and>
     set (sub_reactors (server w)) \<subseteq> E \<and> connections (server w) = [] \<and> \<not> connections_locked (server w)"

definition stop_inv :: "('k \<Rightarrow> int \<Rightarrow> int \<rightharpoonup> epoll_event) \<Rightarrow> 'k build \<Rightarrow> thread_id \<Rightarrow> thread_id \<Rightarrow> (reactor_ptr \<Rightarrow> thread_id) \<Rightarrow>
    ('k, 'm, 'u, 'z) stopping \<Rightarrow> bool" where
  "stop_inv il b me tm tr s \<longleftrightarrow> (if stop_at s = Stopped then closed_down (ended s) (stop_world s) else live_inv il b me tm tr s)"

text \<open>A started server that nobody stops yet.\<close>

definition stop_init :: "('k \<Rightarrow> int \<Rightarrow> int \<rightharpoonup> epoll_event) \<Rightarrow> 'k build \<Rightarrow> thread_id \<Rightarrow> thread_id \<Rightarrow> (reactor_ptr \<Rightarrow> thread_id) \<Rightarrow>
    ('k, 'm, 'u, 'z) stopping \<Rightarrow> bool" where
  "stop_init il b me tm tr s \<longleftrightarrow> loops_init il b tm tr (looping s) \<and> main_ok b me (stop_world s) \<and>
     acceptor_own (stop_world s) \<and> listener_apart (stop_world s) \<and> running (server (stop_world s)) \<and>
     main_thread (server (stop_world s)) = main_reactor (server (stop_world s)) \<and>
     reactor_threads (server (stop_world s)) = sub_reactors (server (stop_world s)) \<and>
     stop_at s = Serving \<and> checked s = {} \<and> ended s = {}"

lemma stop_init_live: "stop_init il b me tm tr s \<Longrightarrow> live_inv il b me tm tr s"
  using loops_init_inv by (auto simp: stop_init_def live_inv_def pc_inv_def loops_apart_def)

lemma live_stop_inv: "live_inv il b me tm tr s \<Longrightarrow> stop_inv il b me tm tr s"
  by (simp add: stop_inv_def live_inv_def)

section \<open>The steps of \<^verbatim>\<open>stop()\<close>\<close>

subsection \<open>Closing the acceptor\<close>

text \<open>Giving up the accept channel: what it leaves of the other reactors.\<close>

lemma retire_others:
  assumes doc: "epoll_ctl_documented (os b) il" and ch: "heap w c = Some ch" "reactors w (ch_reactor ch) = Some R" "may_touch b me R"
  obtains p k w2 where "obind (change_interest b me DisableAll c w) (channel_remove b me c) = Inr w2"
    and "destroy_channel b c w2 = Inr (put_reactor (ch_reactor ch) (R\<lparr>r_poller := p\<rparr>) (w\<lparr>kernel := k, heap := (heap w)(c := None)\<rparr>))"
    and "poller_fd p = poller_fd (r_poller R)" and "\<And>e. Some e \<noteq> poller_fd (r_poller R) \<Longrightarrow> il k e = il (kernel w) e"
proof -
  let ?ch = "set_interest (platform b) DisableAll ch" and ?r = "ch_reactor ch"
  obtain w1 w2 where run: "change_interest b me DisableAll c w = Inr w1" "channel_remove b me c w1 = Inr w2"
    using retire_shape [OF ch] by metis
  obtain p1 v1 i1 k1 where 1: "poller_updateChannel (os b) c (r_poller R, store c ?ch w) = Inr (p1, v1)"
    "v1 = store c (setIndex i1 ?ch) (w\<lparr>kernel := k1\<rparr>)" "w1 = put_reactor ?r (R\<lparr>r_poller := p1\<rparr>) v1"
    using change_interest_runs [OF ch(1,2) run(1)] by metis
  have c1: "heap w1 c = Some (setIndex i1 ?ch)" "reactors w1 (ch_reactor (setIndex i1 ?ch)) = Some (R\<lparr>r_poller := p1\<rparr>)"
    using 1(2,3) by (simp_all add: set_interest_def)
  obtain p2 v2 i2 k2 where 2: "poller_removeChannel (os b) c (p1, w1) = Inr (p2, v2)"
    "v2 = store c (setIndex i2 (setIndex i1 ?ch)) (w1\<lparr>kernel := k2\<rparr>)" "w2 = put_reactor ?r (R\<lparr>r_poller := p2\<rparr>) v2"
    by (rule channel_remove_runs [OF c1 run(2)]) (simp add: set_interest_def)
  have fd: "poller_fd p1 = poller_fd (r_poller R)" "poller_fd p2 = poller_fd p1"
    using poller_update_others(1) [OF doc _ 1(1)] poller_remove_others(1) [OF doc c1(1) 2(1)] by simp_all
  have il: "il k2 e = il (kernel w) e" if "Some e \<noteq> poller_fd (r_poller R)" for e
    using poller_update_others(2) [OF doc _ 1(1), of _ e] poller_remove_others(2) [OF doc c1(1) 2(1), of e] that fd 1(2,3) 2(2) by simp
  have "ch_events (setIndex i2 (setIndex i1 ?ch)) = kNoneEvent" by (simp add: set_interest_def)
  from isReading_none [OF this] have "destroy_channel b c w2 =
      Inr (put_reactor ?r (R\<lparr>r_poller := p2\<rparr>) (w\<lparr>kernel := k2, heap := (heap w)(c := None)\<rparr>))"
    using 1(2,3) 2(2,3) by (simp add: destroy_channel_def deref_def put_reactor_def store_def)
  then show thesis using that run fd il by simp
qed

text \<open>No sub-reactor watches the listening socket.\<close>

lemma listener_unwatched:
  assumes reg: "registry_inv il w" and clients: "clients_inv pf w" and apart: "listener_apart w"
    and r: "r \<in> set (sub_reactors (server w))" "reactors w r = Some R" "poller_fd (r_poller R) = Some e"
  shows "il (kernel w) e (listen_fd (server w)) = None"
proof (cases "r_poller R")
  case (Epoll p)
  let ?fd = "listen_fd (server w)"
  obtain R' where "reactors w r = Some R'" "wf_poller (chans r w) (r_poller R', w)" "poller_synced il (r_poller R', w)"
    using reg r(1) by (rule registry_poolE)
  then have p: "wf_table (chans r w) (ep_channels p) w" "il (kernel w) e = expected_interest p w"
    using r(2,3) Epoll by (auto simp: synced_def)
  have "ep_channels p ?fd = None"
  proof (rule ccontr)
    assume "ep_channels p ?fd \<noteq> None"
    then obtain c where c: "c \<in> chans r w" "fd_of w c = ?fd" using p(1) by (auto simp: wf_table_def)
    then obtain ch where ch: "heap w c = Some ch" "ch_reactor ch = r" "ch_fd ch = ?fd" by (auto simp: chans_def fd_of_def)
    then have "is_wakeup w ch \<or> of_client w c" using reg r(1) by (auto simp: registry_inv_def)
    then show False
    proof
      assume "is_wakeup w ch"
      with apart ch(3) show False unfolding is_wakeup_def listener_apart_def by metis
    next
      assume "of_client w c"
      then obtain cn x where x: "conns w cn = Some x" "conn_channel x = Some c" "state x \<noteq> kConnecting" by (auto simp: of_client_def)
      then have "ch_fd ch = sockfd x" using clients ch(1) unfolding clients_inv_def client_ok_def serves_def by (metis option.inject)
      moreover have "sockfd x \<in> client_fds w" using x(1) by (auto intro: ranI)
      ultimately show False using apart ch(3) by (simp add: listener_apart_def)
    qed
  qed
  then show ?thesis using p(2) by (simp add: expected_interest_def)
qed (use r(3) in simp)

text \<open>The accept channel gone, on the heap and in the main reactor's poller.\<close>

definition retired :: "('k \<Rightarrow> int \<Rightarrow> int \<rightharpoonup> epoll_event) \<Rightarrow> ('k, 'm, 'u, 'z) snet_scheme \<Rightarrow> task reactor \<Rightarrow> poller \<Rightarrow> 'k \<Rightarrow>
    (chan_ptr \<rightharpoonup> chan_cb channel) \<Rightarrow> bool" where
  "retired il w R p k hp \<longleftrightarrow> poller_fd p = poller_fd (r_poller R) \<and>
     (\<forall>e. Some e \<noteq> poller_fd (r_poller R) \<longrightarrow> il k e = il (kernel w) e) \<and>
     (\<forall>c ch. heap w c = Some ch \<and> ((\<exists>cn. read_callback ch = Some (OnRead cn)) \<or> ch_reactor ch \<in> set (sub_reactors (server w))) \<longrightarrow>
        hp c = Some ch) \<and>
     (\<forall>c ch. hp c = Some ch \<longrightarrow> heap w c = Some ch)"

lemma retired_on_server:
  "sub_reactors (f (server w)) = sub_reactors (server w) \<Longrightarrow> retired il (on_server f w) R p k hp = retired il w R p k hp"
  by (simp add: retired_def on_server_def)

lemma accept_channel_retired:
  assumes doc: "epoll_ctl_documented (os b) il" and own: "acceptor_own w"
    and R: "main_reactor (server w) = Some m" "m \<notin> set (sub_reactors (server w))" "reactors w m = Some R" "may_touch b me R"
  obtains p k hp where "(case accept_channel (server w) of None \<Rightarrow> Inr w
      | Some c \<Rightarrow> obind (change_interest b me DisableAll c w) (\<lambda>w. obind (channel_remove b me c w) (\<lambda>w.
          obind (destroy_channel b c w) (\<lambda>w. Inr (on_server (\<lambda>s. s\<lparr>accept_channel := None\<rparr>) w))))) =
      Inr (on_server (\<lambda>s. s\<lparr>accept_channel := None\<rparr>) (put_reactor m (R\<lparr>r_poller := p\<rparr>) (w\<lparr>kernel := k, heap := hp\<rparr>)))"
    and "retired il w R p k hp"
proof (cases "accept_channel (server w)")
  case None
  show thesis
    by (rule that [of "r_poller R" "heap w" "kernel w"])
      (use None R(3) in \<open>simp_all add: on_server_def put_reactor_def fun_upd_idem retired_def\<close>)
next
  case (Some c)
  then obtain ch where ch: "heap w c = Some ch" "reactors w (ch_reactor ch) = Some R" "ch_reactor ch = m" "read_callback ch = Some OnAccept"
    using own R(1,3) by (auto simp: acceptor_own_def)
  obtain p k w2 where w2: "obind (change_interest b me DisableAll c w) (channel_remove b me c) = Inr w2"
    "destroy_channel b c w2 = Inr (put_reactor m (R\<lparr>r_poller := p\<rparr>) (w\<lparr>kernel := k, heap := (heap w)(c := None)\<rparr>))"
    "poller_fd p = poller_fd (r_poller R)" "\<And>e. Some e \<noteq> poller_fd (r_poller R) \<Longrightarrow> il k e = il (kernel w) e"
    using retire_others [OF doc ch(1,2) R(4)] ch(3) by metis
  show thesis
  proof (rule that [of p "(heap w)(c := None)" k])
    show "(case accept_channel (server w) of None \<Rightarrow> Inr w
      | Some c \<Rightarrow> obind (change_interest b me DisableAll c w) (\<lambda>w. obind (channel_remove b me c w) (\<lambda>w.
          obind (destroy_channel b c w) (\<lambda>w. Inr (on_server (\<lambda>s. s\<lparr>accept_channel := None\<rparr>) w))))) =
      Inr (on_server (\<lambda>s. s\<lparr>accept_channel := None\<rparr>) (put_reactor m (R\<lparr>r_poller := p\<rparr>) (w\<lparr>kernel := k, heap := (heap w)(c := None)\<rparr>)))"
      using Some w2(1,2) by (simp add: obind_assoc [symmetric])
    show "retired il w R p k ((heap w)(c := None))" unfolding retired_def using w2(3,4) ch R(2) by auto
  qed
qed

lemma close_acceptor_runs:
  assumes doc: "epoll_ctl_documented (os b) il" "close_documented (os b) il" and inv: "loops_inv il b tm tr l"
    and front: "main_ok b me (world_of l)" "acceptor_own (world_of l)" "listener_apart (world_of l)"
  shows "\<exists>w'. close_acceptor b me (on_server (\<lambda>s. s\<lparr>running := False\<rparr>) (world_of l)) = Inr w' \<and>
     loops_inv il b tm tr (with_world w' l) \<and> (\<forall>r. map_option marks (reactors w' r) = map_option marks (reactors (world_of l) r)) \<and>
     server w' = (server (world_of l))\<lparr>running := False, accept_channel := None, listen_fd := min (listen_fd (server (world_of l))) (- 1)\<rparr>"
proof -
  let ?w = "world_of l" and ?v = "on_server (\<lambda>s. s\<lparr>running := False\<rparr>) (world_of l)" and ?fd = "listen_fd (server (world_of l))"
  obtain m R where R: "main_reactor (server ?w) = Some m" "m \<notin> pool (threads l)" "reactors ?w m = Some R" "may_touch b me R"
    "\<And>r Q e. r \<in> pool (threads l) \<Longrightarrow> reactors ?w r = Some Q \<Longrightarrow> poller_fd (r_poller Q) = Some e \<Longrightarrow> poller_fd (r_poller R) \<noteq> Some e"
    using front(1) unfolding main_ok_def by blast
  have i: "registry_inv il ?w" "clients_inv (platform b) ?w" using inv by (simp_all add: loops_inv_def server_inv_def)
  have v: "acceptor_own ?v" "main_reactor (server ?v) = Some m" "m \<notin> set (sub_reactors (server ?v))" "reactors ?v m = Some R"
    using front(2) R by (simp_all add: acceptor_own_def on_server_def)
  obtain p k hp where gone: "(case accept_channel (server ?v) of None \<Rightarrow> Inr ?v
      | Some c \<Rightarrow> obind (change_interest b me DisableAll c ?v) (\<lambda>w. obind (channel_remove b me c w) (\<lambda>w.
          obind (destroy_channel b c w) (\<lambda>w. Inr (on_server (\<lambda>s. s\<lparr>accept_channel := None\<rparr>) w))))) =
      Inr (on_server (\<lambda>s. s\<lparr>accept_channel := None\<rparr>) (put_reactor m (R\<lparr>r_poller := p\<rparr>) (?v\<lparr>kernel := k, heap := hp\<rparr>)))"
    and retv: "retired il ?v R p k hp"
    by (rule accept_channel_retired [OF doc(1) v R(4)]) (rule that)
  have ret: "retired il ?w R p k hp" using retv by (simp add: retired_on_server)
  let ?k = "if ?fd \<ge> 0 then sys_close (os b) ?fd k else k"
  let ?w' = "on_server (\<lambda>s. s\<lparr>running := False, accept_channel := None, listen_fd := min ?fd (- 1)\<rparr>)
      (put_reactor m (R\<lparr>r_poller := p\<rparr>) (?w\<lparr>kernel := ?k, heap := hp\<rparr>))"
  have run: "close_acceptor b me ?v = Inr ?w'"
    using gone by (simp add: close_acceptor_def) (simp add: on_server_def put_reactor_def)
  have f: "conns ?w' = conns ?w" "next_conn ?w' = next_conn ?w" "next_chan ?w' = next_chan ?w" "heap ?w' = hp" "kernel ?w' = ?k"
    "reactors ?w' = (reactors ?w)(m \<mapsto> R\<lparr>r_poller := p\<rparr>)"
    "server ?w' = (server ?w)\<lparr>running := False, accept_channel := None, listen_fd := min ?fd (- 1)\<rparr>"
    by (simp_all add: on_server_def put_reactor_def)
  have il: "il ?k e = il (kernel ?w) e" if "r \<in> pool (threads l)" "reactors ?w r = Some Q" "poller_fd (r_poller Q) = Some e" for r Q e
  proof -
    have "Some e \<noteq> poller_fd (r_poller R)" using R(5) [OF that] by metis
    then have "il k e = il (kernel ?w) e" using ret by (simp add: retired_def)
    moreover have "e \<noteq> ?fd" using front(3) that(2,3) by (auto simp: listener_apart_def)
    moreover have "il (kernel ?w) e ?fd = None" by (rule listener_unwatched [OF i front(3) that])
    ultimately show ?thesis using doc(2) by (auto simp: close_documented_def fun_upd_idem)
  qed
  have hp: "hp c = Some ch" if "heap ?w c = Some ch" "(\<exists>cn. read_callback ch = Some (OnRead cn)) \<or> ch_reactor ch \<in> pool (threads l)" for c ch
    using ret that unfolding retired_def by blast
  have old: "heap ?w c = Some ch" if "hp c = Some ch" for c ch using ret that unfolding retired_def by blast
  have "loops_inv il b tm tr (with_world ?w' l)"
  proof (rule loops_inv_frame [OF inv f(1-3)])
    show "map_option (\<lambda>R. (r_pending_tasks R, r_thread_id R, r_wakeup_fd R)) (reactors ?w' r) =
      map_option (\<lambda>R. (r_pending_tasks R, r_thread_id R, r_wakeup_fd R)) (reactors ?w r)" for r unfolding f(6) using R(3) by simp
    show "map_option r_poller (reactors ?w' r) = map_option r_poller (reactors ?w r)" if "r \<in> pool (threads l)" for r
      unfolding f(6) using that R(2) by auto
  qed (unfold f(4,5,7), (erule (1) hp | erule old | erule (2) il | simp)+)
  moreover have "map_option marks (reactors ?w' r) = map_option marks (reactors ?w r)" for r
    unfolding f(6) using R(3) ret by (simp add: marks_def retired_def)
  ultimately show ?thesis using f(7) run by blast
qed

subsection \<open>Telling a reactor to quit\<close>

lemma quit_runs:
  assumes keeps: "socket_keeps (os b) il" and inv: "loops_inv il b tm tr l" and R: "reactors (world_of l) r = Some R"
  shows "\<exists>w'. quit b me r (world_of l) = Inr w' \<and> loops_inv il b tm tr (with_world w' l) \<and> server w' = server (world_of l) \<and>
     reactors w' = (reactors (world_of l))(r \<mapsto> R\<lparr>r_quit := True\<rparr>)"
proof -
  let ?w = "world_of l" and ?R = "R\<lparr>r_quit := True\<rparr>"
  obtain n k where k: "sys_write (os b) (r_wakeup_fd R) (wakeup_message (platform b)) (kernel ?w) = (n, k)" by (rule prod.exhaust)
  let ?k = "if \<not> isInLoopThread me ?R then k else kernel ?w"
  let ?w' = "(put_reactor r ?R ?w)\<lparr>kernel := ?k\<rparr>"
  have il: "il ?k = il (kernel ?w)" using socket_keepsD(3) [OF keeps k] by simp
  have run: "quit b me r ?w = Inr ?w'"
    using R k by (simp add: quit_def wakeup_Some put_reactor_def)
  have f: "conns ?w' = conns ?w" "next_conn ?w' = next_conn ?w" "next_chan ?w' = next_chan ?w" "heap ?w' = heap ?w" "kernel ?w' = ?k"
    "server ?w' = server ?w" "reactors ?w' = (reactors ?w)(r \<mapsto> ?R)" by (simp_all add: put_reactor_def)
  have "loops_inv il b tm tr (with_world ?w' l)"
  proof (rule loops_inv_frame [OF inv f(1-3)])
    show "map_option (\<lambda>R. (r_pending_tasks R, r_thread_id R, r_wakeup_fd R)) (reactors ?w' q) =
      map_option (\<lambda>R. (r_pending_tasks R, r_thread_id R, r_wakeup_fd R)) (reactors ?w q)" for q unfolding f(7) using R by simp
    show "map_option r_poller (reactors ?w' q) = map_option r_poller (reactors ?w q)" for q unfolding f(7) using R by simp
  qed (unfold f(4-6) il, simp_all)
  with run f(6,7) show ?thesis by blast
qed

lemma loops_inv_on_server:
  assumes inv: "loops_inv il b tm tr l"
    and f: "\<And>s. sub_reactors (f s) = sub_reactors s" "\<And>s. thread_num (f s) = thread_num s" "\<And>s. connections (f s) = connections s"
      "\<And>s. connections_locked (f s) = connections_locked s"
  shows "loops_inv il b tm tr (with_world (on_server f (world_of l)) l)"
  by (rule loops_inv_frame [OF inv]) (simp_all add: on_server_def f)

subsection \<open>Every step\<close>

text \<open>A step of the stopping thread in the state of all threads.\<close>

lemma live_inv_step:
  assumes inv: "live_inv il b me tm tr s" and l: "loops_inv il b tm tr (with_world w (looping s))"
    and main: "main_ok b me w" and same: "main_reactor (server w) = main_reactor (server (stop_world s))"
      "sub_reactors (server w) = sub_reactors (server (stop_world s))"
    and pc: "pc \<noteq> Serving" "pc_inv pc (ended s) w" "pc \<noteq> Stopped"
  shows "live_inv il b me tm tr (s\<lparr>looping := with_world w (looping s), stop_at := pc\<rparr>)"
proof -
  have "loops_apart s" using inv by (simp add: live_inv_def)
  then have "loops_apart (s\<lparr>looping := with_world w (looping s), stop_at := pc\<rparr>)"
    using same unfolding loops_apart_def between_rounds_def by simp
  then show ?thesis using l main pc by (simp add: live_inv_def)
qed

text \<open>What \<^verbatim>\<open>stop()\<close> needs of the kernel, with what the loops need.\<close>

definition stop_documented :: "'k os \<Rightarrow> ('k \<Rightarrow> int \<Rightarrow> string) \<Rightarrow> ('k \<Rightarrow> int \<Rightarrow> int \<rightharpoonup> epoll_event) \<Rightarrow> bool" where
  "stop_documented sys sent il \<longleftrightarrow> kernel_documented sys sent il \<and> close_documented sys il"

lemma quit_marks:
  assumes "main_ok b me w" and "reactors w r = Some R" and "reactors w' = (reactors w)(r \<mapsto> R\<lparr>r_quit := True\<rparr>)" and "server w' = server w"
  shows "main_ok b me w'" and "quit_flag q w' = (if q = r then Some True else quit_flag q w)"
proof -
  show "quit_flag q w' = (if q = r then Some True else quit_flag q w)" using assms(3) by (simp add: quit_flag_def)
  let ?f = "\<lambda>R. (r_thread_id R, poller_fd (r_poller R))"
  have same: "map_option ?f (reactors w' q) = map_option ?f (reactors w q)" for q using assms(2,3) by simp
  obtain m Q where Q: "main_reactor (server w) = Some m" "m \<notin> set (sub_reactors (server w))" "reactors w m = Some Q" "may_touch b me Q"
    "\<And>r P e. r \<in> set (sub_reactors (server w)) \<Longrightarrow> reactors w r = Some P \<Longrightarrow> poller_fd (r_poller P) = Some e \<Longrightarrow> poller_fd (r_poller Q) \<noteq> Some e"
    using assms(1) unfolding main_ok_def by blast
  obtain Q' where Q': "reactors w' m = Some Q'" "r_thread_id Q' = r_thread_id Q" "poller_fd (r_poller Q') = poller_fd (r_poller Q)"
    using same [of m] Q(3) by auto
  have "poller_fd (r_poller Q') \<noteq> Some e"
    if P: "r \<in> set (sub_reactors (server w))" "reactors w' r = Some P" "poller_fd (r_poller P) = Some e" for r P e
  proof -
    obtain P' where "reactors w r = Some P'" "poller_fd (r_poller P') = Some e" using same [of r] P(2,3) by (cases "reactors w r") auto
    with Q(5) [OF P(1)] Q'(3) show ?thesis by metis
  qed
  moreover have "may_touch b me Q'" using Q(4) Q'(2) by (simp add: may_touch_def isInLoopThread_def)
  ultimately show "main_ok b me w'" using Q(1,2) Q'(1) assms(4) unfolding main_ok_def by metis
qed

lemma stop_step_returns:
  assumes inv: "live_inv il b me tm tr s" and run: "stop_step b me on_connection (stop_at s) (stop_world s) = Inr (pc, w)"
    and l: "loops_inv il b tm tr (with_world w (looping s))"
    and main: "main_ok b me w" and same: "main_reactor (server w) = main_reactor (server (stop_world s))"
      "sub_reactors (server w) = sub_reactors (server (stop_world s))"
    and pc: "pc \<noteq> Serving" "pc_inv pc (ended s) w" "pc \<noteq> Stopped"
  shows "\<exists>t. stop_op b me tm tr on_message on_connection Stop s = Inr t \<and> live_inv il b me tm tr t"
  using live_inv_step [OF inv l main same pc] run by simp

lemma live_parts:
  assumes "live_inv il b me tm tr s"
  shows "loops_inv il b tm tr (looping s)" and "main_ok b me (stop_world s)" and "pc_inv (stop_at s) (ended s) (stop_world s)"
  using assms by (simp_all add: live_inv_def)

lemma close_step:
  assumes doc: "stop_documented (os b) sent il" and inv: "live_inv il b me tm tr s" and pc: "stop_at s = Serving"
  shows "\<exists>t. stop_op b me tm tr on_message on_connection Stop s = Inr t \<and> live_inv il b me tm tr t"
proof -
  let ?w = "stop_world s"
  note i = live_parts [OF inv]
  have docs: "epoll_ctl_documented (os b) il" "close_documented (os b) il"
    using doc by (simp_all add: stop_documented_def kernel_documented_def)
  have "acceptor_own ?w" "listener_apart ?w" using inv pc by (simp_all add: live_inv_def)
  from close_acceptor_runs [OF docs i(1,2) this] obtain w where
    w: "close_acceptor b me (on_server (\<lambda>s. s\<lparr>running := False\<rparr>) ?w) = Inr w" "loops_inv il b tm tr (with_world w (looping s))"
      "\<And>r. map_option marks (reactors w r) = map_option marks (reactors ?w r)"
      "server w = (server ?w)\<lparr>running := False, accept_channel := None, listen_fd := min (listen_fd (server ?w)) (- 1)\<rparr>" by blast
  have "main_ok b me w" by (rule main_ok_frame [OF i(2) w(3)]) (simp_all add: w(4))
  moreover have "pc_inv QuitMain (ended s) w" using i(3) pc w(4) by (auto simp: pc_inv_def)
  ultimately show ?thesis
    by (intro stop_step_returns [OF inv, where pc = QuitMain and w = w]) (use pc w in \<open>simp_all add: stop_step_def\<close>)
qed

lemma quit_step:
  fixes s :: "('k, 'm, 'u, 'z) stopping"
  assumes doc: "stop_documented (os b) sent il" and inv: "live_inv il b me tm tr s"
    and step: "stop_step b me on_connection (stop_at s) (stop_world s) = obind (quit b me r (stop_world s)) (\<lambda>w. Inr (pc, w))"
    and r: "reactors (stop_world s) r \<noteq> None" and pc: "pc \<noteq> Serving" "pc \<noteq> Stopped"
    and after: "\<And>w :: ('k, 'm, 'u, 'z) snet_scheme. server w = server (stop_world s) \<Longrightarrow>
      (\<And>q. quit_flag q w = (if q = r then Some True else quit_flag q (stop_world s))) \<Longrightarrow> pc_inv pc (ended s) w"
  shows "\<exists>t. stop_op b me tm tr on_message on_connection Stop s = Inr t \<and> live_inv il b me tm tr t"
proof -
  note i = live_parts [OF inv]
  have keeps: "socket_keeps (os b) il" using doc by (simp add: stop_documented_def kernel_documented_def)
  obtain R where R: "reactors (stop_world s) r = Some R" using r by blast
  from quit_runs [OF keeps i(1) R, of me] obtain w where
    w: "quit b me r (stop_world s) = Inr w" "loops_inv il b tm tr (with_world w (looping s))" "server w = server (stop_world s)"
      "reactors w = (reactors (stop_world s))(r \<mapsto> R\<lparr>r_quit := True\<rparr>)" by blast
  note q = quit_marks [OF i(2) R w(4,3)]
  have "stop_step b me on_connection (stop_at s) (stop_world s) = Inr (pc, w)" using step w(1) by simp
  from stop_step_returns [OF inv this w(2) q(1) _ _ pc(1) after [OF w(3) q(2)] pc(2)] w(3) show ?thesis by simp
qed

lemma join_step:
  assumes inv: "live_inv il b me tm tr s"
    and step: "stop_step b me on_connection (stop_at s) (stop_world s) = Inr (pc, on_server f (stop_world s))"
    and f: "\<And>s. sub_reactors (f s) = sub_reactors s" "\<And>s. thread_num (f s) = thread_num s" "\<And>s. connections (f s) = connections s"
      "\<And>s. connections_locked (f s) = connections_locked s" "\<And>s. main_reactor (f s) = main_reactor s"
    and pc: "pc \<noteq> Serving" "pc \<noteq> Stopped" "pc_inv pc (ended s) (on_server f (stop_world s))"
  shows "\<exists>t. stop_op b me tm tr on_message on_connection Stop s = Inr t \<and> live_inv il b me tm tr t"
proof -
  note i = live_parts [OF inv]
  have "loops_inv il b tm tr (with_world (on_server f (stop_world s)) (looping s))"
    by (rule loops_inv_on_server [OF i(1)]) (fact f)+
  moreover have "main_ok b me (on_server f (stop_world s))" by (rule main_ok_frame [OF i(2)]) (simp_all add: on_server_def f)
  ultimately show ?thesis by (intro stop_step_returns [OF inv step]) (use pc f in \<open>simp_all add: on_server_def\<close>)
qed

lemma stop_step_inv:
  assumes doc: "stop_documented (os b) sent il" and inv: "live_inv il b me tm tr s" and en: "stop_enabled il Stop s" and pc: "stop_at s \<noteq> CloseAll"
  shows "\<exists>t. stop_op b me tm tr on_message on_connection Stop s = Inr t \<and> live_inv il b me tm tr t"
proof -
  let ?w = "stop_world s"
  note i = live_parts [OF inv]
  obtain m where m: "main_reactor (server ?w) = Some m" "reactors ?w m \<noteq> None" using i(2) by (auto simp: main_ok_def)
  have same: "on_server (\<lambda>s. s) w = w" for w :: "('k, 'm, 'u, 'z) snet_scheme" by (simp add: on_server_def)
  show ?thesis
  proof (cases "stop_at s")
    case Serving
    with close_step [OF doc inv] show ?thesis by blast
  next
    case QuitMain
    show ?thesis
      by (rule quit_step [OF doc inv _ m(2), where pc = JoinMain]) (use QuitMain m(1) i(3) in \<open>auto simp: stop_step_def pc_inv_def\<close>)
  next
    case JoinMain
    have "m \<in> ended s" using en JoinMain i(3) m(1) by (simp add: pc_inv_def)
    then show ?thesis
      by (intro join_step [OF inv, where pc = "QuitSubs (sub_reactors (server ?w))" and f = "\<lambda>s. s\<lparr>main_thread := None\<rparr>"])
        (use JoinMain m(1) i(3) in \<open>auto simp: stop_step_def pc_inv_def on_server_def\<close>)
  next
    case (QuitSubs rs)
    show ?thesis
    proof (cases rs)
      case Nil
      show ?thesis
        by (rule join_step [OF inv, where pc = "JoinSubs (reactor_threads (server ?w))" and f = "\<lambda>s. s"])
          (use QuitSubs Nil i(3) in \<open>auto simp: stop_step_def pc_inv_def same\<close>)
    next
      case (Cons r rs')
      then have "r \<in> pool (threads (looping s))" using i(3) QuitSubs by (auto simp: pc_inv_def)
      then have r: "reactors ?w r \<noteq> None" using i(1) by (auto simp: loops_inv_def server_inv_def pool_inv_def)
      show ?thesis
        by (rule quit_step [OF doc inv _ r, where pc = "QuitSubs rs'"]) (use QuitSubs Cons i(3) in \<open>auto simp: stop_step_def pc_inv_def\<close>)
    qed
  next
    case (JoinSubs rs)
    show ?thesis
    proof (cases rs)
      case Nil
      show ?thesis
        by (rule join_step [OF inv, where pc = CloseAll and f = "\<lambda>s. s\<lparr>reactor_threads := []\<rparr>"])
          (use JoinSubs Nil i(3) in \<open>auto simp: stop_step_def pc_inv_def on_server_def\<close>)
    next
      case (Cons r rs')
      then have "r \<in> ended s" using en JoinSubs by simp
      then show ?thesis
        by (intro join_step [OF inv, where pc = "JoinSubs rs'" and f = "\<lambda>s. s"])
          (use JoinSubs Cons i(3) in \<open>auto simp: stop_step_def pc_inv_def same\<close>)
    qed
  qed (use pc en in simp_all)
qed

subsection \<open>Looking at \<^verbatim>\<open>quit_\<close>\<close>

lemma check_inv:
  assumes inv: "live_inv il b me tm tr s" and en: "stop_enabled il (Check r) s"
  shows "\<exists>t. stop_op b me tm tr on_message on_connection (Check r) s = Inr t \<and> live_inv il b me tm tr t \<and>
     looping t = looping s \<and> stop_at t = stop_at s \<and> (quit_flag r (stop_world s) = Some True \<longrightarrow> r \<in> ended t) \<and> ended s \<subseteq> ended t"
proof -
  let ?w = "stop_world s"
  have i: "loops_inv il b tm tr (looping s)" "main_ok b me ?w" "pc_inv (stop_at s) (ended s) ?w" "loops_apart s"
    using inv by (simp_all add: live_inv_def)
  have r: "r \<notin> checked s" "r \<notin> ended s" "between_rounds r s" using en by simp_all
  then obtain R where R: "reactors ?w r = Some R"
    using i(1,2) unfolding between_rounds_def loops_inv_def server_inv_def pool_inv_def main_ok_def by (auto split: if_splits)
  let ?t = "if r_quit R then s\<lparr>ended := insert r (ended s)\<rparr>
            else if main_reactor (server ?w) = Some r then s else s\<lparr>checked := insert r (checked s)\<rparr>"
  have "stop_op b me tm tr on_message on_connection (Check r) s = Inr ?t" using R by simp
  moreover have "pc_inv (stop_at s) (insert r (ended s)) ?w" by (rule pc_inv_frame [OF i(3)]) auto
  then have "live_inv il b me tm tr ?t"
    using inv r by (auto simp: live_inv_def loops_apart_def between_rounds_def split: if_splits)
  moreover have "quit_flag r ?w = Some True \<longleftrightarrow> r_quit R" using R by (simp add: quit_flag_def)
  ultimately show ?thesis by (intro exI [of _ ?t]) auto
qed

subsection \<open>The loops\<close>

text \<open>A loop that looked at \<^verbatim>\<open>quit_\<close>, or has ended, takes no step of a round.\<close>

lemma loop_op_idle:
  assumes op: "loop_op b tm tr on_message on_connection e s = Inr t" and en: "loop_enabled il e s" and act: "active_inv s"
    and r: "active s r = None" "e \<noteq> Poll r"
  shows "active t r = None"
proof (cases e)
  case (Thread e')
  then have "active t = round_over e' (active s)" using op by (auto elim!: outcome_elims)
  then show ?thesis using r(1) by (cases e') auto
qed (use op en r in \<open>auto elim!: outcome_elims\<close>)

lemma loop_op_accept:
  assumes op: "loop_op b tm tr on_message on_connection e s = Inr t"
    and w: "accept_at (threads s) = Waiting" and e: "\<And>fd peer. e \<noteq> Thread (Accept fd peer)"
  shows "accept_at (threads t) = Waiting"
proof (cases e)
  case (Thread e')
  with op w e show ?thesis by (cases e') (auto elim!: outcome_elims split: option.splits list.splits prod.splits)
qed (use op w in \<open>auto elim!: outcome_elims split: option.splits list.splits\<close>)

lemma loops_apart_step:
  assumes apart: "loops_apart s" and inv: "loops_inv il b tm tr (looping s)" and en: "stop_enabled il (Loop e) s"
    and op: "loop_op b tm tr on_message on_connection e (looping s) = Inr l" and frame: "loop_frame F (stop_world s) (world_of l)"
  shows "loops_apart (s\<lparr>looping := l, checked := after_loop e (checked s)\<rparr>)"
proof -
  let ?t = "s\<lparr>looping := l, checked := after_loop e (checked s)\<rparr>"
  have e: "loop_enabled il e (looping s)" "ready il e s" using en by simp_all
  have act: "active_inv (looping s)" using inv by (simp add: loops_inv_def)
  have "frozen (server (world_of l)) = frozen (server (stop_world s))" using frame by (simp add: loop_frame_def)
  note same = frozen_eqD(1,3) [OF this]
  have idle: "active l r = None" if "active (looping s) r = None" "e \<noteq> Poll r" for r by (rule loop_op_idle [OF op e(1) act that])
  have "r \<in> pool (threads l) \<and> active l r = None \<and> r \<notin> ended s" if "r \<in> after_loop e (checked s)" for r
  proof -
    have "r \<in> checked s" "e \<noteq> Poll r" using that by (cases e; simp)+
    then show ?thesis using apart idle same(1) by (simp add: loops_apart_def)
  qed
  moreover have "between_rounds r ?t" if r: "r \<in> ended s" for r
  proof (cases "main_reactor (server (stop_world s)) = Some r")
    case True
    then have "e \<noteq> Thread (Accept fd peer)" for fd peer using e(2) r by auto
    moreover have "accept_at (threads (looping s)) = Waiting" using apart r True by (simp add: loops_apart_def between_rounds_def)
    ultimately show ?thesis using loop_op_accept [OF op] same(2) True by (simp add: between_rounds_def)
  next
    case False
    have "e \<noteq> Poll r" using e(2) r apart by (auto simp: loops_apart_def)
    then show ?thesis using apart r False idle same by (simp add: loops_apart_def between_rounds_def)
  qed
  ultimately show ?thesis by (simp add: loops_apart_def)
qed

context polled_application
begin

lemma loop_event_inv:
  assumes doc: "stop_documented (os b) sent il" and inv: "live_inv il b me tm tr s" and en: "stop_enabled il (Loop e) s"
  shows "\<exists>t. stop_op b me tm tr on_message on_connection (Loop e) s = Inr t \<and> live_inv il b me tm tr t \<and>
     t = s\<lparr>looping := looping t, checked := after_loop e (checked s)\<rparr> \<and> loop_frame (new_fds e) (stop_world s) (stop_world t)"
proof -
  have i: "loops_inv il b tm tr (looping s)" "main_ok b me (stop_world s)" "pc_inv (stop_at s) (ended s) (stop_world s)" "loops_apart s"
    using inv by (simp_all add: live_inv_def)
  have "kernel_documented (os b) sent il" "loop_enabled il e (looping s)" using doc en by (simp_all add: stop_documented_def)
  from loop_op_inv [OF this(1) i(1) this(2)] obtain l where l: "loop_op b tm tr on_message on_connection e (looping s) = Inr l"
    "loops_inv il b tm tr l" "loop_frame (new_fds e) (stop_world s) (world_of l)" by blast
  have "listen_fd (server (stop_world s)) \<notin> new_fds e"
    using en by (cases e rule: new_fds.cases) auto
  note front = front_frame [OF l(3) this]
  have "frozen (server (world_of l)) = frozen (server (stop_world s))" using l(3) by (simp add: loop_frame_def)
  from pc_inv_frame [OF i(3) order_refl this front(4)] have "pc_inv (stop_at s) (ended s) (world_of l)" .
  then have "live_inv il b me tm tr (s\<lparr>looping := l, checked := after_loop e (checked s)\<rparr>)"
    using inv l(2) front(1-3) loops_apart_step [OF i(4,1) en l(1,3)] by (simp add: live_inv_def)
  then show ?thesis using l(1,3) by simp
qed

text \<open>
  Progress and preservation for the whole: the one step that does not return is closing the
  connections with a connected client in the table.
\<close>

lemma close_inv:
  assumes inv: "live_inv il b me tm tr s" and pc: "stop_at s = CloseAll"
  shows "if \<exists>p \<in> set (connections (server (stop_world s))). client_connected (stop_world s) (snd p)
     then stop_op b me tm tr on_message on_connection Stop s = Inl SelfDeadlock
     else \<exists>t. stop_op b me tm tr on_message on_connection Stop s = Inr t \<and> stop_inv il b me tm tr t"
proof -
  have i: "wf_connections (stop_world s)" "pc_inv CloseAll (ended s) (stop_world s)"
    using inv pc by (simp_all add: live_inv_def loops_inv_def server_inv_def table_inv_def)
  then show ?thesis using close_all_law [OF i(1), of on_connection] pc
    by (auto simp: stop_step_def stop_inv_def closed_down_def pc_inv_def on_server_def)
qed

lemma stop_op_inv:
  assumes doc: "stop_documented (os b) sent il" and inv: "stop_inv il b me tm tr s" and en: "stop_enabled il e s"
  shows "if e = Stop \<and> stop_at s = CloseAll \<and> (\<exists>p \<in> set (connections (server (stop_world s))). client_connected (stop_world s) (snd p))
     then stop_op b me tm tr on_message on_connection e s = Inl SelfDeadlock
     else \<exists>t. stop_op b me tm tr on_message on_connection e s = Inr t \<and> stop_inv il b me tm tr t"
proof -
  have "stop_at s \<noteq> Stopped" using en by (cases e) auto
  then have live: "live_inv il b me tm tr s" using inv by (simp add: stop_inv_def)
  note * = live_stop_inv [of il b me tm tr]
  show ?thesis
  proof (cases e)
    case (Loop l)
    then show ?thesis using loop_event_inv [OF doc live, of l] en * by auto
  next
    case (Check r)
    then show ?thesis using check_inv [OF live, of r] en * by fastforce
  next
    case Stop
    show ?thesis
    proof (cases "stop_at s = CloseAll")
      case True
      from close_inv [OF live True] show ?thesis unfolding Stop using True by (simp del: stop_op.simps)
    next
      case False
      from stop_step_inv [OF doc live _ False] show ?thesis using Stop False en * by auto
    qed
  qed
qed

end

context polled_application
begin

lemma stop_op_keeps:
  "stop_documented (os b) sent il \<Longrightarrow> stop_inv il b me tm tr s \<Longrightarrow> stop_enabled il e s \<Longrightarrow>
   stop_op b me tm tr on_message on_connection e s = Inr t \<Longrightarrow> stop_inv il b me tm tr t"
  using stop_op_inv [of me tm tr s e] by (auto split: if_splits)

end

sublocale polled_application \<subseteq> stops: inductive_invariant "stop_init il b me tm tr"
    "stop_steps il b me tm tr on_message on_connection" "\<lambda>s. stop_documented (os b) sent il \<longrightarrow> stop_inv il b me tm tr s" for me tm tr
  by unfold_locales (blast intro: stop_init_live live_stop_inv, blast elim: stop_stepsE intro: stop_op_keeps)

section \<open>The threads that are waited for\<close>

text \<open>
  The steps that end a running server: those of \<^verbatim>\<open>stop()\<close>, the loops looking at \<^verbatim>\<open>quit_\<close>, the rounds
  they are in, and the storing of a client already accepted.
\<close>

definition winding_down :: "'k stop_event set" where
  "winding_down = insert Stop (range Check) \<union> Loop ` insert (Thread Store) (\<Union>r. round_of r)"

definition stops_in :: "'k stop_event set \<Rightarrow> ('k \<Rightarrow> int \<Rightarrow> int \<rightharpoonup> epoll_event) \<Rightarrow> 'k build \<Rightarrow> thread_id \<Rightarrow> thread_id \<Rightarrow> (reactor_ptr \<Rightarrow> thread_id) \<Rightarrow>
    ('m \<Rightarrow> conn_ptr \<Rightarrow> string \<Rightarrow> ('k, 'm, 'u, 'z) world_op) \<Rightarrow> ('u \<Rightarrow> conn_ptr \<Rightarrow> ('k, 'm, 'u, 'z) world_op) \<Rightarrow>
    ('k, 'm, 'u, 'z) stopping \<Rightarrow> ('k, 'm, 'u, 'z) stopping \<Rightarrow> bool" where
  "stops_in E il b me tm tr on_message on_connection s t \<longleftrightarrow>
     (\<exists>e \<in> E. stop_enabled il e s \<and> stop_op b me tm tr on_message on_connection e s = Inr t)"

lemma rounds_stop:
  assumes "(steps_in (rest_of_round r) il b tm tr on_message on_connection)\<^sup>*\<^sup>* l l'" and "stop_at s \<noteq> Stopped"
  shows "(stops_in winding_down il b me tm tr on_message on_connection)\<^sup>*\<^sup>* (s\<lparr>looping := l\<rparr>) (s\<lparr>looping := l'\<rparr>)"
  using assms(1)
proof (induction rule: rtranclp_induct)
  case (step l1 l2)
  then obtain e where e: "e \<in> rest_of_round r" "loop_enabled il e l1" "loop_op b tm tr on_message on_connection e l1 = Inr l2"
    by (auto simp: steps_in_def)
  from e(1) have "Loop e \<in> winding_down" "ready il e (s\<lparr>looping := l1\<rparr>)" "after_loop e (checked s) = checked s"
    by (auto simp: winding_down_def round_of_def rest_of_round_def)
  then have "stops_in winding_down il b me tm tr on_message on_connection (s\<lparr>looping := l1\<rparr>) (s\<lparr>looping := l2\<rparr>)"
    using e(2,3) assms(2) unfolding stops_in_def by (intro bexI [of _ "Loop e"]) simp_all
  with step.IH show ?case by (rule rtranclp.rtrancl_into_rtrancl)
qed simp

text \<open>A loop that has been told to quit comes to its end.\<close>

context polled_application
begin

abbreviation winding :: "thread_id \<Rightarrow> thread_id \<Rightarrow> (reactor_ptr \<Rightarrow> thread_id) \<Rightarrow> ('k, 'm, 'u, 'z) stopping \<Rightarrow> ('k, 'm, 'u, 'z) stopping \<Rightarrow> bool" where
  "winding me tm tr \<equiv> stops_in winding_down il b me tm tr on_message on_connection"

lemma windI:
  assumes "e \<in> winding_down" and "stop_enabled il e s" and "stop_op b me tm tr on_message on_connection e s = Inr t"
  shows "(winding me tm tr)\<^sup>*\<^sup>* s t"
  using assms unfolding stops_in_def by blast

lemma winds_live:
  assumes doc: "stop_documented (os b) sent il" and inv: "live_inv il b me tm tr s" and st: "(winding me tm tr)\<^sup>*\<^sup>* s t" "stop_at t \<noteq> Stopped"
  shows "live_inv il b me tm tr t"
proof -
  from st(1) have "stop_inv il b me tm tr t"
    by (induction rule: rtranclp_induct) (use inv doc in \<open>auto simp: stops_in_def intro: live_stop_inv stop_op_keeps simp del: stop_op.simps\<close>)
  with st(2) show ?thesis by (simp add: stop_inv_def)
qed

lemma check_ends:
  assumes inv: "live_inv il b me tm tr s" and r: "r \<notin> checked s" "between_rounds r s" and q: "quit_flag r (stop_world s) = Some True"
  shows "\<exists>t. (winding me tm tr)\<^sup>*\<^sup>* s t \<and> live_inv il b me tm tr t \<and> stop_at t = stop_at s \<and> r \<in> ended t \<and> looping t = looping s"
proof (cases "r \<in> ended s")
  case False
  have "stop_at s \<noteq> Stopped" using inv by (simp add: live_inv_def)
  with False r have en: "stop_enabled il (Check r) s" by simp
  from check_inv [OF inv this, of on_message on_connection] q obtain t where
    "stop_op b me tm tr on_message on_connection (Check r) s = Inr t" "live_inv il b me tm tr t" "stop_at t = stop_at s" "r \<in> ended t" "looping t = looping s"
    by blast
  then show ?thesis using windI [OF _ en] by (auto simp: winding_down_def)
qed (use inv in blast)

lemma sub_loop_ends:
  assumes doc: "stop_documented (os b) sent il" and inv: "live_inv il b me tm tr s"
    and r: "r \<in> set (sub_reactors (server (stop_world s)))" "quit_flag r (stop_world s) = Some True"
  shows "\<exists>t. (winding me tm tr)\<^sup>*\<^sup>* s t \<and> live_inv il b me tm tr t \<and> stop_at t = stop_at s \<and> r \<in> ended t"
proof -
  have kdoc: "kernel_documented (os b) sent il" using doc by (simp add: stop_documented_def)
  obtain s1 where s1: "(winding me tm tr)\<^sup>*\<^sup>* s s1" "live_inv il b me tm tr s1" "stop_at s1 = stop_at s" "r \<notin> checked s1"
    "loop_frame {} (stop_world s) (stop_world s1)"
  proof (cases "r \<in> checked s")
    case True
    then have en: "stop_enabled il (Loop (Poll r)) s" using inv by (simp add: live_inv_def loops_apart_def)
    from loop_event_inv [OF doc inv this] obtain t where t: "stop_op b me tm tr on_message on_connection (Loop (Poll r)) s = Inr t"
      "live_inv il b me tm tr t" "t = s\<lparr>looping := looping t, checked := checked s - {r}\<rparr>" "loop_frame {} (stop_world s) (stop_world t)" by auto
    have "Loop (Poll r) \<in> winding_down" by (auto simp: winding_down_def round_of_def)
    moreover have "stop_at t = stop_at s" "r \<notin> checked t" by (subst t(3), simp)+
    ultimately show thesis using windI [OF _ en t(1)] t(2,4) that by blast
  qed (use that [of s] inv in auto)
  have i1: "loops_inv il b tm tr (looping s1)" "stop_at s1 \<noteq> Stopped" using s1(2) by (simp_all add: live_inv_def)
  from round_ends [OF kdoc i1(1), of r] obtain l where l: "loops_inv il b tm tr l" "loop_frame {} (stop_world s1) (world_of l)"
    "active l r = None" "(taking (rest_of_round r) tm tr)\<^sup>*\<^sup>* (looping s1) l" by blast
  let ?s2 = "s1\<lparr>looping := l\<rparr>"
  have w2: "(winding me tm tr)\<^sup>*\<^sup>* s1 ?s2" using rounds_stop [OF l(4) i1(2)] by simp
  have live2: "live_inv il b me tm tr ?s2" by (rule winds_live [OF doc s1(2) w2]) (use i1(2) in simp)
  have "loop_frame {} (stop_world s) (stop_world ?s2)" using loop_frame_trans [OF s1(5) l(2)] by simp
  then have "r \<in> set (sub_reactors (server (stop_world ?s2)))" "quit_flag r (stop_world ?s2) = Some True"
    using loop_frame_pool front_frame(4) r by fastforce+
  moreover from this(1) have "main_reactor (server (stop_world ?s2)) \<noteq> Some r"
    using live2 by (auto simp: live_inv_def main_ok_def)
  ultimately have "between_rounds r ?s2" using l(3) by (simp add: between_rounds_def)
  from check_ends [OF live2 _ this \<open>quit_flag r (stop_world ?s2) = Some True\<close>] s1(4) obtain t where
    "(winding me tm tr)\<^sup>*\<^sup>* ?s2 t" "live_inv il b me tm tr t" "stop_at t = stop_at s" "r \<in> ended t" using s1(3) by auto
  with s1(1) w2 show ?thesis by (meson rtranclp_trans)
qed

lemma main_loop_ends:
  assumes doc: "stop_documented (os b) sent il" and inv: "live_inv il b me tm tr s"
    and m: "main_reactor (server (stop_world s)) = Some m" "quit_flag m (stop_world s) = Some True"
  shows "\<exists>t. (winding me tm tr)\<^sup>*\<^sup>* s t \<and> live_inv il b me tm tr t \<and> stop_at t = stop_at s \<and> m \<in> ended t \<and>
     main_reactor (server (stop_world t)) = Some m"
proof -
  obtain s1 where s1: "(winding me tm tr)\<^sup>*\<^sup>* s s1" "live_inv il b me tm tr s1" "stop_at s1 = stop_at s" "accept_at (threads (looping s1)) = Waiting"
    "loop_frame {} (stop_world s) (stop_world s1)"
  proof (cases "accept_at (threads (looping s)) = Waiting")
    case False
    then have en: "stop_enabled il (Loop (Thread Store)) s" using inv by (simp add: live_inv_def)
    from loop_event_inv [OF doc inv this] obtain t where t: "stop_op b me tm tr on_message on_connection (Loop (Thread Store)) s = Inr t"
      "live_inv il b me tm tr t" "t = s\<lparr>looping := looping t, checked := checked s\<rparr>" "loop_frame {} (stop_world s) (stop_world t)" by auto
    moreover have "stop_at t = stop_at s" by (subst t(3), simp)
    moreover have "accept_at (threads (looping t)) = Waiting"
      using t(1) False by (auto elim!: outcome_elims split: accept_pc.splits)
    moreover have "Loop (Thread Store) \<in> winding_down" by (simp add: winding_down_def)
    ultimately show thesis using windI [OF _ en t(1)] that by blast
  qed (use that [of s] inv in auto)
  have same: "main_reactor (server (stop_world s1)) = Some m" "quit_flag m (stop_world s1) = Some True"
    using s1(5) frozen_eqD(3) [of "server (stop_world s1)" "server (stop_world s)"] front_frame(4) [OF s1(5)] m
    by (auto simp: loop_frame_def)
  have "m \<notin> checked s1" using s1(2) same(1) by (auto simp: live_inv_def loops_apart_def main_ok_def)
  moreover have "between_rounds m s1" using same(1) s1(4) by (simp add: between_rounds_def)
  ultimately obtain t where "(winding me tm tr)\<^sup>*\<^sup>* s1 t" "live_inv il b me tm tr t" "stop_at t = stop_at s" "m \<in> ended t"
    "main_reactor (server (stop_world t)) = Some m"
    using check_ends [OF s1(2) _ _ same(2)] s1(3) same(1) by auto
  with s1(1) show ?thesis by (meson rtranclp_trans)
qed

text \<open>Each step of \<^verbatim>\<open>stop()\<close> comes, and with it the next one.\<close>

lemma stop_waits:
  assumes doc: "stop_documented (os b) sent il" and inv: "live_inv il b me tm tr s" and pc: "stop_at s \<noteq> CloseAll"
  shows "\<exists>t. (winding me tm tr)\<^sup>*\<^sup>* s t \<and> live_inv il b me tm tr t \<and> stop_at t = stop_at s \<and> stop_enabled il Stop t"
proof -
  have i: "main_ok b me (stop_world s)" "pc_inv (stop_at s) (ended s) (stop_world s)" "stop_at s \<noteq> Stopped"
    using inv by (simp_all add: live_inv_def)
  obtain m where m: "main_reactor (server (stop_world s)) = Some m" using i(1) by (auto simp: main_ok_def)
  show ?thesis
  proof (cases "stop_enabled il Stop s")
    case True
    with inv show ?thesis by blast
  next
    case False
    then consider "stop_at s = JoinMain" | r rs where "stop_at s = JoinSubs (r # rs)"
      using i(3) by (auto split: stop_pc.splits list.splits)
    then show ?thesis
    proof cases
      case 1
      then have "quit_flag m (stop_world s) = Some True" using i(2) m by (simp add: pc_inv_def)
      from main_loop_ends [OF doc inv m this] obtain t where t: "(winding me tm tr)\<^sup>*\<^sup>* s t" "live_inv il b me tm tr t" "stop_at t = JoinMain"
        "m \<in> ended t" "main_reactor (server (stop_world t)) = Some m" using 1 by auto
      then have "main_thread (server (stop_world t)) = Some m" by (simp add: live_inv_def pc_inv_def)
      then show ?thesis using t 1 by (intro exI [of _ t]) simp
    next
      case 2
      then have "r \<in> set (sub_reactors (server (stop_world s)))" "quit_flag r (stop_world s) = Some True" using i(2) by (auto simp: pc_inv_def)
      from sub_loop_ends [OF doc inv this] 2 show ?thesis by auto
    qed
  qed
qed

lemma stop_moves:
  assumes doc: "stop_documented (os b) sent il" and inv: "live_inv il b me tm tr s" and pc: "stop_at s \<noteq> CloseAll"
  obtains t u w where "(winding me tm tr)\<^sup>*\<^sup>* s t" and "live_inv il b me tm tr t"
    and "stop_step b me on_connection (stop_at s) u = Inr (stop_at t, w)"
proof -
  from stop_waits [OF assms] obtain v where v: "(winding me tm tr)\<^sup>*\<^sup>* s v" "live_inv il b me tm tr v" "stop_at v = stop_at s" "stop_enabled il Stop v"
    by blast
  from stop_step_inv [OF doc v(2,4), of on_message on_connection] v(3) pc obtain t where
    t: "stop_op b me tm tr on_message on_connection Stop v = Inr t" "live_inv il b me tm tr t" by metis
  have "(winding me tm tr)\<^sup>*\<^sup>* s t" using v(1) windI [OF _ v(4) t(1)] by (auto simp: winding_down_def simp del: stop_op.simps intro: rtranclp_trans)
  moreover obtain w where "stop_step b me on_connection (stop_at s) (stop_world v) = Inr (stop_at t, w)"
    using t(1) v(3) by (auto elim!: outcome_elims)
  ultimately show thesis using t(2) that by blast
qed

abbreviation closes :: "thread_id \<Rightarrow> thread_id \<Rightarrow> (reactor_ptr \<Rightarrow> thread_id) \<Rightarrow> ('k, 'm, 'u, 'z) stopping \<Rightarrow> bool" where
  "closes me tm tr s \<equiv> (\<exists>t. (winding me tm tr)\<^sup>*\<^sup>* s t \<and> live_inv il b me tm tr t \<and> stop_at t = CloseAll)"

lemma closes_next:
  assumes "stop_documented (os b) sent il" and "live_inv il b me tm tr s" and "stop_at s \<noteq> CloseAll"
    and "\<And>t u w. live_inv il b me tm tr t \<Longrightarrow> stop_step b me on_connection (stop_at s) u = Inr (stop_at t, w) \<Longrightarrow> closes me tm tr t"
  shows "closes me tm tr s"
proof -
  from stop_moves [OF assms(1-3)] obtain t u w where
    t: "(winding me tm tr)\<^sup>*\<^sup>* s t" "live_inv il b me tm tr t" "stop_step b me on_connection (stop_at s) u = Inr (stop_at t, w)" .
  from assms(4) [OF t(2,3)] show ?thesis using rtranclp_trans [OF t(1)] by blast
qed

lemma stop_closes:
  assumes doc: "stop_documented (os b) sent il"
  shows "live_inv il b me tm tr s \<Longrightarrow> closes me tm tr s"
proof -
  have subs: "closes me tm tr s" if "live_inv il b me tm tr s" "stop_at s = JoinSubs rs" for s rs
    using that
  proof (induction rs arbitrary: s)
    case Nil
    show ?case by (rule closes_next [OF doc Nil(1)]) (use Nil(2) in \<open>auto simp: stop_step_def\<close>)
  next
    case (Cons r rs)
    show ?case by (rule closes_next [OF doc Cons.prems(1)]) (use Cons.prems(2) in \<open>auto simp: stop_step_def intro: Cons.IH [OF _ sym]\<close>)
  qed
  have quits: "closes me tm tr s" if "live_inv il b me tm tr s" "stop_at s = QuitSubs rs" for s rs
    using that
  proof (induction rs arbitrary: s)
    case Nil
    show ?case by (rule closes_next [OF doc Nil(1)]) (use Nil(2) in \<open>auto simp: stop_step_def intro: subs [OF _ sym]\<close>)
  next
    case (Cons r rs)
    show ?case by (rule closes_next [OF doc Cons.prems(1)]) (use Cons.prems(2) in \<open>auto simp: stop_step_def intro: Cons.IH [OF _ sym] elim!: outcome_elims\<close>)
  qed
  have jm: "closes me tm tr s" if "live_inv il b me tm tr s" "stop_at s = JoinMain" for s
    by (rule closes_next [OF doc that(1)]) (use that(2) in \<open>auto simp: stop_step_def intro: quits [OF _ sym]\<close>)
  have qm: "closes me tm tr s" if "live_inv il b me tm tr s" "stop_at s = QuitMain" for s
    by (rule closes_next [OF doc that(1)]) (use that(2) in \<open>auto simp: stop_step_def intro: jm [OF _ sym] elim!: outcome_elims\<close>)
  have sv: "closes me tm tr s" if "live_inv il b me tm tr s" "stop_at s = Serving" for s
    by (rule closes_next [OF doc that(1)]) (use that(2) in \<open>auto simp: stop_step_def intro: qm [OF _ sym] elim!: outcome_elims\<close>)
  assume live: "live_inv il b me tm tr s"
  show ?thesis
  proof (cases "stop_at s")
    case CloseAll
    with live show ?thesis by blast
  next
    case Stopped
    with live show ?thesis by (simp add: live_inv_def)
  qed (use sv [OF live] qm [OF live] jm [OF live] quits [OF live] subs [OF live] in simp_all)
qed

end

end
