(* ===== verification/PoolStart.thy ===== *)
theory PoolStart
  imports Registry
begin

text \<open>
  The pool of reactors a first start builds: every constructor gives its reactor an interest
  list of its own with its wakeup channel in it, so that the invariant of the registry holds
  when the loops begin.
\<close>

section \<open>The calls that create descriptors\<close>

text \<open>
  \<open>fds\<close> are the open descriptors: a new one is not among them, a new epoll descriptor has an
  empty interest list, and the calls of a constructor close nothing.
\<close>

definition create_documented :: "'k os \<Rightarrow> ('k \<Rightarrow> int \<Rightarrow> int \<rightharpoonup> epoll_event) \<Rightarrow> ('k \<Rightarrow> int set) \<Rightarrow> bool" where
  "create_documented sys il fds \<longleftrightarrow>
     (\<forall>k e k'. sys_epoll_create1 sys k = (e, k') \<and> 0 \<le> e \<longrightarrow>
        e \<notin> fds k \<and> fds k' = insert e (fds k) \<and> il k' = (il k)(e := Map.empty)) \<and>
     (\<forall>k e k'. sys_eventfd sys k = (e, k') \<or> sys_socket sys k = (e, k') \<longrightarrow>
        fds k \<subseteq> fds k' \<and> il k' = il k \<and> (0 \<le> e \<longrightarrow> e \<in> fds k' - fds k)) \<and>
     (\<forall>epfd op fd ev k. fds (snd (sys_epoll_ctl sys epfd op fd ev k)) = fds k)"

lemma new_poller_created:
  assumes "create_documented (os b) il fds" and "new_poller b w = Inr (p, w')"
  shows "fds (kernel w) \<subseteq> fds (kernel w')" and "poller_fd p = Some e \<Longrightarrow> e \<in> fds (kernel w') - fds (kernel w)"
    and "Some e \<noteq> poller_fd p \<Longrightarrow> il (kernel w') e = il (kernel w) e"
    and "il (kernel v) = il (kernel w') \<Longrightarrow> poller_synced il (p, v)"
proof -
  have "fds (kernel w) \<subseteq> fds (kernel w') \<and> (\<forall>e. poller_fd p = Some e \<longrightarrow> e \<in> fds (kernel w') - fds (kernel w)) \<and>
     (\<forall>e. Some e \<noteq> poller_fd p \<longrightarrow> il (kernel w') e = il (kernel w) e) \<and>
     (il (kernel v) = il (kernel w') \<longrightarrow> poller_synced il (p, v))"
  proof (cases "platform b")
    case Linux
    with assms(2) obtain e k where e: "sys_epoll_create1 (os b) (kernel w) = (e, k)" "0 \<le> e" "w' = w\<lparr>kernel := k\<rparr>"
      "p = Epoll \<lparr>ep_fd = e, ep_channels = Map.empty, ep_events_size = kInitEventListSize\<rparr>"
      by (auto simp: new_poller_def new_epoll_poller_def elim!: outcome_elims split: prod.splits if_splits)
    then have "e \<notin> fds (kernel w)" "fds k = insert e (fds (kernel w))" "il k = (il (kernel w))(e := Map.empty)"
      using assms(1) unfolding create_documented_def by blast+
    with e(3,4) show ?thesis by (auto simp: synced_def expected_interest_def fun_eq_iff)
  next
    case Win32
    with assms(2) show ?thesis by (auto simp: new_poller_def)
  qed
  then show "fds (kernel w) \<subseteq> fds (kernel w')" "poller_fd p = Some e \<Longrightarrow> e \<in> fds (kernel w') - fds (kernel w)"
    "Some e \<noteq> poller_fd p \<Longrightarrow> il (kernel w') e = il (kernel w) e"
    "il (kernel v) = il (kernel w') \<Longrightarrow> poller_synced il (p, v)" by blast+
qed

lemma createEventfd_created:
  assumes "create_documented (os b) il fds" and "createEventfd b w = Inr (efd, w')"
  shows "fds (kernel w) \<subseteq> fds (kernel w')" and "il (kernel w') = il (kernel w)" and "efd \<in> fds (kernel w') - fds (kernel w)"
proof -
  obtain k where "sys_eventfd (os b) (kernel w) = (efd, k) \<or> sys_socket (os b) (kernel w) = (efd, k)" "w' = w\<lparr>kernel := k\<rparr>" "0 \<le> efd"
    using assms(2) by (cases "platform b") (auto simp: createEventfd_def split: prod.splits if_splits)
  then show "fds (kernel w) \<subseteq> fds (kernel w')" "il (kernel w') = il (kernel w)" "efd \<in> fds (kernel w') - fds (kernel w)"
    using assms(1) unfolding create_documented_def by simp_all blast+
qed

text \<open>What an interest change leaves of the other reactors.\<close>

lemma change_interest_others:
  assumes doc: "epoll_ctl_documented (os b) il" "create_documented (os b) il fds"
    and ch: "heap w c = Some ch" "reactors w (ch_reactor ch) = Some R" "may_touch b me R"
    and run: "change_interest b me i c w = Inr w'"
  obtains p ix k where "w' = put_reactor (ch_reactor ch) (R\<lparr>r_poller := p\<rparr>)
      (store c (setIndex ix (set_interest (platform b) i ch)) (w\<lparr>kernel := k\<rparr>))"
    and "poller_fd p = poller_fd (r_poller R)" and "fds k = fds (kernel w)"
    and "\<And>e. Some e \<noteq> poller_fd (r_poller R) \<Longrightarrow> il k e = il (kernel w) e"
proof -
  let ?ch = "set_interest (platform b) i ch" and ?v = "store c (set_interest (platform b) i ch) w"
  obtain p w1 ix k where w1: "poller_updateChannel (os b) c (r_poller R, ?v) = Inr (p, w1)"
    "w' = put_reactor (ch_reactor ch) (R\<lparr>r_poller := p\<rparr>) w1" and t: "w1 = store c (setIndex ix ?ch) (w\<lparr>kernel := k\<rparr>)"
    using change_interest_runs [OF ch(1,2) run] by metis
  have v: "heap ?v c = Some ?ch" by simp
  have "fds (snd (sys_epoll_ctl (os b) epfd op fd ev k)) = fds k" for epfd op fd ev k
    using doc(2) unfolding create_documented_def by blast
  then have "fds (kernel w1) = fds (kernel ?v)" using w1(1) v
    by (cases "r_poller R") (auto simp: epoll_updateChannel_def select_updateChannel_def epoll_update_eq Let_def
        elim!: outcome_elims split: if_splits option.splits)
  then show thesis
    using that [of p ix k] t w1(2) poller_update_others [OF doc(1) v w1(1)] by simp
qed

section \<open>Pools under construction\<close>

text \<open>
  Every channel wakes its reactor, and every reactor has a descriptor of its own for its
  interest list, which is in step with its channels.
\<close>

definition own_list :: "('k \<Rightarrow> int \<Rightarrow> int \<rightharpoonup> epoll_event) \<Rightarrow> ('k \<Rightarrow> int set) \<Rightarrow> ('k, 'm, 'u, 'z) snet_scheme \<Rightarrow>
    reactor_ptr \<Rightarrow> bool" where
  "own_list il fds w r \<longleftrightarrow> (\<forall>R. reactors w r = Some R \<longrightarrow> wf_poller (chans r w) (r_poller R, w) \<and>
     poller_synced il (r_poller R, w) \<and> (\<forall>e. poller_fd (r_poller R) = Some e \<longrightarrow> e \<in> fds (kernel w)))"

definition fds_apart :: "('k, 'm, 'u, 'z) snet_scheme \<Rightarrow> bool" where
  "fds_apart w \<longleftrightarrow> (\<forall>r r' R R' e. reactors w r = Some R \<and> reactors w r' = Some R' \<and>
     poller_fd (r_poller R) = Some e \<and> poller_fd (r_poller R') = Some e \<longrightarrow> r = r')"

definition fresh_pool :: "('k \<Rightarrow> int \<Rightarrow> int \<rightharpoonup> epoll_event) \<Rightarrow> ('k \<Rightarrow> int set) \<Rightarrow> ('k, 'm, 'u, 'z) snet_scheme \<Rightarrow> bool" where
  "fresh_pool il fds w \<longleftrightarrow>
     (\<forall>c ch. heap w c = Some ch \<longrightarrow> c < next_chan w \<and> ch_reactor ch < next_rptr w \<and> is_wakeup w ch) \<and>
     (\<forall>r. reactors w r \<noteq> None \<longrightarrow> r < next_rptr w) \<and> (\<forall>r. own_list il fds w r) \<and> fds_apart w"

lemma fresh_pool_on_server [simp]: "fresh_pool il fds (on_server f w) = fresh_pool il fds w"
proof -
  have "heap (on_server f w) = heap w" "reactors (on_server f w) = reactors w" "next_chan (on_server f w) = next_chan w"
    "next_rptr (on_server f w) = next_rptr w" "kernel (on_server f w) = kernel w" by (simp_all add: on_server_def)
  moreover from this have "is_wakeup (on_server f w) = is_wakeup w" "chans r (on_server f w) = chans r w"
    "wf_poller C (p, on_server f w) = wf_poller C (p, w)" "poller_synced il (p, on_server f w) = poller_synced il (p, w)" for r C p
    using wf_poller_net_cong [of "on_server f w" w] poller_synced_cong [of p "on_server f w" w il]
    by (simp_all add: is_wakeup_def chans_def fun_eq_iff)
  ultimately show ?thesis by (simp add: fresh_pool_def own_list_def fds_apart_def)
qed

text \<open>A reactor that is not touched keeps its list.\<close>

lemma own_list_kept:
  assumes own: "own_list il fds w r" and same: "reactors w' r = reactors w r"
    and heap: "\<And>c. c \<in> chans r w \<Longrightarrow> heap w' c = heap w c" and chans: "chans r w' = chans r w"
    and fds: "fds (kernel w) \<subseteq> fds (kernel w')"
    and il: "\<And>R e. reactors w r = Some R \<Longrightarrow> poller_fd (r_poller R) = Some e \<Longrightarrow> il (kernel w') e = il (kernel w) e"
  shows "own_list il fds w' r"
  unfolding own_list_def
proof (intro allI impI conjI)
  fix R assume "reactors w' r = Some R"
  then have R: "reactors w r = Some R" using same by simp
  then have wf: "wf_poller (chans r w) (r_poller R, w)" and sync: "poller_synced il (r_poller R, w)"
    and fd: "\<And>e. poller_fd (r_poller R) = Some e \<Longrightarrow> e \<in> fds (kernel w)" using own by (auto simp: own_list_def)
  show "wf_poller (chans r w') (r_poller R, w')" using wf_poller_agree [OF wf heap] chans by simp
  have "heap w' c = heap w c" if "c \<in> registrations (r_poller R)" for c
    using that registrations_live [OF wf] heap by blast
  then show "poller_synced il (r_poller R, w')" using sync poller_synced_cong [of "r_poller R" w' w il] il [OF R] by blast
  show "e \<in> fds (kernel w')" if "poller_fd (r_poller R) = Some e" for e using fd [OF that] fds by blast
qed

text \<open>The constructor of a reactor, with what it does to descriptors and interest lists.\<close>

lemma new_reactor_created:
  fixes w :: "('k, 'cb, 't, 'z) rnet_scheme"
  assumes doc: "epoll_ctl_documented (os b) il" "create_documented (os b) il fds"
    and run: "new_reactor b me on_wakeup r w = Inr w'"
  obtains R ch k where "w' = put_reactor r R (store (next_chan w) ch (w\<lparr>kernel := k, next_chan := Suc (next_chan w)\<rparr>))"
    and "ch_reactor ch = r" and "ch_fd ch = r_wakeup_fd R" and "read_callback ch = Some (on_wakeup r)"
    and "write_callback ch = None" and "Channel.channel.close_callback ch = None" and "error_callback ch = None"
    and "wf_poller {next_chan w} (r_poller R, w')" and "poller_synced il (r_poller R, w')"
    and "fds (kernel w) \<subseteq> fds k" and "\<And>e. poller_fd (r_poller R) = Some e \<Longrightarrow> e \<in> fds k - fds (kernel w)"
    and "\<And>e. Some e \<noteq> poller_fd (r_poller R) \<Longrightarrow> il k e = il (kernel w) e" and "r_wakeup_fd R \<in> fds k - fds (kernel w)"
proof -
  let ?c = "next_chan w"
  obtain p w1 efd w2 where p: "new_poller b w = Inr (p, w1)" and e: "createEventfd b w1 = Inr (efd, w2)"
    using run by (auto simp: new_reactor_def elim!: outcome_elims)
  obtain k where w2: "w2 = w\<lparr>kernel := k\<rparr>" using new_poller_frame(1) [OF p] createEventfd_frame [OF e] by auto
  define ch where "ch = setReadCallback (on_wakeup r) (new_channel r efd)"
  define R :: "'t reactor" where "R = \<lparr>r_quit = False, r_calling_pending_tasks = False, r_poller = p,
              r_active_channels = [], r_pending_tasks = [], r_wakeup_fd = efd, r_wakeup_channel = ?c, r_thread_id = me\<rparr>"
  let ?w3 = "put_reactor r R ((store ?c ch w2)\<lparr>next_chan := Suc ?c\<rparr>)"
  have new: "change_interest b me EnableReading ?c ?w3 = Inr w'"
    using run p e w2 by (simp add: new_reactor_def alloc_channel_def ch_def R_def Let_def)
  have ch: "heap ?w3 ?c = Some ch" "ch_reactor ch = r" "ch_index ch = kNew"
    by (simp_all add: ch_def setReadCallback_def new_channel_def index_defs)
  have R: "reactors ?w3 r = Some R" "may_touch b me R" by (simp_all add: R_def may_touch_def isInLoopThread_def)
  have "wf_poller {?c} (p, ?w3)" using new_poller_frame(3) [OF p wf_table_single [OF ch(1)]] ch by simp
  then have wf: "wf_reactor b me r {?c} ?w3" using R ch by (auto simp: wf_reactor_def R_def)
  have il2: "il k = il (kernel w1)" "fds (kernel w1) \<subseteq> fds k" "efd \<in> fds k - fds (kernel w1)"
    using createEventfd_created [OF doc(2) e] w2 by simp_all
  have sync: "poller_synced il (r_poller R, ?w3)" using new_poller_created(4) [OF doc(2) p, of ?w3] il2(1) w2 by (simp add: R_def)
  obtain p' where p': "reactors w' = (reactors ?w3)(r \<mapsto> R\<lparr>r_poller := p'\<rparr>)" "poller_synced il (p', w')"
    by (rule change_interest_synced [OF doc(1) wf _ R(1) sync new]) auto
  obtain q ix k' where q: "w' = put_reactor r (R\<lparr>r_poller := q\<rparr>)
      (store ?c (setIndex ix (set_interest (platform b) EnableReading ch)) (?w3\<lparr>kernel := k'\<rparr>))"
    "poller_fd q = poller_fd p" "fds k' = fds k" "\<And>e. Some e \<noteq> poller_fd p \<Longrightarrow> il k' e = il k e"
    by (rule change_interest_others [OF doc ch(1) _ R(2) new]) (use R ch w2 in \<open>auto simp: R_def\<close>)
  let ?R = "R\<lparr>r_poller := q\<rparr>" and ?ch = "setIndex ix (set_interest (platform b) EnableReading ch)"
  have same: "p' = q" using p'(1) q(1) by (auto dest!: fun_cong [of _ _ r] arg_cong [of _ _ r_poller])
  obtain w'' where "change_interest b me EnableReading ?c ?w3 = Inr w''" "wf_reactor b me r {?c} w''"
    using change_interest_law [OF wf, of ?c EnableReading] by auto
  then have "wf_poller {?c} (q, w')" using new q(1) by (auto simp: wf_reactor_def)
  moreover have "w' = put_reactor r ?R (store ?c ?ch (w\<lparr>kernel := k', next_chan := Suc ?c\<rparr>))"
    using q(1) w2 by (simp add: put_reactor_def store_def)
  moreover have "fds (kernel w) \<subseteq> fds k'" "\<And>e. poller_fd q = Some e \<Longrightarrow> e \<in> fds k' - fds (kernel w)"
    "\<And>e. Some e \<noteq> poller_fd q \<Longrightarrow> il k' e = il (kernel w) e" "efd \<in> fds k' - fds (kernel w)"
    using new_poller_created(1-3) [OF doc(2) p] il2 q(2-4) by auto
  ultimately show thesis using that [of ?R ?ch k'] p'(2) same ch(2)
    by (simp add: ch_def R_def setReadCallback_def new_channel_def set_interest_def setIndex_def)
qed

lemma make_reactor_pool:
  assumes doc: "epoll_ctl_documented (os b) il" "create_documented (os b) il fds"
    and pool: "fresh_pool il fds w" and run: "make_reactor b me w = Inr (r, w')"
  shows "fresh_pool il fds w'"
proof -
  let ?c = "next_chan w" and ?w = "w\<lparr>next_rptr := Suc (next_rptr w)\<rparr>"
  have r: "r = next_rptr w" and new: "new_reactor b me OnWakeup r ?w = Inr w'"
    using run by (auto simp: make_reactor_def Let_def elim!: outcome_elims)
  obtain R ch k where w': "w' = put_reactor r R (store ?c ch (?w\<lparr>kernel := k, next_chan := Suc ?c\<rparr>))"
    and ch: "ch_reactor ch = r" "ch_fd ch = r_wakeup_fd R" "read_callback ch = Some (OnWakeup r)"
      "write_callback ch = None" "Channel.channel.close_callback ch = None" "error_callback ch = None"
    and R: "wf_poller {?c} (r_poller R, w')" "poller_synced il (r_poller R, w')"
    and fds: "fds (kernel w) \<subseteq> fds k" "\<And>e. poller_fd (r_poller R) = Some e \<Longrightarrow> e \<in> fds k - fds (kernel w)"
    and il: "\<And>e. Some e \<noteq> poller_fd (r_poller R) \<Longrightarrow> il k e = il (kernel w) e"
    using new_reactor_created [OF doc new] by auto blast
  have at: "heap w' = (heap w)(?c \<mapsto> ch)" "reactors w' = (reactors w)(r \<mapsto> R)" "kernel w' = k"
    "next_chan w' = Suc ?c" "next_rptr w' = Suc r" using w' r by (simp_all add: put_reactor_def store_def)
  have old: "c < ?c \<and> ch_reactor d < r \<and> is_wakeup w d" if "heap w c = Some d" for c d
    using that pool r by (simp add: fresh_pool_def)
  have bound: "q < r" if "reactors w q \<noteq> None" for q using that pool r by (simp add: fresh_pool_def)
  have none: "heap w ?c = None" using old [of ?c] by (cases "heap w ?c") auto
  have "is_wakeup w' ch" using ch at(2) by (simp add: is_wakeup_def)
  moreover have "is_wakeup w' d" if "is_wakeup w d" for d
    using that at(2) bound [of "ch_reactor d"] by (auto simp: is_wakeup_def)
  ultimately have "\<forall>c d. heap w' c = Some d \<longrightarrow> c < next_chan w' \<and> ch_reactor d < next_rptr w' \<and> is_wakeup w' d"
    using old ch(1) at by (auto simp: less_Suc_eq split: if_splits)
  moreover have "own_list il fds w' q" for q
  proof (cases "q = r")
    case True
    have "ch_reactor d \<noteq> r" if "heap w c = Some d" for c d using old [OF that] by simp
    then have "chans r w' = {?c}" using at(1) ch(1) by (auto simp: chans_def split: if_splits)
    then show ?thesis using True R fds(2) at(2,3) by (auto simp: own_list_def)
  next
    case False
    show ?thesis
    proof (rule own_list_kept)
      show "own_list il fds w q" using pool by (simp add: fresh_pool_def)
      show "il (kernel w') e = il (kernel w) e" if "reactors w q = Some Q" "poller_fd (r_poller Q) = Some e" for Q e
      proof -
        have "e \<in> fds (kernel w)" using that pool by (auto simp: fresh_pool_def own_list_def)
        then have "Some e \<noteq> poller_fd (r_poller R)" using fds(2) [of e] by auto
        then show ?thesis using il at(3) by simp
      qed
    qed (use False at none ch(1) fds(1) in \<open>auto simp: chans_def\<close>)
  qed
  moreover have "fds_apart w'"
  proof -
    have "e \<noteq> e'" if "reactors w q = Some Q" "poller_fd (r_poller Q) = Some e" "poller_fd (r_poller R) = Some e'" for q Q e e'
      using that pool fds(2) [of e'] by (auto simp: fresh_pool_def own_list_def)
    then show ?thesis using pool at(2) unfolding fresh_pool_def fds_apart_def by (metis fun_upd_apply option.inject)
  qed
  ultimately show ?thesis using bound at(2,5) by (auto simp: fresh_pool_def less_Suc_eq)
qed

text \<open>An open descriptor that no reactor uses stays apart from those of the reactors built later.\<close>

definition fd_apart :: "('k \<Rightarrow> int set) \<Rightarrow> int \<Rightarrow> ('k, 'm, 'u, 'z) snet_scheme \<Rightarrow> bool" where
  "fd_apart fds fd w \<longleftrightarrow> fd \<in> fds (kernel w) \<and>
     (\<forall>r R. reactors w r = Some R \<longrightarrow> r_wakeup_fd R \<noteq> fd \<and> poller_fd (r_poller R) \<noteq> Some fd)"

lemma fd_apart_on_server [simp]: "fd_apart fds fd (on_server f w) = fd_apart fds fd w"
  by (simp add: fd_apart_def on_server_def)

lemma make_reactor_apart:
  assumes doc: "epoll_ctl_documented (os b) il" "create_documented (os b) il fds"
    and apart: "fd_apart fds fd w" and run: "make_reactor b me w = Inr (r, w')"
  shows "fd_apart fds fd w'"
proof -
  let ?w = "w\<lparr>next_rptr := Suc (next_rptr w)\<rparr>"
  have new: "new_reactor b me OnWakeup r ?w = Inr w'" using run by (auto simp: make_reactor_def Let_def elim!: outcome_elims)
  obtain R ch k where w': "w' = put_reactor r R (store (next_chan ?w) ch (?w\<lparr>kernel := k, next_chan := Suc (next_chan ?w)\<rparr>))"
    and fds: "fds (kernel ?w) \<subseteq> fds k" "\<And>e. poller_fd (r_poller R) = Some e \<Longrightarrow> e \<in> fds k - fds (kernel ?w)"
      "r_wakeup_fd R \<in> fds k - fds (kernel ?w)"
    by (rule new_reactor_created [OF doc new]) blast
  have "kernel w' = k" "reactors w' = (reactors w)(r \<mapsto> R)" using w' by (simp_all add: put_reactor_def store_def)
  then show ?thesis using apart fds by (auto simp: fd_apart_def)
qed

lemma start_sub_reactors_pool:
  assumes doc: "epoll_ctl_documented (os b) il" "create_documented (os b) il fds"
  shows "fresh_pool il fds w \<Longrightarrow> ofold (\<lambda>_. start_sub_reactor b me) xs w = Inr w' \<Longrightarrow>
     fresh_pool il fds w' \<and> (fd_apart fds fd w \<longrightarrow> fd_apart fds fd w')"
proof (induction xs arbitrary: w)
  case (Cons x xs)
  then obtain u where u: "start_sub_reactor b me w = Inr u" "ofold (\<lambda>_. start_sub_reactor b me) xs u = Inr w'"
    by (auto elim!: outcome_elims)
  obtain r v f where "make_reactor b me w = Inr (r, v)" "u = on_server f v"
    using u(1) by (auto simp: start_sub_reactor_def elim!: outcome_elims)
  with make_reactor_pool [OF doc Cons.prems(1)] make_reactor_apart [OF doc] have "fresh_pool il fds u"
    "fd_apart fds fd w \<Longrightarrow> fd_apart fds fd u" by simp_all blast
  with Cons.IH u(2) show ?case by blast
qed simp

section \<open>The first start\<close>

text \<open>The accept channel belongs to the main reactor, and leaves the lists of the others alone.\<close>

lemma accept_channel_at:
  assumes doc: "epoll_ctl_documented (os b) il" "create_documented (os b) il fds"
    and R: "reactors w r = Some R" "may_touch b me R" and ch: "ch_reactor ch = r"
    and run: "change_interest b me EnableReading (next_chan w) (on_server f ((store (next_chan w) ch w)\<lparr>next_chan := Suc (next_chan w)\<rparr>)) = Inr w'"
  obtains p d k where "heap w' = (heap w)(next_chan w \<mapsto> d)" and "ch_reactor d = r"
    and "reactors w' = (reactors w)(r \<mapsto> R\<lparr>r_poller := p\<rparr>)" and "poller_fd p = poller_fd (r_poller R)"
    and "kernel w' = k" and "next_chan w' = Suc (next_chan w)" and "server w' = f (server w)"
    and "fds k = fds (kernel w)" and "\<And>e. Some e \<noteq> poller_fd (r_poller R) \<Longrightarrow> il k e = il (kernel w) e"
proof -
  let ?c = "next_chan w" and ?v = "on_server f ((store (next_chan w) ch w)\<lparr>next_chan := Suc (next_chan w)\<rparr>)"
  have v: "heap ?v ?c = Some ch" "reactors ?v (ch_reactor ch) = Some R" "kernel ?v = kernel w" using R(1) ch by (simp_all add: on_server_def)
  obtain p ix k where w': "w' = put_reactor r (R\<lparr>r_poller := p\<rparr>) (store ?c (setIndex ix (set_interest (platform b) EnableReading ch)) (?v\<lparr>kernel := k\<rparr>))"
    and k: "poller_fd p = poller_fd (r_poller R)" "fds k = fds (kernel w)" "\<And>e. Some e \<noteq> poller_fd (r_poller R) \<Longrightarrow> il k e = il (kernel w) e"
    by (rule change_interest_others [OF doc v(1,2) R(2) run]) (use v(3) ch in auto)
  show thesis
    by (rule that [of "setIndex ix (set_interest (platform b) EnableReading ch)" p k])
      (use w' k ch in \<open>simp_all add: on_server_def put_reactor_def store_def set_interest_def setIndex_def\<close>)
qed

lemma accept_channel_pool:
  assumes doc: "epoll_ctl_documented (os b) il" "create_documented (os b) il fds"
    and pool: "fresh_pool il fds w" and R: "reactors w r = Some R" "may_touch b me R" and ch: "ch_reactor ch = r"
    and run: "change_interest b me EnableReading (next_chan w) (on_server f ((store (next_chan w) ch w)\<lparr>next_chan := Suc (next_chan w)\<rparr>)) = Inr w'"
    and subs: "r \<notin> set (sub_reactors (server w'))" "\<And>q. q \<in> set (sub_reactors (server w')) \<Longrightarrow> reactors w' q \<noteq> None"
  shows "registry_inv il w'"
proof -
  let ?c = "next_chan w"
  obtain p d k where at: "heap w' = (heap w)(?c \<mapsto> d)" "ch_reactor d = r" "reactors w' = (reactors w)(r \<mapsto> R\<lparr>r_poller := p\<rparr>)"
    "kernel w' = k" "next_chan w' = Suc ?c"
    and k: "fds k = fds (kernel w)" "\<And>e. Some e \<noteq> poller_fd (r_poller R) \<Longrightarrow> il k e = il (kernel w) e"
    by (rule accept_channel_at [OF doc R ch run]) blast
  have old: "c < ?c \<and> is_wakeup w x" if "heap w c = Some x" for c x using that pool by (simp add: fresh_pool_def)
  have none: "heap w ?c = None" using old [of ?c] by (cases "heap w ?c") auto
  have apart: "fds_apart w" and own: "\<And>q. own_list il fds w q" using pool by (simp_all add: fresh_pool_def)
  have "registry_ok il w' q" if q: "q \<in> set (sub_reactors (server w'))" for q
  proof -
    have "q \<noteq> r" using q subs(1) by blast
    have "own_list il fds w' q"
    proof (rule own_list_kept [OF own])
      show "il (kernel w') e = il (kernel w) e" if "reactors w q = Some Q" "poller_fd (r_poller Q) = Some e" for Q e
        using that apart R(1) \<open>q \<noteq> r\<close> k(2) [of e] at(4) unfolding fds_apart_def by metis
    qed (use \<open>q \<noteq> r\<close> at none k(1) in \<open>auto simp: chans_def\<close>)
    with subs(2) [OF q] show ?thesis by (auto simp: own_list_def registry_ok_def)
  qed
  moreover have "lists_apart w'"
    using apart at(3) subs(1) unfolding fds_apart_def lists_apart_def by (metis fun_upd_other)
  moreover have "is_wakeup w' x" if "heap w' c = Some x" "ch_reactor x \<in> set (sub_reactors (server w'))" for c x
  proof -
    have "ch_reactor x \<noteq> r" using that(2) subs(1) by blast
    then have "heap w c = Some x" using that(1) at(1,2) by (auto split: if_splits)
    with old have "is_wakeup w x" by blast
    then show ?thesis using at(3) \<open>ch_reactor x \<noteq> r\<close> by (simp add: is_wakeup_def)
  qed
  moreover have "c < next_chan w'" if "heap w' c \<noteq> None" for c using that at(1,5) old by (auto split: if_splits) (metis less_SucI option.exhaust)
  ultimately show ?thesis by (auto simp: registry_inv_def)
qed

lemma registry_on_server:
  assumes "registry_inv il w" and "\<And>s. sub_reactors (f s) = sub_reactors s"
  shows "registry_inv il (on_server f w)"
  by (rule registry_frame [OF assms(1)]) (use assms(2) in \<open>simp_all add: on_server_def\<close>)

text \<open>The parts of a first start.\<close>

lemma start_parts:
  assumes doc: "epoll_ctl_documented (os b) il" "create_documented (os b) il fds" and ok: "resources_ok b"
    and new: "heap w = Map.empty" "reactors w = Map.empty" and idle: "restartable b me w" "sub_reactors (server w) = []"
    and listener: "open_listener b w = (None, w1)" and run: "start b me w = Inr (True, w')"
  obtains w3 w4 R where "fresh_pool il fds w3" and "\<And>fd. fd \<in> fds (kernel w1) \<Longrightarrow> fd_apart fds fd w3"
    and "reactors w3 (next_rptr w) = Some R" and "may_touch b me R"
    and "change_interest b me EnableReading (next_chan w3) (on_server (\<lambda>s. s\<lparr>accept_channel := Some (next_chan w3)\<rparr>)
      ((store (next_chan w3) (setReadCallback OnAccept (new_channel (next_rptr w) (listen_fd (server w3)))) w3)\<lparr>next_chan := Suc (next_chan w3)\<rparr>)) = Inr w4"
    and "w' = on_server (\<lambda>s. s\<lparr>running := True, main_thread := Some (next_rptr w)\<rparr>) w4" and "listen_fd (server w3) = listen_fd (server w1)"
proof -
  let ?r = "next_rptr w"
  have none: "main_reactor (server w) = None" using idle(1) new(2) by (auto simp: restartable_def)
  obtain fd k where w1: "w1 = on_server (\<lambda>s. s\<lparr>listen_fd := fd\<rparr>) (w\<lparr>kernel := k\<rparr>)"
    using open_listener_frame [of b w] listener by auto
  have main: "main_reactor (server w1) = None" using w1 none by (simp add: on_server_def)
  have pool1: "fresh_pool il fds w1"
    using new w1 by (simp add: fresh_pool_def own_list_def fds_apart_def)
  have apart1: "fd_apart fds f w1" if "f \<in> fds (kernel w1)" for f
    using that new w1 by (simp add: fd_apart_def)
  obtain r w2 w3 w4 where w2: "make_reactor b me w1 = Inr (r, w2)"
    and w3: "ofold (\<lambda>_. start_sub_reactor b me) [0..<nat (sint (thread_num (server w2)))] (on_server (\<lambda>s. s\<lparr>main_reactor := Some r\<rparr>) w2) = Inr w3"
    and w4: "change_interest b me EnableReading (next_chan w3) (on_server (\<lambda>s. s\<lparr>accept_channel := Some (next_chan w3)\<rparr>)
      ((store (next_chan w3) (setReadCallback OnAccept (new_channel r (listen_fd (server w3)))) w3)\<lparr>next_chan := Suc (next_chan w3)\<rparr>)) = Inr w4"
    and w': "w' = on_server (\<lambda>s. s\<lparr>running := True, main_thread := Some r\<rparr>) w4"
    using run idle(1) listener main make_reactor_law [OF ok, of me w1]
    by (auto simp: start_def restartable_def alloc_channel_def Let_def elim!: outcome_elims)
  have r: "r = ?r" "built (platform b) me w2 r" "server w2 = server w1" using make_reactor_law [OF ok, of me w1] w2 w1 by (auto simp: on_server_def)
  have "fresh_pool il fds w3 \<and> (fd_apart fds f (on_server (\<lambda>s. s\<lparr>main_reactor := Some r\<rparr>) w2) \<longrightarrow> fd_apart fds f w3)" for f
    by (rule start_sub_reactors_pool [OF doc _ w3]) (use make_reactor_pool [OF doc pool1 w2] in simp)
  then have pool3: "fresh_pool il fds w3" "\<And>f. f \<in> fds (kernel w1) \<Longrightarrow> fd_apart fds f w3"
    using make_reactor_apart [OF doc apart1 w2] by simp_all
  note subs = start_sub_reactors_law [OF ok, of me "[0..<nat (sint (thread_num (server w2)))]" "on_server (\<lambda>s. s\<lparr>main_reactor := Some r\<rparr>) w2"]
  have "older_kept w2 w3" using subs w3 by auto
  moreover have "listen_fd (server w3) = listen_fd (server w1)" using subs w3 r(3) by (auto simp: on_server_def)
  ultimately have "built (platform b) me w3 r" using built_older r(2) by blast
  then obtain R where R: "reactors w3 r = Some R" "may_touch b me R"
    by (auto simp: built_def fresh_reactor_def may_touch_def isInLoopThread_def)
  show thesis
    by (rule that [OF pool3 R [unfolded r(1)] w4 [unfolded r(1)] w' [unfolded r(1)]]) (simp, fact)
qed

text \<open>The first start of a program establishes the invariant of the registry.\<close>

theorem start_registry:
  assumes doc: "epoll_ctl_documented (os b) il" "create_documented (os b) il fds" and ok: "resources_ok b"
    and new: "heap w = Map.empty" "reactors w = Map.empty" and idle: "restartable b me w" "sub_reactors (server w) = []"
    and listener: "open_listener b w = (None, w1)" and run: "start b me w = Inr (True, w')"
  shows "registry_inv il w'"
proof -
  let ?r = "next_rptr w" and ?ids = "[Suc (next_rptr w)..<Suc (next_rptr w) + nat (sint (thread_num (server w)))]"
  have subs: "sub_reactors (server w') = ?ids" and live: "\<And>q. q \<in> insert ?r (set ?ids) \<Longrightarrow> reactors w' q \<noteq> None"
    using start_law [OF idle(1) listener ok refl refl] idle(2) run by (auto simp del: upt_Suc)
  obtain w3 w4 R where p: "fresh_pool il fds w3" "reactors w3 ?r = Some R" "may_touch b me R"
    and w4: "change_interest b me EnableReading (next_chan w3) (on_server (\<lambda>s. s\<lparr>accept_channel := Some (next_chan w3)\<rparr>)
      ((store (next_chan w3) (setReadCallback OnAccept (new_channel ?r (listen_fd (server w3)))) w3)\<lparr>next_chan := Suc (next_chan w3)\<rparr>)) = Inr w4"
    and w': "w' = on_server (\<lambda>s. s\<lparr>running := True, main_thread := Some ?r\<rparr>) w4"
    using start_parts [OF assms] by metis
  have same: "sub_reactors (server w4) = ?ids" "reactors w4 = reactors w'" using subs w' by (simp_all add: on_server_def)
  have "ch_reactor (setReadCallback OnAccept (new_channel ?r (listen_fd (server w3)))) = ?r"
    by (simp add: setReadCallback_def new_channel_def)
  from accept_channel_pool [OF doc p this w4] have "registry_inv il w4"
    unfolding same using live by (simp del: upt_Suc)
  then show ?thesis using w' by (simp add: registry_on_server)
qed

text \<open>And every reactor has descriptors of its own, apart from each other and from those open before.\<close>

lemma start_apart:
  assumes doc: "epoll_ctl_documented (os b) il" "create_documented (os b) il fds" and ok: "resources_ok b"
    and new: "heap w = Map.empty" "reactors w = Map.empty" and idle: "restartable b me w" "sub_reactors (server w) = []"
    and listener: "open_listener b w = (None, w1)" and run: "start b me w = Inr (True, w')"
  shows "fds_apart w'" and "fd \<in> fds (kernel w1) \<Longrightarrow> fd_apart fds fd w'" and "listen_fd (server w') = listen_fd (server w1)"
proof -
  let ?r = "next_rptr w"
  obtain w3 w4 R where p: "fresh_pool il fds w3" "\<And>fd. fd \<in> fds (kernel w1) \<Longrightarrow> fd_apart fds fd w3" and R: "reactors w3 ?r = Some R" "may_touch b me R"
    and w4: "change_interest b me EnableReading (next_chan w3) (on_server (\<lambda>s. s\<lparr>accept_channel := Some (next_chan w3)\<rparr>)
      ((store (next_chan w3) (setReadCallback OnAccept (new_channel ?r (listen_fd (server w3)))) w3)\<lparr>next_chan := Suc (next_chan w3)\<rparr>)) = Inr w4"
    and w': "w' = on_server (\<lambda>s. s\<lparr>running := True, main_thread := Some ?r\<rparr>) w4" and fd: "listen_fd (server w3) = listen_fd (server w1)"
    by (rule start_parts [OF assms]) blast
  have "ch_reactor (setReadCallback OnAccept (new_channel ?r (listen_fd (server w3)))) = ?r"
    by (simp add: setReadCallback_def new_channel_def)
  then obtain p k where at: "reactors w4 = (reactors w3)(?r \<mapsto> R\<lparr>r_poller := p\<rparr>)" "poller_fd p = poller_fd (r_poller R)"
    "kernel w4 = k" "server w4 = (server w3)\<lparr>accept_channel := Some (next_chan w3)\<rparr>" "fds k = fds (kernel w3)"
    by (rule accept_channel_at [OF doc R _ w4]) blast+
  then have same: "reactors w' = (reactors w3)(?r \<mapsto> R\<lparr>r_poller := p\<rparr>)" "kernel w' = k" "listen_fd (server w') = listen_fd (server w1)"
    using w' fd by (simp_all add: on_server_def)
  then show "listen_fd (server w') = listen_fd (server w1)" by simp
  show "fd_apart fds fd w'" if "fd \<in> fds (kernel w1)" using p(2) [OF that] same at(2,5) R(1) by (auto simp: fd_apart_def)
  have "fds_apart w3" using p(1) by (simp add: fresh_pool_def)
  then show "fds_apart w'" unfolding fds_apart_def same(1) using at(2) R(1) by (auto split: if_splits)
qed

end
