(* ===== verification/ClientOutput.thy ===== *)
theory ClientOutput
  imports ServerThreads
begin

text \<open>
  What the clients of a running server are sent, whatever its threads do: the output of a client
  grows only by a broadcast or by the application's reply to bytes read from its own socket.
\<close>

section \<open>Calls that send nothing\<close>

text \<open>Changing an interest list or a socket option sends nothing.\<close>

definition calls_silent :: "'k os \<Rightarrow> ('k \<Rightarrow> int \<Rightarrow> string) \<Rightarrow> bool" where
  "calls_silent sys sent \<longleftrightarrow> (\<forall>epfd op fd ev k. sent (snd (sys_epoll_ctl sys epfd op fd ev k)) = sent k) \<and>
     (\<forall>fd opt k. sent (snd (sys_setsockopt sys fd opt k)) = sent k)"

lemma poller_updateChannel_sent:
  assumes "calls_silent sys sent" and "heap w c = Some ch" and "poller_updateChannel sys c (p, w) = Inr (p', w')"
  shows "sent (kernel w') = sent (kernel w)"
  using assms by (cases p) (auto simp: calls_silent_def epoll_updateChannel_def select_updateChannel_def epoll_update_eq
      Let_def elim!: outcome_elims split: if_splits option.splits)

lemma change_interest_sent:
  assumes "calls_silent (os b) sent" and "change_interest b me i c w = Inr w'"
  shows "sent (kernel w') = sent (kernel w)"
proof -
  obtain ch where ch: "heap w c = Some ch" using assms(2)
    by (auto simp: change_interest_def deref_def elim!: outcome_elims split: option.splits)
  let ?v = "store c (set_interest (platform b) i ch) w"
  let ?q = "ch_reactor (set_interest (platform b) i ch)"
  obtain R p w1 where w1: "poller_updateChannel (os b) c (r_poller R, ?v) = Inr (p, w1)"
      "w' = put_reactor ?q (R\<lparr>r_poller := p\<rparr>) w1"
    using assms(2) ch by (auto simp: change_interest_def channel_update_def reactor_updateChannel_def deref_def
        cpp_assert_Inr_iff elim!: outcome_elims)
  have "heap ?v c = Some (set_interest (platform b) i ch)" by (simp add: store_def)
  from poller_updateChannel_sent [OF assms(1) this w1(1)] w1(2) show ?thesis
    by (simp add: put_reactor_def store_def)
qed

lemma updateLastActiveTime_sent:
  assumes "socket_documented (os b) sent" and "updateLastActiveTime b cn w = Inr w'"
  shows "sent (kernel w') = sent (kernel w)"
proof -
  obtain t k where t: "sys_time (os b) (kernel w) = (t, k)" by (rule prod.exhaust)
  then have "kernel w' = k"
    using assms(2) by (auto simp: updateLastActiveTime_def now_def on_conn_def elim!: outcome_elims)
  with socket_quiet(1) [OF assms(1) t] show ?thesis by simp
qed

lemma run_task_sent:
  assumes doc: "socket_documented (os b) sent" "calls_silent (os b) sent" and "app_law on_connection"
    and "run_task b me on_connection (Register cn r) w = Inr w'"
  shows "sent (kernel w') = sent (kernel w)"
proof -
  obtain fd c w1 w2 w3 w4 where w1: "alloc_channel (setErrorCallback (OnError cn) (setCloseCallback (OnClose cn)
      (setWriteCallback (OnWrite cn) (setReadCallback (OnRead cn) (new_channel r fd))))) w = (c, w1)"
    and w2: "change_interest b me EnableReading c w1 = Inr w2" and w3: "on_conn cn (setChannel c) w2 = Inr w3"
    and w4: "establishConnection b cn w3 = Inr w4" "notify on_connection cn w4 = Inr w'"
    using assms(4) by (auto simp: Let_def elim!: outcome_elims split: prod.splits)
  obtain v where v: "on_conn cn (setState kConnected) w3 = Inr v" "updateLastActiveTime b cn v = Inr w4"
    using w4(1) by (auto simp: establishConnection_def elim!: outcome_elims)
  have "kernel w1 = kernel w" using w1 by (auto simp: alloc_channel_def store_def)
  moreover have "kernel w3 = kernel w2" "kernel v = kernel w3" using on_conn_kernel w3 v(1) by blast+
  moreover have "sent (kernel w4) = sent (kernel v)" using updateLastActiveTime_sent [OF doc(1) v(2)] .
  moreover obtain y where "conns w4 cn = Some y"
    using v(2) by (auto simp: updateLastActiveTime_def on_conn_def elim!: outcome_elims split: prod.splits)
  then have "kernel w' = kernel w4" using w4(2) by (metis notify_law [OF assms(3)] sum.inject(2))
  ultimately show ?thesis using change_interest_sent [OF doc(2) w2] by simp
qed

lemma new_connection_sent:
  assumes doc: "socket_documented (os b) sent" "calls_silent (os b) sent"
  shows "sent (kernel (new_connection b cn fd peer w)) = sent (kernel w)"
proof -
  obtain t k where t: "sys_time (os b) (kernel w) = (t, k)" by (rule prod.exhaust)
  then show ?thesis using socket_quiet(1) [OF doc(1) t] doc(2)
    by (simp add: new_connection_def now_def set_option_def Let_def calls_silent_def)
qed

lemma queueInLoop_sent:
  assumes doc: "socket_documented (os b) sent" and R: "reactors w r = Some R"
    and "queueInLoop b me r t w = Inr w'" and "fd \<noteq> r_wakeup_fd R"
  shows "sent (kernel w') fd = sent (kernel w) fd"
proof -
  let ?R = "R\<lparr>r_pending_tasks := r_pending_tasks R @ [t]\<rparr>"
  obtain n k where k: "sys_write (os b) (r_wakeup_fd R) (wakeup_message (platform b)) (kernel w) = (n, k)"
    by (rule prod.exhaust)
  have "kernel w' = kernel w \<or> kernel w' = k"
    using assms(2,3) k by (auto simp: queueInLoop_def wakeup_Some split: if_splits)
  with socket_write(2) [OF doc k] assms(4) show ?thesis by auto
qed

lemma queue_connection_sent:
  assumes doc: "socket_documented (os b) sent" "calls_silent (os b) sent"
    and run: "queue_connection b me on_connection fd peer w = Inr (cn, w')"
    and pool: "\<And>r. r \<in> set (sub_reactors (server w)) \<Longrightarrow> \<exists>R. reactors w r = Some R \<and> \<not> isInLoopThread me R"
    and fd: "fd' \<notin> r_wakeup_fd ` ran (reactors w)"
  shows "sent (kernel w') fd' = sent (kernel w) fd'"
proof -
  obtain r s R w3 where w3: "kernel w3 = kernel (new_connection b (next_conn w) fd peer (w\<lparr>server := s, next_conn := Suc (next_conn w)\<rparr>))"
    "queueInLoop b me r (Register (next_conn w) r) w3 = Inr w'" "reactors w r = Some R" "reactors w3 = reactors w"
    by (rule queue_connection_calls [OF run pool])
  have "fd' \<noteq> r_wakeup_fd R" using fd w3(3) by (auto simp: ran_def)
  then have "sent (kernel w') fd' = sent (kernel w3) fd'"
    using queueInLoop_sent [OF doc(1)] w3(2-4) by metis
  with w3(1) new_connection_sent [OF doc, of "next_conn w" fd peer "w\<lparr>server := s, next_conn := Suc (next_conn w)\<rparr>"]
  show ?thesis by simp
qed

section \<open>What an event sends\<close>

text \<open>
  What the client \<open>cn\<close>, in the state \<open>x\<close> and with the kernel in the state \<open>k\<close>, may be sent by an
  event.
\<close>

fun says :: "('m \<Rightarrow> string \<Rightarrow> string) \<Rightarrow> 'k build \<Rightarrow> conn_ptr \<Rightarrow> ('m, close_cb) tcp_connection \<Rightarrow> 'k \<Rightarrow>
    'k server_event \<Rightarrow> string set" where
  "says reply b cn x k (Callback cb) = (if cb_conn cb = Some cn then cb_says reply b x k cb else {[]})"
| "says reply b cn x k (Broadcast message) = (if state x = kConnected then {[], message} else {[]})"
| "says reply b cn x k _ = {[]}"

lemma saysE:
  assumes "d \<in> says reply b cn x k e"
  obtains "d = []"
    | "e = Callback (OnRead cn)" "d \<in> replies reply x (input_of b x k)"
    | "e = Broadcast d" "state x = kConnected"
proof (cases e)
  case (Callback cb)
  with assms that show thesis by (cases cb) (auto split: if_splits)
qed (use assms that in \<open>auto split: if_splits\<close>)

text \<open>The kernel delivers by itself only what it has been given.\<close>

fun network_silent :: "('k \<Rightarrow> int \<Rightarrow> string) \<Rightarrow> 'k server_event \<Rightarrow> 'k \<Rightarrow> bool" where
  "network_silent sent (Network k') k \<longleftrightarrow> sent k' = sent k"
| "network_silent sent _ k \<longleftrightarrow> True"

context server_application
begin

lemma broadcast_output:
  assumes doc: "socket_documented (os b) sent" and inv: "server_inv b tm tr s" and en: "enabled (Broadcast message) s"
    and op: "server_op b tm tr on_message on_connection (Broadcast message) s = Inr t" and x: "conns (sworld s) cn = Some x"
  shows "\<exists>d \<in> says reply b cn x k (Broadcast message).
     stream_of sent cn (sworld t) = stream_of sent cn (sworld s) @ d"
proof -
  let ?w = "sworld s" and ?cs = "connections (server (sworld s))"
  have wf: "wf_connections ?w" using inv by (simp add: server_inv_def table_inv_def)
  from broadcast_law [OF doc _ wf, of message] en obtain w' where
    w': "broadcast b message ?w = Inr w'" "\<forall>p \<in> set ?cs. reached (os b) sent message ?w w' (snd p)"
      "\<forall>fd. fd \<notin> fst ` set ?cs \<longrightarrow> sent (kernel w') fd = sent (kernel ?w) fd"
      "\<forall>cn. cn \<notin> snd ` set ?cs \<longrightarrow> conns w' cn = conns ?w cn" by auto
  then have t: "sworld t = w'" using op by auto
  show ?thesis
  proof (cases "cn \<in> snd ` set ?cs")
    case True
    then have "reached (os b) sent message ?w w' cn" using w'(2) by auto
    then show ?thesis using x t by (auto simp: reached_def client_connected_def isConnected_def split: if_splits)
  next
    case False
    have "sockfd x \<notin> fst ` set ?cs"
    proof
      assume "sockfd x \<in> fst ` set ?cs"
      then obtain c where c: "(sockfd x, c) \<in> set ?cs" by auto
      then obtain y where "conns ?w c = Some y" "sockfd y = sockfd x" using wf by (auto simp: wf_connections_def)
      then have "c = cn" using inv x unfolding server_inv_def clients_inv_def by metis
      then show False using c False by force
    qed
    then have "stream_of sent cn w' = stream_of sent cn ?w"
      using w'(3,4) False x by (intro stream_of_agree) auto
    then show ?thesis using t by simp
  qed
qed

lemma callback_output:
  assumes doc: "socket_documented (os b) sent" "read_documented (os b)" and inv: "server_inv b tm tr s"
    and en: "enabled (Callback cb) s" and op: "server_op b tm tr on_message on_connection (Callback cb) s = Inr t"
    and x: "conns (sworld s) cn = Some x"
  shows "\<exists>d \<in> says reply b cn x (kernel (sworld s)) (Callback cb).
     stream_of sent cn (sworld t) = stream_of sent cn (sworld s) @ d"
proof -
  obtain c y w' y' d where w': "server_op b tm tr on_message on_connection (Callback cb) s = Inr (s\<lparr>sworld := w'\<rparr>)"
    "cb_conn cb = Some c" "conns (sworld s) c = Some y" "conn_effect c y y' (sworld s) w'"
    "speaks sent c y d (sworld s) w'" "d \<in> cb_says reply b y (kernel (sworld s)) cb"
    using callback_law [OF doc inv en] by metis
  have t: "sworld t = w'" using op w'(1) by auto
  show ?thesis
  proof (cases "c = cn")
    case True
    then show ?thesis using w' x t by (auto simp: speaks_def)
  next
    case False
    then have "sockfd x \<noteq> sockfd y" using inv x w'(3) unfolding server_inv_def clients_inv_def by metis
    then have "stream_of sent cn w' = stream_of sent cn (sworld s)"
      using False x w'(4,5) by (intro stream_of_agree) (auto simp: conn_effect_def speaks_def)
    then show ?thesis using t False w'(2) by auto
  qed
qed

text \<open>Accepting a client and running a task send nothing to the others.\<close>

lemma accept_quiet:
  assumes doc: "socket_documented (os b) sent" "calls_silent (os b) sent" and inv: "server_inv b tm tr s" and en: "enabled (Accept fd peer) s"
    and op: "server_op b tm tr on_message on_connection (Accept fd peer) s = Inr t" and x: "conns (sworld s) cn = Some x"
  shows "conns (sworld t) cn = Some x" and "sent (kernel (sworld t)) (sockfd x) = sent (kernel (sworld s)) (sockfd x)"
proof -
  have pool: "wf_pool (server (sworld s))" "0 \<le> sint (next_reactor (server (sworld s)))"
    "\<And>r. r \<in> pool s \<Longrightarrow> \<exists>R. reactors (sworld s) r = Some R \<and> \<not> isInLoopThread tm R"
    using inv en by (auto simp: server_inv_def pool_inv_def)
  obtain w' u where w': "queue_connection b tm on_connection fd peer (sworld s) = Inr (next_conn (sworld s), w')"
    "conns w' = (conns (sworld s))(next_conn (sworld s) \<mapsto> accepted_conn fd peer u (srv_message_callback (server (sworld s))))"
    using queue_connection_law [OF pool] by metis
  have t: "sworld t = w'" using op w'(1) by auto
  have "cn < next_conn (sworld s)" using inv x by (auto simp: server_inv_def clients_inv_def client_ok_def)
  then show "conns (sworld t) cn = Some x" using w'(2) x t by simp
  have "sockfd x \<notin> r_wakeup_fd ` ran (reactors (sworld s))"
    using inv x unfolding server_inv_def clients_inv_def ran_def by blast
  with queue_connection_sent [OF doc w'(1)] pool(3)
  show "sent (kernel (sworld t)) (sockfd x) = sent (kernel (sworld s)) (sockfd x)" unfolding t by blast
qed

lemma task_quiet:
  assumes doc: "socket_documented (os b) sent" "calls_silent (os b) sent" and inv: "server_inv b tm tr s" and en: "enabled (RunTask r) s"
    and op: "server_op b tm tr on_message on_connection (RunTask r) s = Inr t" and x: "conns (sworld s) cn = Some x"
  shows "\<exists>y. conns (sworld t) cn = Some y \<and> sockfd y = sockfd x \<and> output_buffer y = output_buffer x \<and>
     sent (kernel (sworld t)) = sent (kernel (sworld s))"
proof -
  obtain u ts where u: "taken s r = Some (u # ts)" using en by auto
  have r: "r \<in> pool s" using inv u by (auto simp: server_inv_def pool_inv_def)
  have "u \<in> set (tasks_of s r)" using u by (simp add: tasks_of_def)
  with r obtain c y where c: "u = Register c r" "conns (sworld s) c = Some y"
    using inv by (fastforce simp: server_inv_def tasks_inv_def connecting_def)
  obtain R where R: "reactors (sworld s) r = Some R" "may_touch b (tr r) R"
    using inv r by (auto simp: server_inv_def pool_inv_def)
  from run_task_law [OF connection_law R c(2)] obtain w' v where
    w': "run_task b (tr r) on_connection (Register c r) (sworld s) = Inr w'"
      "conns w' = (conns (sworld s))(c \<mapsto> y\<lparr>conn_channel := Some (next_chan (sworld s)), state := kConnected, last_active_time := v\<rparr>)"
    by metis
  have t: "sworld t = w'" using op w'(1) u c(1) by (auto simp del: run_task.simps)
  have "sent (kernel w') = sent (kernel (sworld s))"
    by (rule run_task_sent [OF doc connection_law w'(1)])
  then show ?thesis using w'(2) x c(2) t by (cases "cn = c") auto
qed

lemma output_law:
  assumes doc: "socket_documented (os b) sent" "read_documented (os b)" "calls_silent (os b) sent"
    and inv: "server_inv b tm tr s" and en: "enabled e s"
    and op: "server_op b tm tr on_message on_connection e s = Inr t"
    and net: "network_silent sent e (kernel (sworld s))" and x: "conns (sworld s) cn = Some x"
  shows "\<exists>d \<in> says reply b cn x (kernel (sworld s)) e.
     stream_of sent cn (sworld t) = stream_of sent cn (sworld s) @ d"
proof -
  have quiet: ?thesis if "conns (sworld t) cn = Some y" "sockfd y = sockfd x" "output_buffer y = output_buffer x"
    "sent (kernel (sworld t)) (sockfd x) = sent (kernel (sworld s)) (sockfd x)" "says reply b cn x (kernel (sworld s)) e = {[]}" for y
    using that x by (simp add: stream_of_def)
  show ?thesis
  proof (cases e)
    case (Accept fd peer)
    note same = accept_quiet [OF doc(1,3) inv en [unfolded Accept] op [unfolded Accept] x]
    show ?thesis using Accept by (intro quiet [of x]) (simp_all add: same)
  next
    case Store
    then show ?thesis using op en x inv
      by (intro quiet [of x]) (auto simp: store_connection_law server_inv_def table_inv_def wf_connections_def
          split: accept_pc.splits)
  next
    case (BeginTasks r)
    with op x show ?thesis
      by (intro quiet [of x]) (auto simp: begin_tasks_def on_reactor_def put_reactor_def elim!: outcome_elims)
  next
    case (RunTask r)
    with task_quiet [OF doc(1,3) inv _ _ x] en op obtain y where "conns (sworld t) cn = Some y" "sockfd y = sockfd x"
      "output_buffer y = output_buffer x" "sent (kernel (sworld t)) = sent (kernel (sworld s))" by blast
    with RunTask show ?thesis by (intro quiet [of y]) simp_all
  next
    case (EndTasks r)
    with op x show ?thesis
      by (intro quiet [of x]) (auto simp: end_tasks_def on_reactor_def put_reactor_def elim!: outcome_elims)
  next
    case (Callback cb)
    with callback_output [OF doc(1,2) inv _ _ x] en op show ?thesis by blast
  next
    case (Broadcast message)
    with broadcast_output [OF doc(1) inv _ _ x] en op show ?thesis by blast
  next
    case (Network k)
    with op x net show ?thesis by (intro quiet [of x]) auto
  qed
qed

end

end
