(* ===== verification/ServerProgress.thy ===== *)
theory ServerProgress
  imports ServerThreads
begin

text \<open>
  Progress of the threads of a running server: from every state in which a client waits for its
  registration, the thread of its sub-reactor can, by itself, go on serving its queue until the
  client is connected.
\<close>

section \<open>Runs\<close>

text \<open>A sequence of events, each of them enabled when it happens.\<close>

definition server_run :: "'k build \<Rightarrow> thread_id \<Rightarrow> (reactor_ptr \<Rightarrow> thread_id) \<Rightarrow>
    ('m \<Rightarrow> conn_ptr \<Rightarrow> string \<Rightarrow> ('k, 'm, 'u, 'z) world_op) \<Rightarrow> ('u \<Rightarrow> conn_ptr \<Rightarrow> ('k, 'm, 'u, 'z) world_op) \<Rightarrow>
    'k server_event list \<Rightarrow> ('k, 'm, 'u, 'z) sthreads \<Rightarrow> ('k, 'm, 'u, 'z) sthreads outcome" where
  "server_run b tm tr on_message on_connection =
     ofold (\<lambda>e s. if enabled e s then server_op b tm tr on_message on_connection e s else Inl Undefined)"

lemma server_run_simps [simp]:
  "server_run b tm tr on_message on_connection [] s = Inr s"
  "server_run b tm tr on_message on_connection (e # es) s =
     (if enabled e s then obind (server_op b tm tr on_message on_connection e s)
        (server_run b tm tr on_message on_connection es) else Inl Undefined)"
  by (simp_all add: server_run_def)

lemma server_run_append:
  "server_run b tm tr on_message on_connection es s = Inr t \<Longrightarrow>
   server_run b tm tr on_message on_connection (es @ fs) s = server_run b tm tr on_message on_connection fs t"
  by (induction es arbitrary: s) (auto elim!: outcome_elims split: if_splits)

lemma server_run_steps:
  "server_run b tm tr on_message on_connection es s = Inr t \<Longrightarrow>
   (server_step b tm tr on_message on_connection)\<^sup>*\<^sup>* s t"
proof (induction es arbitrary: s)
  case (Cons e es)
  then obtain u where "enabled e s" "server_op b tm tr on_message on_connection e s = Inr u"
    "server_run b tm tr on_message on_connection es u = Inr t" by (auto elim!: outcome_elims split: if_splits)
  with Cons.IH show ?case by (meson converse_rtranclp_into_rtranclp happens)
qed simp

lemma reach_run:
  assumes "reach init (server_step b tm tr on_message on_connection) s"
    and "server_run b tm tr on_message on_connection es s = Inr t"
  shows "reach init (server_step b tm tr on_message on_connection) t"
  using server_run_steps [OF assms(2)] assms(1) by (induction rule: rtranclp_induct) (auto intro: reach_step)

section \<open>Serving the queue\<close>

text \<open>What the thread of the sub-reactor \<open>r\<close> does to serve its queue.\<close>

definition service :: "reactor_ptr \<Rightarrow> 'k server_event set" where
  "service r = {BeginTasks r, RunTask r, EndTasks r}"

context server_application
begin

lemma begin_service:
  assumes inv: "server_inv b tm tr s" and r: "r \<in> pool s" and free: "taken s r = None"
  obtains t where "server_op b tm tr on_message on_connection (BeginTasks r) s = Inr t" and "server_inv b tm tr t"
    and "taken t r = Some (tasks_of s r)" and "tasks_of t r = tasks_of s r" and "pool t = pool s"
    and "conns (sworld t) = conns (sworld s)"
proof -
  obtain R where R: "reactors (sworld s) r = Some R" using inv r by (auto simp: server_inv_def pool_inv_def)
  let ?t = "s\<lparr>sworld := put_reactor r (R\<lparr>r_calling_pending_tasks := True, r_pending_tasks := []\<rparr>) (sworld s),
     taken := (taken s)(r := Some (r_pending_tasks R))\<rparr>"
  have run: "server_op b tm tr on_message on_connection (BeginTasks r) s = Inr ?t"
    using R by (simp add: begin_tasks_def)
  have "server_inv b tm tr ?t" using begin_inv [OF inv, of r on_message on_connection] run r free by auto
  with run show thesis
    by (rule that) (use R free in \<open>simp_all add: tasks_of_def put_reactor_def\<close>)
qed

lemma end_service:
  assumes inv: "server_inv b tm tr s" and r: "r \<in> pool s" and over: "taken s r = Some []"
  obtains t where "server_op b tm tr on_message on_connection (EndTasks r) s = Inr t" and "server_inv b tm tr t"
    and "taken t r = None" and "tasks_of t r = tasks_of s r" and "pool t = pool s"
    and "conns (sworld t) = conns (sworld s)"
proof -
  obtain R where R: "reactors (sworld s) r = Some R" using inv r by (auto simp: server_inv_def pool_inv_def)
  let ?t = "s\<lparr>sworld := put_reactor r (R\<lparr>r_calling_pending_tasks := False\<rparr>) (sworld s), taken := (taken s)(r := None)\<rparr>"
  have run: "server_op b tm tr on_message on_connection (EndTasks r) s = Inr ?t"
    using R by (simp add: end_tasks_def)
  have "server_inv b tm tr ?t" using end_inv [OF inv, of r on_message on_connection] run over by auto
  with run show thesis
    by (rule that) (use R over in \<open>simp_all add: tasks_of_def put_reactor_def\<close>)
qed

text \<open>The thread gets to its first task.\<close>

lemma service_ready:
  assumes inv: "server_inv b tm tr s" and r: "r \<in> pool s" and some: "tasks_of s r \<noteq> []"
  obtains es t where "set es \<subseteq> service r" and "server_run b tm tr on_message on_connection es s = Inr t"
    and "server_inv b tm tr t" and "enabled (RunTask r) t" and "tasks_of t r = tasks_of s r" and "pool t = pool s"
    and "conns (sworld t) = conns (sworld s)"
proof -
  note ready = that
  have start: thesis if st: "taken u r = None" "server_inv b tm tr u" "pool u = pool s" "tasks_of u r = tasks_of s r"
    "conns (sworld u) = conns (sworld s)" "set es \<subseteq> service r" "server_run b tm tr on_message on_connection es s = Inr u" for es u
  proof -
    obtain t where t: "server_op b tm tr on_message on_connection (BeginTasks r) u = Inr t" "server_inv b tm tr t"
      "taken t r = Some (tasks_of u r)" "tasks_of t r = tasks_of u r" "pool t = pool u" "conns (sworld t) = conns (sworld u)"
      using begin_service [OF st(2) _ st(1)] r st(3) by metis
    show thesis
    proof (rule ready [of "es @ [BeginTasks r]" t])
      show "server_run b tm tr on_message on_connection (es @ [BeginTasks r]) s = Inr t"
        using server_run_append [OF st(7)] st(1,3) t(1) r by simp
      show "enabled (RunTask r) t" using t(3) st(4) some by (cases "tasks_of s r") simp_all
    qed (use t st in \<open>simp_all add: service_def\<close>)
  qed
  consider "taken s r = None" | "taken s r = Some []" | "enabled (RunTask r) s"
    by (cases "taken s r") (auto, metis list.exhaust)
  then show thesis
  proof cases
    case 1
    then show thesis by (rule start [of s "[]"]) (use inv in simp_all)
  next
    case 2
    obtain u where u: "server_op b tm tr on_message on_connection (EndTasks r) s = Inr u" "server_inv b tm tr u"
      "taken u r = None" "tasks_of u r = tasks_of s r" "pool u = pool s" "conns (sworld u) = conns (sworld s)"
      using end_service [OF inv r 2] .
    from u(3,2,5,4,6) show thesis
      by (rule start [of u "[EndTasks r]"]) (use 2 u(1) in \<open>simp_all add: service_def\<close>)
  next
    case 3
    then show thesis using ready [of "[]" s] inv by simp
  qed
qed

lemma run_service:
  assumes inv: "server_inv b tm tr s" and r: "r \<in> pool s" and en: "enabled (RunTask r) s"
  obtains t c y where "server_op b tm tr on_message on_connection (RunTask r) s = Inr t" and "server_inv b tm tr t"
    and "tasks_of s r = Register c r # tasks_of t r" and "pool t = pool s"
    and "conns (sworld t) = (conns (sworld s))(c \<mapsto> y)" and "state y = kConnected"
proof -
  obtain u ts where u: "taken s r = Some (u # ts)" using en by auto
  then have "u \<in> set (tasks_of s r)" by (simp add: tasks_of_def)
  then obtain c x where c: "u = Register c r" "conns (sworld s) c = Some x"
    using inv r by (fastforce simp: server_inv_def tasks_inv_def connecting_def)
  obtain R where R: "reactors (sworld s) r = Some R" "may_touch b (tr r) R"
    using inv r by (auto simp: server_inv_def pool_inv_def)
  obtain w' v p where w': "run_task b (tr r) on_connection (Register c r) (sworld s) = Inr w'"
    "conns w' = (conns (sworld s))(c \<mapsto> x\<lparr>conn_channel := Some (next_chan (sworld s)), state := kConnected, last_active_time := v\<rparr>)"
    "reactors w' = (reactors (sworld s))(r \<mapsto> R\<lparr>r_poller := p\<rparr>)" "server w' = server (sworld s)"
    using run_task_law [OF connection_law R c(2)] by metis
  let ?t = "s\<lparr>sworld := w', taken := (taken s)(r := Some ts)\<rparr>"
  have run: "server_op b tm tr on_message on_connection (RunTask r) s = Inr ?t"
    using u c(1) w'(1) by (simp del: run_task.simps)
  have "server_inv b tm tr ?t" using run_inv [OF connection_law inv en, of on_message] run by auto
  then show thesis
    by (rule that [OF run, of c "x\<lparr>conn_channel := Some (next_chan (sworld s)), state := kConnected, last_active_time := v\<rparr>"])
      (use u c(1) R(1) w'(2-4) in \<open>simp_all add: tasks_of_def\<close>)
qed

text \<open>Serving the queue up to and including a given task connects its client.\<close>

lemma service_connects:
  assumes "server_inv b tm tr s" and "r \<in> pool s" and "tasks_of s r = us @ Register cn r # vs"
  shows "\<exists>es t y. set es \<subseteq> service r \<and> server_run b tm tr on_message on_connection es s = Inr t \<and>
     conns (sworld t) cn = Some y \<and> state y = kConnected"
  using assms
proof (induction us arbitrary: s)
  case Nil
  obtain es u where u: "set es \<subseteq> service r" "server_run b tm tr on_message on_connection es s = Inr u"
    "server_inv b tm tr u" "enabled (RunTask r) u" "tasks_of u r = tasks_of s r" "pool u = pool s"
    using service_ready [OF Nil(1,2)] Nil(3) by (metis append_Nil list.distinct(1))
  obtain t c y where t: "server_op b tm tr on_message on_connection (RunTask r) u = Inr t"
    "tasks_of u r = Register c r # tasks_of t r" "conns (sworld t) = (conns (sworld u))(c \<mapsto> y)" "state y = kConnected"
    using run_service [OF u(3) _ u(4)] Nil(2) u(6) by metis
  have "c = cn" using t(2) u(5) Nil(3) by simp
  moreover have "server_run b tm tr on_message on_connection (es @ [RunTask r]) s = Inr t"
    using server_run_append [OF u(2)] u(4) t(1) by simp
  ultimately show ?case using t(3,4) u(1)
    by (intro exI [of _ "es @ [RunTask r]"] exI [of _ t] exI [of _ y]) (simp add: service_def)
next
  case (Cons v us)
  obtain es u where u: "set es \<subseteq> service r" "server_run b tm tr on_message on_connection es s = Inr u"
    "server_inv b tm tr u" "enabled (RunTask r) u" "tasks_of u r = tasks_of s r" "pool u = pool s"
    using service_ready [OF Cons.prems(1,2)] Cons.prems(3) by (metis append_Cons list.distinct(1))
  obtain t c y where t: "server_op b tm tr on_message on_connection (RunTask r) u = Inr t" "server_inv b tm tr t"
    "tasks_of u r = Register c r # tasks_of t r" "pool t = pool u"
    using run_service [OF u(3) _ u(4)] Cons.prems(2) u(6) by metis
  from Cons.IH [OF t(2)] t(3,4) u(5,6) Cons.prems(2,3) obtain fs t' y where
    fs: "set fs \<subseteq> service r" "server_run b tm tr on_message on_connection fs t = Inr t'"
      "conns (sworld t') cn = Some y" "state y = kConnected" by auto
  have "server_run b tm tr on_message on_connection (es @ RunTask r # fs) s = Inr t'"
    using server_run_append [OF u(2)] u(4) t(1) fs(2) by simp
  with fs(1,3,4) u(1) show ?case
    by (intro exI [of _ "es @ RunTask r # fs"] exI [of _ t'] exI [of _ y]) (simp add: service_def)
qed

lemma registration_completes:
  assumes "server_inv b tm tr s" and "conns (sworld s) cn = Some x" and "state x = kConnecting"
  shows "\<exists>r es t y. r \<in> pool s \<and> set es \<subseteq> service r \<and> server_run b tm tr on_message on_connection es s = Inr t \<and>
     conns (sworld t) cn = Some y \<and> state y = kConnected"
proof -
  have "cn \<in> connecting (sworld s)" using assms(2,3) by (simp add: connecting_def)
  then obtain r where r: "r \<in> pool s" "Register cn r \<in> set (tasks_of s r)"
    using assms(1) unfolding server_inv_def tasks_inv_def by blast
  then obtain us vs where "tasks_of s r = us @ Register cn r # vs" by (auto dest: split_list)
  from service_connects [OF assms(1) r(1) this] r(1) show ?thesis by blast
qed

end

end
