(* ===== verification/Config.thy ===== *)
theory Config
  imports CppStd
begin

text \<open>
  The configuration manager, \<^verbatim>\<open>include/common/config.h\<close> and
  \<^verbatim>\<open>src/common/config.cpp\<close>: the INI parser, loading and reloading, and the
  typed getters and setters. The file system is the argument \<open>read_file\<close> (\<^const>\<open>None\<close>
  when the file cannot be opened); the conversions between \<^verbatim>\<open>double\<close> and text are
  arguments of the two operations that use them. Every public operation takes
  \<^verbatim>\<open>config_mutex_\<close> for its whole access to the table, so an operation is one step.
\<close>

section \<open>State and parser\<close>

record config =
  configs :: "string \<rightharpoonup> string"
  config_file :: string

definition empty_config :: config where
  "empty_config = \<lparr>configs = Map.empty, config_file = []\<rparr>"

definition line_blanks :: string where
  "line_blanks = [CHR '' '', CHR 0x09, CHR 0x0D, CHR 0x0A]"

definition item_blanks :: string where
  "item_blanks = [CHR '' '', CHR 0x09]"

definition full_key :: "string \<Rightarrow> string \<Rightarrow> string" where
  "full_key sect key = (if sect = [] then key else sect @ ''.'' @ key)"

type_synonym ini_state = "string \<times> (string \<rightharpoonup> string)"

definition parseINI_line :: "string \<Rightarrow> ini_state \<Rightarrow> ini_state outcome" where
  "parseINI_line line0 st = (case st of (sect, cfgs) \<Rightarrow>
     obind (erase_blanks line_blanks line0) (\<lambda>line.
     if line = [] \<or> hd line = CHR ''#'' \<or> hd line = CHR '';'' then Inr (sect, cfgs)
     else if hd line = CHR ''['' \<and> last line = CHR '']'' then
       obind (str_substr line 1 (Some (length line - 2))) (\<lambda>sect'. Inr (sect', cfgs))
     else (case find_char line (CHR ''='') of
         None \<Rightarrow> Inr (sect, cfgs)
       | Some pos \<Rightarrow>
           obind (str_substr line 0 (Some pos)) (\<lambda>key0.
           obind (str_substr line (pos + 1) None) (\<lambda>value0.
           obind (erase_blanks item_blanks key0) (\<lambda>key.
           obind (erase_blanks item_blanks value0) (\<lambda>value.
             Inr (sect, cfgs(full_key sect key \<mapsto> value)))))))))"

definition parseINI :: "string \<Rightarrow> config \<Rightarrow> (bool \<times> config) outcome" where
  "parseINI content c =
     obind (ofold parseINI_line (lines_of content) ([], Map.empty))
       (\<lambda>(sect, cfgs). Inr (True, c\<lparr>configs := cfgs\<rparr>))"

definition load :: "(string \<Rightarrow> string option) \<Rightarrow> string \<Rightarrow> config \<Rightarrow> (bool \<times> config) outcome" where
  "load read_file file c =
     (let c = c\<lparr>config_file := file\<rparr>
      in case read_file file of None \<Rightarrow> Inr (False, c) | Some content \<Rightarrow> parseINI content c)"

definition reload :: "(string \<Rightarrow> string option) \<Rightarrow> config \<Rightarrow> (bool \<times> config) outcome" where
  "reload read_file c =
     (if config_file c = [] then Inr (False, c) else load read_file (config_file c) c)"

section \<open>Access\<close>

definition getValue :: "config \<Rightarrow> string \<Rightarrow> string" where
  "getValue c key = (case configs c key of None \<Rightarrow> [] | Some v \<Rightarrow> v)"

definition setValue :: "config \<Rightarrow> string \<Rightarrow> string \<Rightarrow> config" where
  "setValue c key value = c\<lparr>configs := (configs c)(key \<mapsto> value)\<rparr>"

definition hasKey :: "config \<Rightarrow> string \<Rightarrow> bool" where
  "hasKey c key \<longleftrightarrow> configs c key \<noteq> None"

definition getAllConfigs :: "config \<Rightarrow> string \<rightharpoonup> string" where
  "getAllConfigs c = configs c"

definition getString :: "config \<Rightarrow> string \<Rightarrow> string \<Rightarrow> string" where
  "getString c key default_value =
     (let value = getValue c key in if value = [] then default_value else value)"

definition getInt :: "config \<Rightarrow> string \<Rightarrow> cint \<Rightarrow> cint" where
  "getInt c key default_value =
     (let value = getValue c key
      in if value = [] then default_value
         else case stoi value of Inl _ \<Rightarrow> default_value | Inr n \<Rightarrow> n)"

definition getDouble ::
    "(string \<Rightarrow> 'd outcome) \<Rightarrow> config \<Rightarrow> string \<Rightarrow> 'd \<Rightarrow> 'd" where
  "getDouble stod c key default_value =
     (let value = getValue c key
      in if value = [] then default_value
         else case stod value of Inl _ \<Rightarrow> default_value | Inr x \<Rightarrow> x)"

definition getBool :: "config \<Rightarrow> string \<Rightarrow> bool \<Rightarrow> bool" where
  "getBool c key default_value =
     (let value0 = getValue c key
      in if value0 = [] then default_value
         else let value = map tolower value0
           in if value = ''true'' \<or> value = ''1'' \<or> value = ''yes'' \<or> value = ''on'' then True
              else if value = ''false'' \<or> value = ''0'' \<or> value = ''no'' \<or> value = ''off'' then False
              else default_value)"

definition setString :: "config \<Rightarrow> string \<Rightarrow> string \<Rightarrow> config" where
  "setString c key value = setValue c key value"

definition setInt :: "config \<Rightarrow> string \<Rightarrow> cint \<Rightarrow> config" where
  "setInt c key value = setValue c key (to_string_int value)"

definition setDouble :: "('d \<Rightarrow> string) \<Rightarrow> config \<Rightarrow> string \<Rightarrow> 'd \<Rightarrow> config" where
  "setDouble to_string_double c key value = setValue c key (to_string_double value)"

definition setBool :: "config \<Rightarrow> string \<Rightarrow> bool \<Rightarrow> config" where
  "setBool c key value = setValue c key (if value then ''true'' else ''false'')"

section \<open>The table as a key-value store\<close>

text \<open>
  What the typed accessors rely on: a store of texts under keys, where an absent key reads
  as the empty text.
\<close>

locale kv_store =
  fixes put :: "'c \<Rightarrow> string \<Rightarrow> string \<Rightarrow> 'c"
    and get :: "'c \<Rightarrow> string \<Rightarrow> string"
    and has :: "'c \<Rightarrow> string \<Rightarrow> bool"
  assumes get_put: "get (put c k v) k' = (if k' = k then v else get c k')"
    and has_put: "has (put c k v) k' \<longleftrightarrow> k' = k \<or> has c k'"
    and get_absent: "\<not> has c k \<Longrightarrow> get c k = []"
begin

text \<open>
  A typed getter: the default when the stored text is empty or does not decode. It returns
  what the setter stored whenever the encoding is non-empty and decodes to its source.
\<close>

lemma typed_get_put:
  assumes "enc v \<noteq> []" and "dec (enc v) = Some v"
  shows "(let s = get (put c k (enc v)) k in if s = [] then d
          else case dec s of None \<Rightarrow> d | Some x \<Rightarrow> x) = v"
  using assms by (simp add: get_put)

lemma get_puts:
  "get (fold (\<lambda>(k, v) c. put c k v) kvs c) k =
     (case map_of (rev kvs) k of None \<Rightarrow> get c k | Some v \<Rightarrow> v)"
proof (induction kvs arbitrary: c)
  case (Cons kv kvs)
  then show ?case
    by (cases kv) (auto simp: get_put map_add_def split: option.splits)
qed simp

lemma has_puts: "has (fold (\<lambda>(k, v) c. put c k v) kvs c) k \<longleftrightarrow> k \<in> fst ` set kvs \<or> has c k"
  by (induction kvs arbitrary: c) (auto simp: has_put)

end

interpretation cfg: kv_store setValue getValue hasKey
  by unfold_locales (auto simp: setValue_def getValue_def hasKey_def)

section \<open>What a configuration text means\<close>

text \<open>
  The meaning of an INI text, without stream, positions and exceptions: the bindings its
  lines make, in order. A line is blank, a comment, a section header, a binding of the
  current section, or ignored.
\<close>

fun ini_items :: "string \<Rightarrow> string list \<Rightarrow> (string \<times> string) list" where
  "ini_items sect [] = []"
| "ini_items sect (l # ls) =
     (let t = trim line_blanks l
      in if t = [] \<or> hd t \<in> {CHR ''#'', CHR '';''} then ini_items sect ls
         else if hd t = CHR ''['' \<and> last t = CHR '']'' then ini_items (butlast (tl t)) ls
         else if CHR ''='' \<in> set t then
           (full_key sect (trim item_blanks (takeWhile (\<lambda>c. c \<noteq> CHR ''='') t)),
            trim item_blanks (tl (dropWhile (\<lambda>c. c \<noteq> CHR ''='') t))) # ini_items sect ls
         else ini_items sect ls)"

declare ini_items.simps(2) [simp del]

definition ini_meaning :: "string \<Rightarrow> string \<rightharpoonup> string" where
  "ini_meaning content = map_of (rev (ini_items [] (lines_of content)))"

lemma find_char_eq:
  "find_char s c = (if c \<in> set s then Some (length (takeWhile (\<lambda>d. d \<noteq> c) s)) else None)"
proof -
  have "length (takeWhile (\<lambda>d. d \<noteq> c) s) < length s \<longleftrightarrow> c \<in> set s"
    by (induction s) auto
  then show ?thesis by (simp add: find_char_def Let_def)
qed

lemma section_name:
  assumes "hd t = CHR ''[''" and "last t = CHR '']''" and "t \<noteq> []"
  shows "str_substr t (Suc 0) (Some (length t - 2)) = Inr (butlast (tl t))"
proof -
  from assms obtain c r where t: "t = c # r" by (cases t) auto
  with assms have "r \<noteq> []" by auto
  with t show ?thesis by (simp add: str_substr_def butlast_conv_take)
qed

lemma key_value_split:
  assumes "CHR ''='' \<in> set t"
  shows "str_substr t 0 (Some (length (takeWhile (\<lambda>c. c \<noteq> CHR ''='') t))) =
           Inr (takeWhile (\<lambda>c. c \<noteq> CHR ''='') t)"
    and "str_substr t (Suc (length (takeWhile (\<lambda>c. c \<noteq> CHR ''='') t))) None =
           Inr (tl (dropWhile (\<lambda>c. c \<noteq> CHR ''='') t))"
proof -
  define P where "P = (\<lambda>c. c \<noteq> CHR ''='')"
  have len: "length (takeWhile P t) < length t"
    using assms unfolding P_def by (induction t) auto
  have "take (length (takeWhile P t)) t = takeWhile P t"
    by (metis takeWhile_eq_take)
  moreover have "drop (Suc (length (takeWhile P t))) t = tl (dropWhile P t)"
    by (metis drop_Suc dropWhile_eq_drop tl_drop)
  ultimately have "str_substr t 0 (Some (length (takeWhile P t))) = Inr (takeWhile P t)"
    and "str_substr t (Suc (length (takeWhile P t))) None = Inr (tl (dropWhile P t))"
    using len by (simp_all add: str_substr_def)
  then show "str_substr t 0 (Some (length (takeWhile (\<lambda>c. c \<noteq> CHR ''='') t))) =
           Inr (takeWhile (\<lambda>c. c \<noteq> CHR ''='') t)"
    and "str_substr t (Suc (length (takeWhile (\<lambda>c. c \<noteq> CHR ''='') t))) None =
           Inr (tl (dropWhile (\<lambda>c. c \<noteq> CHR ''='') t))"
    by (simp_all only: P_def)
qed

text \<open>One line: the parser's section and table follow the meaning of the line.\<close>

lemma parseINI_line_items:
  "\<exists>sect'. parseINI_line l (sect, m) = Inr (sect', m ++ map_of (rev (ini_items sect [l]))) \<and>
     (\<forall>ls. ini_items sect (l # ls) = ini_items sect [l] @ ini_items sect' ls)"
proof -
  let ?t = "trim line_blanks l"
  consider (skip) "?t = [] \<or> hd ?t \<in> {CHR ''#'', CHR '';''}"
    | (header) "?t \<noteq> []" "hd ?t = CHR ''[''" "last ?t = CHR '']''"
    | (binding) "?t \<noteq> []" "hd ?t \<notin> {CHR ''#'', CHR '';''}"
        "\<not> (hd ?t = CHR ''['' \<and> last ?t = CHR '']'')" "CHR ''='' \<in> set ?t"
    | (other) "?t \<noteq> []" "hd ?t \<notin> {CHR ''#'', CHR '';''}"
        "\<not> (hd ?t = CHR ''['' \<and> last ?t = CHR '']'')" "CHR ''='' \<notin> set ?t"
    by blast
  then show ?thesis
  proof cases
    case skip
    then show ?thesis
      by (auto simp: parseINI_line_def ini_items.simps)
  next
    case header
    then show ?thesis
      by (simp add: parseINI_line_def ini_items.simps section_name)
  next
    case binding
    then show ?thesis
      by (auto simp: parseINI_line_def ini_items.simps find_char_eq Let_def
          key_value_split [OF binding(4)])
  next
    case other
    then show ?thesis
      by (auto simp: parseINI_line_def ini_items.simps find_char_eq Let_def)
  qed
qed

lemma ofold_parseINI_line:
  "\<exists>sect'. ofold parseINI_line ls (sect, m) =
     Inr (sect', m ++ map_of (rev (ini_items sect ls)))"
proof (induction ls arbitrary: sect m)
  case (Cons l ls)
  obtain s' where s': "parseINI_line l (sect, m) = Inr (s', m ++ map_of (rev (ini_items sect [l])))"
    "ini_items sect (l # ls) = ini_items sect [l] @ ini_items s' ls"
    using parseINI_line_items [of l sect m] by auto
  with Cons.IH [of s' "m ++ map_of (rev (ini_items sect [l]))"]
  show ?case by (auto simp: map_add_assoc)
qed simp

lemma parseINI_eq: "parseINI content c = Inr (True, c\<lparr>configs := ini_meaning content\<rparr>)"
  using ofold_parseINI_line [of "lines_of content" "[]" Map.empty]
  by (auto simp: parseINI_def ini_meaning_def)

lemma load_eq:
  "load rf f c = (case rf f of
       None \<Rightarrow> Inr (False, c\<lparr>config_file := f\<rparr>)
     | Some content \<Rightarrow> Inr (True, \<lparr>configs = ini_meaning content, config_file = f\<rparr>))"
  by (cases c) (auto simp: load_def parseINI_eq split: option.splits)

text \<open>
  C10: the parser accepts every text and raises nothing; it forgets the previous table, binds
  exactly the keys some line of the text binds, and the last binding of a key wins.
\<close>

theorem parseINI_correct:
  "\<exists>c'. parseINI content c = Inr (True, c') \<and> config_file c' = config_file c \<and>
     getAllConfigs c' = map_of (rev (ini_items [] (lines_of content))) \<and>
     (\<forall>k. hasKey c' k \<longleftrightarrow> k \<in> fst ` set (ini_items [] (lines_of content)))"
  by (auto simp: parseINI_eq ini_meaning_def getAllConfigs_def hasKey_def
      map_of_eq_None_iff simp flip: not_None_eq)

section \<open>Loading, reloading, typed access\<close>

text \<open>
  Loading a file that cannot be opened reports failure and keeps every setting (only the
  remembered name changes); loading a readable file replaces the whole table by the meaning
  of the file. Neither raises.
\<close>

theorem load_correct:
  "load rf f c = (case rf f of
       None \<Rightarrow> Inr (False, c\<lparr>config_file := f\<rparr>)
     | Some content \<Rightarrow> Inr (True, \<lparr>configs = ini_meaning content, config_file = f\<rparr>))"
  by (rule load_eq)

text \<open>
  After a successful load, reloading an unchanged file undoes every change made through
  the setters in between.
\<close>

lemma reload_restores:
  assumes "load rf f c = Inr (True, c1)" and "f \<noteq> []"
  shows "reload rf (fold (\<lambda>(k, v) c. setString c k v) kvs c1) = Inr (True, c1)"
proof -
  obtain content where rf: "rf f = Some content"
    and c1: "c1 = \<lparr>configs = ini_meaning content, config_file = f\<rparr>"
    using assms(1) by (auto simp: load_eq split: option.splits)
  have "config_file (fold (\<lambda>(k, v) c. setString c k v) kvs c) = config_file c" for c
    by (induction kvs arbitrary: c) (auto simp: setString_def setValue_def)
  with c1 have "config_file (fold (\<lambda>(k, v) c. setString c k v) kvs c1) = f" by simp
  with assms(2) rf c1 show ?thesis by (simp add: reload_def load_eq)
qed

text \<open>
  C39: what a setter stores, the getter of the same type reads back, for every
  \<^verbatim>\<open>int\<close>, every \<^verbatim>\<open>bool\<close> and every text but the empty one, which reads as the
  caller's default.
\<close>

theorem typed_roundtrip:
  "getInt (setInt c k n) k d = n \<and>
   getBool (setBool c k b) k e = b \<and>
   getString (setString c k s) k t = (if s = [] then t else s)"
proof (intro conjI)
  show "getInt (setInt c k n) k d = n"
    by (simp add: getInt_def setInt_def cfg.get_put stoi_to_string_int)
  show "getBool (setBool c k b) k e = b"
    by (simp add: getBool_def setBool_def cfg.get_put tolower_def)
  show "getString (setString c k s) k t = (if s = [] then t else s)"
    by (simp add: getString_def setString_def cfg.get_put)
qed

section \<open>Printing and parsing\<close>

text \<open>
  A configuration as sections of bindings, printed the way \<^verbatim>\<open>config/server.conf\<close> is
  written. A key may not start like a comment or a header, and neither keys nor values carry
  blanks at their ends, which the parser strips.
\<close>

definition wf_section :: "string \<Rightarrow> bool" where
  "wf_section s \<longleftrightarrow> newline \<notin> set s"

definition wf_key :: "string \<Rightarrow> bool" where
  "wf_key k \<longleftrightarrow> k \<noteq> [] \<and> newline \<notin> set k \<and> CHR ''='' \<notin> set k \<and>
     hd k \<notin> set line_blanks \<union> {CHR ''#'', CHR '';'', CHR ''[''} \<and> last k \<notin> set item_blanks"

definition wf_value :: "string \<Rightarrow> bool" where
  "wf_value v \<longleftrightarrow> newline \<notin> set v \<and>
     (v = [] \<or> hd v \<notin> set item_blanks \<and> last v \<notin> set line_blanks)"

fun render_sections :: "(string \<times> (string \<times> string) list) list \<Rightarrow> string list" where
  "render_sections [] = []"
| "render_sections ((s, kvs) # rest) =
     (''['' @ s @ '']'') # map (\<lambda>(k, v). k @ '' = '' @ v) kvs @ render_sections rest"

definition render_ini :: "(string \<times> (string \<times> string) list) list \<Rightarrow> string" where
  "render_ini cfg = concat (map (\<lambda>l. l @ [newline]) (render_sections cfg))"

definition flat_items :: "(string \<times> (string \<times> string) list) list \<Rightarrow> (string \<times> string) list" where
  "flat_items cfg = concat (map (\<lambda>(s, kvs). map (\<lambda>(k, v). (full_key s k, v)) kvs) cfg)"

definition wf_sections :: "(string \<times> (string \<times> string) list) list \<Rightarrow> bool" where
  "wf_sections cfg \<longleftrightarrow> list_all (\<lambda>(s, kvs). wf_section s \<and>
     list_all (\<lambda>(k, v). wf_key k \<and> wf_value v) kvs) cfg"

lemma lines_of_concat:
  assumes "list_all (\<lambda>l. newline \<notin> set l) ls"
  shows "lines_of (concat (map (\<lambda>l. l @ [newline]) ls)) = ls"
  using assms by (induction ls) (simp_all add: lines_of_line)

lemma ini_items_header:
  assumes "wf_section s"
  shows "ini_items sect ((''['' @ s @ '']'') # ls) = ini_items s ls"
proof -
  have "trim line_blanks (''['' @ s @ '']'') = ''['' @ s @ '']''"
    by (rule trim_id) (simp add: line_blanks_def)
  then show ?thesis by (simp add: ini_items.simps Let_def)
qed

lemma binding_line_trim:
  assumes "wf_key k" and "wf_value v"
  obtains w where "trim line_blanks (k @ '' = '' @ v) = k @ '' ='' @ w" and "trim item_blanks w = v"
proof (cases "v = []")
  case True
  have "trim line_blanks ([] @ (k @ '' ='') @ '' '') = trim line_blanks (k @ '' ='')"
    by (rule trim_pad) (simp_all add: line_blanks_def)
  also have "\<dots> = k @ '' =''"
    using assms(1) by (intro trim_id) (simp add: wf_key_def line_blanks_def)
  finally show ?thesis using that [of "[]"] True by simp
next
  case False
  have "trim line_blanks (k @ '' = '' @ v) = k @ '' = '' @ v"
    using assms False by (intro trim_id) (simp add: wf_key_def wf_value_def)
  moreover have "trim item_blanks ('' '' @ v @ []) = trim item_blanks v"
    by (rule trim_pad) (simp_all add: item_blanks_def)
  moreover have "trim item_blanks v = v"
    using assms(2) False by (intro trim_id) (auto simp: wf_value_def line_blanks_def item_blanks_def)
  ultimately show ?thesis using that [of "'' '' @ v"] by simp
qed

lemma ini_items_binding:
  assumes "wf_key k" and "wf_value v"
  shows "ini_items sect ((k @ '' = '' @ v) # ls) = (full_key sect k, v) # ini_items sect ls"
proof -
  obtain w where t: "trim line_blanks (k @ '' = '' @ v) = k @ '' ='' @ w" and w: "trim item_blanks w = v"
    using binding_line_trim [OF assms] .
  have k: "\<forall>c \<in> set (k @ '' ''). c \<noteq> CHR ''=''" using assms(1) by (auto simp: wf_key_def)
  have tw: "takeWhile (\<lambda>c. c \<noteq> CHR ''='') ((k @ '' '') @ CHR ''='' # w) = k @ '' ''"
    and dw: "dropWhile (\<lambda>c. c \<noteq> CHR ''='') ((k @ '' '') @ CHR ''='' # w) = CHR ''='' # w"
    using k by (induction "k @ '' ''") (simp_all add: takeWhile_append dropWhile_append)
  have "trim item_blanks ([] @ k @ '' '') = trim item_blanks k"
    by (rule trim_pad) (simp_all add: item_blanks_def)
  also have "\<dots> = k"
    using assms(1) by (intro trim_id) (auto simp: wf_key_def line_blanks_def item_blanks_def)
  finally have "trim item_blanks (k @ '' '') = k" by simp
  with t w tw dw assms(1) show ?thesis
    by (simp add: ini_items.simps Let_def wf_key_def)
qed

lemma ini_items_bindings:
  assumes "list_all (\<lambda>(k, v). wf_key k \<and> wf_value v) kvs"
  shows "ini_items s (map (\<lambda>(k, v). k @ '' = '' @ v) kvs @ ls) =
     map (\<lambda>(k, v). (full_key s k, v)) kvs @ ini_items s ls"
  using assms
proof (induction kvs)
  case (Cons kv kvs)
  then show ?case by (cases kv) (simp add: ini_items_binding [simplified])
qed simp

lemma ini_items_render:
  "wf_sections cfg \<Longrightarrow> ini_items sect (render_sections cfg) = flat_items cfg"
proof (induction cfg arbitrary: sect)
  case (Cons s cfg)
  then show ?case
    by (cases s) (simp add: wf_sections_def flat_items_def ini_items_header [simplified]
        ini_items_bindings [simplified])
qed (simp add: flat_items_def)

lemma render_lines: "wf_sections cfg \<Longrightarrow> list_all (\<lambda>l. newline \<notin> set l) (render_sections cfg)"
proof (induction cfg)
  case (Cons s cfg)
  obtain n kvs where s: "s = (n, kvs)" by force
  have "newline \<notin> set (k @ '' = '' @ v)" if "wf_key k" "wf_value v" for k v
    using that by (simp add: wf_key_def wf_value_def)
  then have "list_all (\<lambda>l. newline \<notin> set l) (map (\<lambda>(k, v). k @ '' = '' @ v) kvs)"
    using Cons.prems s by (simp add: wf_sections_def list.pred_map list_all_iff split_beta) blast
  moreover have "newline \<notin> set (''['' @ n @ '']'')"
    using Cons.prems s by (simp add: wf_sections_def wf_section_def)
  moreover have "list_all (\<lambda>l. newline \<notin> set l) (render_sections cfg)"
    using Cons by (simp add: wf_sections_def)
  ultimately show ?case using s by simp
qed simp

lemma ini_meaning_render:
  assumes "wf_sections cfg"
  shows "ini_meaning (render_ini cfg) = map_of (rev (flat_items cfg))"
  using assms by (simp add: ini_meaning_def render_ini_def lines_of_concat render_lines ini_items_render)

text \<open>
  C29: printing a well-formed configuration as sections of \<^verbatim>\<open>key = value\<close> lines and
  parsing the text gives exactly that configuration, whatever the table held before.
\<close>

theorem render_parse_roundtrip:
  assumes "wf_sections cfg"
  shows "parseINI (render_ini cfg) c = Inr (True, c\<lparr>configs := map_of (rev (flat_items cfg))\<rparr>)"
  using ini_meaning_render [OF assms] by (simp add: parseINI_eq)

theorem render_parse_roundtrip_witness:
  "parseINI (render_ini [(''server'', [(''port'', ''8080''), (''password'', [])]), ([], [(''a'', ''b'')])])
     empty_config =
   Inr (True, empty_config\<lparr>configs :=
     [''server.port'' \<mapsto> ''8080'', ''server.password'' \<mapsto> [], ''a'' \<mapsto> ''b'']\<rparr>)"
proof -
  have "wf_sections [(''server'', [(''port'', ''8080''), (''password'', [])]), ([], [(''a'', ''b'')])]"
    by code_simp
  from render_parse_roundtrip [OF this, of empty_config] show ?thesis
    by (simp add: flat_items_def full_key_def)
qed


section \<open>Integers read from text\<close>

lemma takeWhile_prefix:
  assumes "list_all P xs" and "ys = [] \<or> \<not> P (hd ys)"
  shows "takeWhile P (xs @ ys) = xs"
  using assms by (induction xs) (auto simp: takeWhile_eq_Nil_iff)

lemma stoi_text:
  assumes "list_all is_space ws" and "sgn_text \<in> {[], ''+'', ''-''}"
    and "ds \<noteq> []" and "list_all is_digit ds" and "rest = [] \<or> \<not> is_digit (hd rest)"
  shows "stoi (ws @ sgn_text @ ds @ rest) =
     (let v = (if sgn_text = ''-'' then - digits_value ds else digits_value ds)
      in if - (2 ^ 31) \<le> v \<and> v < 2 ^ 31 then Inr (word_of_int v) else Inl OutOfRange)"
proof -
  obtain c ds' where ds: "ds = c # ds'" "is_digit c" using assms(3,4) by (cases ds) auto
  have "dropWhile is_space (ws @ sgn_text @ ds @ rest) = dropWhile is_space (sgn_text @ ds @ rest)"
    using assms(1) by (intro dropWhile_all_append) (simp add: list_all_iff)
  also have "\<dots> = sgn_text @ ds @ rest"
    using assms(2) ds digit_not_space by (intro dropWhile_id) (auto simp: is_space_def)
  finally have 1: "dropWhile is_space (ws @ sgn_text @ ds @ rest) = sgn_text @ ds @ rest" .
  have 2: "stoi_sign (sgn_text @ ds @ rest) = (sgn_text = ''-'', ds @ rest)"
    using assms(2) ds digit_not_sign by (auto simp: stoi_sign_def)
  have 3: "takeWhile is_digit (ds @ rest) = ds"
    using assms(4,5) by (rule takeWhile_prefix)
  show ?thesis unfolding stoi_def 1 2 prod.case Let_def 3 using assms(3) by simp
qed

text \<open>
  C40: an integer setting is read as white space, an optional sign and the longest run of
  digits; what follows the digits is ignored, and a value that does not fit
  \<^verbatim>\<open>int\<close> gives the default instead of a wrapped number.
\<close>

theorem getInt_text:
  assumes "list_all is_space ws" and "sgn_text \<in> {[], ''+'', ''-''}"
    and "ds \<noteq> []" and "list_all is_digit ds" and "rest = [] \<or> \<not> is_digit (hd rest)"
  shows "getInt (setString c k (ws @ sgn_text @ ds @ rest)) k d =
     (let v = (if sgn_text = ''-'' then - digits_value ds else digits_value ds)
      in if - (2 ^ 31) \<le> v \<and> v < 2 ^ 31 then word_of_int v else d)"
  using assms(3) by (simp add: getInt_def setString_def cfg.get_put stoi_text [OF assms] Let_def)

theorem getInt_text_witness:
  "getInt (setString empty_config ''n'' '' -42ms'') ''n'' 7 = - 42 \<and>
   getInt (setString empty_config ''n'' ''3000000000'') ''n'' 7 = 7"
proof
  have "list_all is_space '' ''" "list_all is_digit ''42''" "\<not> is_digit (hd ''ms'')"
    "list_all is_digit ''3000000000''"
    by code_simp+
  then show "getInt (setString empty_config ''n'' '' -42ms'') ''n'' 7 = - 42"
    using getInt_text [of "'' ''" "''-''" "''42''" "''ms''" empty_config "''n''" 7]
    by (simp add: digits_value_def)
  show "getInt (setString empty_config ''n'' ''3000000000'') ''n'' 7 = 7"
    using getInt_text [of "[]" "[]" "''3000000000''" "[]" empty_config "''n''" 7]
      \<open>list_all is_digit ''3000000000''\<close>
    by (simp add: digits_value_def)
qed

section \<open>The test suite's configuration\<close>

text \<open>The text \<^verbatim>\<open>tests/test_config.cpp\<close> writes to its configuration file.\<close>

definition test_config_file :: string where
  "test_config_file = concat (map (\<lambda>l. l @ [newline])
     [''# Test configuration file'', [],
      ''[server]'', ''ip = 127.0.0.1'', ''port = 8080'', ''thread_num = 4'', ''debug = true'',
      ''timeout = 30.5'', [],
      ''[database]'', ''host = localhost'', ''port = 3306'', ''max_connections = 50'',
      ''auto_reconnect = false'', [],
      ''# Global settings'', ''app_name = OrderEngine'', ''version = 1.0.0''])"

text \<open>
  On the file the tests write, the sectioned settings read as the tests expect, but the two
  "global" settings after the last header belong to that section: \<^verbatim>\<open>app_name\<close> is not
  a key and reads as the default, where the tests expect \<^verbatim>\<open>OrderEngine\<close>.
\<close>

theorem test_config_globals_are_sectioned:
  "\<exists>c. parseINI test_config_file empty_config = Inr (True, c) \<and>
     getInt c ''server.port'' 0 = 8080 \<and> getBool c ''server.debug'' False \<and>
     \<not> getBool c ''database.auto_reconnect'' True \<and>
     \<not> hasKey c ''app_name'' \<and> getString c ''app_name'' [] = [] \<and>
     getString c ''database.app_name'' [] = ''OrderEngine''"
proof -
  let ?c = "empty_config\<lparr>configs := ini_meaning test_config_file\<rparr>"
  have "getInt ?c ''server.port'' 0 = 8080 \<and> getBool ?c ''server.debug'' False \<and>
     \<not> getBool ?c ''database.auto_reconnect'' True \<and>
     \<not> hasKey ?c ''app_name'' \<and> getString ?c ''app_name'' [] = [] \<and>
     getString ?c ''database.app_name'' [] = ''OrderEngine''"
    by code_simp
  then show ?thesis by (auto simp: parseINI_eq)
qed

end
