(* ===== verification/Logger.thy ===== *)
theory Logger
  imports Prelude
begin

text \<open>
  The logger, \<^verbatim>\<open>include/common/logger.h\<close> and \<^verbatim>\<open>src/common/logger.cpp\<close>: three loggers of the
  library spdlog behind null checks, their set-up inside a \<^verbatim>\<open>try\<close> block, and the level switch.
  The library is the parameter \<open>('h, 's, 'k) spdlog\<close> over handles of loggers, handles of sinks
  and an abstract state; what a theorem needs of its documented behaviour is a hypothesis.
\<close>

section \<open>Levels\<close>

datatype log_level = TRACE | DEBUG_LEVEL | INFO | WARN | ERROR_LEVEL | CRITICAL

text \<open>The values of the enumeration, which order it.\<close>

primrec level_value :: "log_level \<Rightarrow> nat" where
  "level_value TRACE = 0"
| "level_value DEBUG_LEVEL = 1"
| "level_value INFO = 2"
| "level_value WARN = 3"
| "level_value ERROR_LEVEL = 4"
| "level_value CRITICAL = 5"

lemma level_value_inj: "level_value a = level_value b \<longleftrightarrow> a = b"
  by (cases a; cases b) simp_all

instantiation log_level :: linorder
begin

definition less_eq_log_level :: "log_level \<Rightarrow> log_level \<Rightarrow> bool" where
  "less_eq_log_level a b \<longleftrightarrow> level_value a \<le> level_value b"

definition less_log_level :: "log_level \<Rightarrow> log_level \<Rightarrow> bool" where
  "less_log_level a b \<longleftrightarrow> level_value a < level_value b"

instance
  by standard (auto simp: less_eq_log_level_def less_log_level_def level_value_inj)

end

text \<open>The levels of spdlog, ordered as they are listed.\<close>

datatype spd_level = Sp_trace | Sp_debug | Sp_info | Sp_warn | Sp_err | Sp_critical

primrec spd_value :: "spd_level \<Rightarrow> nat" where
  "spd_value Sp_trace = 0"
| "spd_value Sp_debug = 1"
| "spd_value Sp_info = 2"
| "spd_value Sp_warn = 3"
| "spd_value Sp_err = 4"
| "spd_value Sp_critical = 5"

primrec spdlog_level :: "log_level \<Rightarrow> spd_level" where
  "spdlog_level TRACE = Sp_trace"
| "spdlog_level DEBUG_LEVEL = Sp_debug"
| "spdlog_level INFO = Sp_info"
| "spdlog_level WARN = Sp_warn"
| "spdlog_level ERROR_LEVEL = Sp_err"
| "spdlog_level CRITICAL = Sp_critical"

section \<open>State and operations\<close>

text \<open>An argument of a format string; \<open>'d\<close> is the type of \<^verbatim>\<open>double\<close>.\<close>

datatype 'd fmt_arg = StrArg string | IntArg cint | DoubleArg 'd

text \<open>
  The calls of spdlog. Those that may throw give \<^const>\<open>Inl\<close> with the state they leave.
\<close>

record ('h, 's, 'd, 'k) spdlog =
  sp_init_thread_pool :: "nat \<Rightarrow> nat \<Rightarrow> 'k \<Rightarrow> 'k + unit \<times> 'k"
  sp_daily_file_sink :: "string \<Rightarrow> nat \<Rightarrow> nat \<Rightarrow> 'k \<Rightarrow> 'k + 's \<times> 'k"
  sp_console_sink :: "'k \<Rightarrow> 'k + 's \<times> 'k"
  sp_sink_set_level :: "'s \<Rightarrow> spd_level \<Rightarrow> 'k \<Rightarrow> 'k"
  sp_async_logger :: "string \<Rightarrow> 's list \<Rightarrow> 'k \<Rightarrow> 'k + 'h \<times> 'k"
  sp_set_level :: "'h \<Rightarrow> spd_level \<Rightarrow> 'k \<Rightarrow> 'k"
  sp_set_pattern :: "'h \<Rightarrow> string \<Rightarrow> 'k \<Rightarrow> 'k"
  sp_register_logger :: "'h \<Rightarrow> 'k \<Rightarrow> 'k + unit \<times> 'k"
  sp_set_default_logger :: "'h \<Rightarrow> 'k \<Rightarrow> 'k"
  sp_log :: "'h \<Rightarrow> spd_level \<Rightarrow> string \<Rightarrow> 'd fmt_arg list \<Rightarrow> 'k \<Rightarrow> 'k"
  sp_flush :: "'h \<Rightarrow> 'k \<Rightarrow> 'k"
  sp_shutdown :: "'k \<Rightarrow> 'k"

record 'h logger =
  main_logger :: "'h option"
  perf_logger :: "'h option"
  business_logger :: "'h option"

definition new_logger :: "'h logger" where
  "new_logger = \<lparr>main_logger = None, perf_logger = None, business_logger = None\<rparr>"

type_synonym ('h, 'k) log_state = "'h logger \<times> 'k"

text \<open>
  Statements of the \<^verbatim>\<open>try\<close> block: \<^const>\<open>Inl\<close> is the state in which the block was left by an
  exception. A throwing call leaves the members as they are.
\<close>

definition attempt :: "('k + 'a \<times> 'k) \<Rightarrow> 'h logger \<Rightarrow> ('a \<Rightarrow> 'k \<Rightarrow> ('h, 'k) log_state + ('h, 'k) log_state) \<Rightarrow>
    ('h, 'k) log_state + ('h, 'k) log_state" where
  "attempt call l f = (case call of Inl k \<Rightarrow> Inl (l, k) | Inr (x, k) \<Rightarrow> f x k)"

definition and_then :: "('s + 's) \<Rightarrow> ('s \<Rightarrow> 's + 's) \<Rightarrow> 's + 's" where
  "and_then m f = (case m of Inl s \<Rightarrow> Inl s | Inr s \<Rightarrow> f s)"

definition log_main :: "('h, 's, 'd, 'k) spdlog \<Rightarrow> spd_level \<Rightarrow> string \<Rightarrow> 'd fmt_arg list \<Rightarrow>
    ('h, 'k) log_state \<Rightarrow> ('h, 'k) log_state" where
  "log_main sp level msg args lk = (case lk of (l, k) \<Rightarrow>
     (case main_logger l of None \<Rightarrow> (l, k) | Some h \<Rightarrow> (l, sp_log sp h level msg args k)))"

definition create_main :: "('h, 's, 'd, 'k) spdlog \<Rightarrow> ('h, 'k) log_state \<Rightarrow> ('h, 'k) log_state + ('h, 'k) log_state" where
  "create_main sp lk = (case lk of (l, k) \<Rightarrow>
     attempt (sp_daily_file_sink sp ''logs/order_engine'' 23 59 k) l (\<lambda>daily k.
     attempt (sp_console_sink sp (sp_sink_set_level sp daily Sp_trace k)) l (\<lambda>console k.
     attempt (sp_async_logger sp ''order_engine'' [daily, console] (sp_sink_set_level sp console Sp_info k)) l (\<lambda>h k.
       Inr (l\<lparr>main_logger := Some h\<rparr>,
            sp_set_pattern sp h ''[%Y-%m-%d %H:%M:%S.%e] [%l] [%t] [%s:%#] %v'' (sp_set_level sp h Sp_trace k))))))"

definition create_perf :: "('h, 's, 'd, 'k) spdlog \<Rightarrow> ('h, 'k) log_state \<Rightarrow> ('h, 'k) log_state + ('h, 'k) log_state" where
  "create_perf sp lk = (case lk of (l, k) \<Rightarrow>
     attempt (sp_daily_file_sink sp ''logs/performance'' 23 59 k) l (\<lambda>sink k.
     attempt (sp_async_logger sp ''performance'' [sink] k) l (\<lambda>h k.
       Inr (l\<lparr>perf_logger := Some h\<rparr>, sp_set_pattern sp h ''[%Y-%m-%d %H:%M:%S.%e] %v'' k))))"

definition create_business :: "('h, 's, 'd, 'k) spdlog \<Rightarrow> ('h, 'k) log_state \<Rightarrow> ('h, 'k) log_state + ('h, 'k) log_state" where
  "create_business sp lk = (case lk of (l, k) \<Rightarrow>
     attempt (sp_daily_file_sink sp ''logs/business'' 23 59 k) l (\<lambda>sink k.
     attempt (sp_async_logger sp ''business'' [sink] k) l (\<lambda>h k.
       Inr (l\<lparr>business_logger := Some h\<rparr>, sp_set_pattern sp h ''[%Y-%m-%d %H:%M:%S.%e] %v'' k))))"

text \<open>Registering a member, which has been set by then: the null case does not arise.\<close>

definition register_member :: "('h, 's, 'd, 'k) spdlog \<Rightarrow> ('h logger \<Rightarrow> 'h option) \<Rightarrow>
    ('h, 'k) log_state \<Rightarrow> ('h, 'k) log_state + ('h, 'k) log_state" where
  "register_member sp member lk = (case lk of (l, k) \<Rightarrow>
     (case member l of None \<Rightarrow> Inl (l, k)
      | Some h \<Rightarrow> attempt (sp_register_logger sp h k) l (\<lambda>_ k. Inr (l, k))))"

definition logger_initialize :: "('h, 's, 'd, 'k) spdlog \<Rightarrow> string \<Rightarrow> ('h, 'k) log_state \<Rightarrow>
    bool \<times> ('h, 'k) log_state" where
  "logger_initialize sp config_file lk =
     (case and_then (case lk of (l, k) \<Rightarrow> attempt (sp_init_thread_pool sp 8192 1 k) l (\<lambda>_ k. Inr (l, k))) (\<lambda>lk.
           and_then (create_main sp lk) (\<lambda>lk.
           and_then (create_perf sp lk) (\<lambda>lk.
           and_then (create_business sp lk) (\<lambda>lk.
           and_then (register_member sp main_logger lk) (\<lambda>lk.
           and_then (register_member sp perf_logger lk) (\<lambda>lk.
           and_then (register_member sp business_logger lk) (\<lambda>(l, k).
             Inr (l, case main_logger l of None \<Rightarrow> k | Some h \<Rightarrow> sp_set_default_logger sp h k)))))))) of
        Inl lk \<Rightarrow> (False, lk)
      | Inr lk \<Rightarrow> (True, log_main sp Sp_info ''Logger initialized successfully'' [] lk))"

definition flush_member :: "('h, 's, 'd, 'k) spdlog \<Rightarrow> 'h option \<Rightarrow> 'k \<Rightarrow> 'k" where
  "flush_member sp h k = (case h of None \<Rightarrow> k | Some h \<Rightarrow> sp_flush sp h k)"

definition logger_shutdown :: "('h, 's, 'd, 'k) spdlog \<Rightarrow> ('h, 'k) log_state \<Rightarrow> ('h, 'k) log_state" where
  "logger_shutdown sp lk = (case lk of (l, k) \<Rightarrow>
     (l, sp_shutdown sp (flush_member sp (business_logger l) (flush_member sp (perf_logger l)
           (flush_member sp (main_logger l) k)))))"

definition logPerformance :: "('h, 's, 'd, 'k) spdlog \<Rightarrow> string \<Rightarrow> 'd \<Rightarrow> ('h, 'k) log_state \<Rightarrow> ('h, 'k) log_state" where
  "logPerformance sp operation duration_ms lk = (case lk of (l, k) \<Rightarrow>
     (case perf_logger l of None \<Rightarrow> (l, k)
      | Some h \<Rightarrow> (l, sp_log sp h Sp_info ''PERF {} {:.3f}ms'' [StrArg operation, DoubleArg duration_ms] k)))"

definition logBusiness :: "('h, 's, 'd, 'k) spdlog \<Rightarrow> string \<Rightarrow> string \<Rightarrow> ('h, 'k) log_state \<Rightarrow> ('h, 'k) log_state" where
  "logBusiness sp event data lk = (case lk of (l, k) \<Rightarrow>
     (case business_logger l of None \<Rightarrow> (l, k)
      | Some h \<Rightarrow> (l, sp_log sp h Sp_info ''BIZ {} {}'' [StrArg event, StrArg data] k)))"

text \<open>\<^verbatim>\<open>trace\<close> to \<^verbatim>\<open>critical\<close>, named by the level.\<close>

primrec log_at_level :: "('h, 's, 'd, 'k) spdlog \<Rightarrow> log_level \<Rightarrow> string \<Rightarrow> ('h, 'k) log_state \<Rightarrow> ('h, 'k) log_state" where
  "log_at_level sp TRACE message = log_main sp Sp_trace message []"
| "log_at_level sp DEBUG_LEVEL message = log_main sp Sp_debug message []"
| "log_at_level sp INFO message = log_main sp Sp_info message []"
| "log_at_level sp WARN message = log_main sp Sp_warn message []"
| "log_at_level sp ERROR_LEVEL message = log_main sp Sp_err message []"
| "log_at_level sp CRITICAL message = log_main sp Sp_critical message []"

definition debug_fmt :: "('h, 's, 'd, 'k) spdlog \<Rightarrow> string \<Rightarrow> string \<Rightarrow> ('h, 'k) log_state \<Rightarrow> ('h, 'k) log_state" where
  "debug_fmt sp format arg = log_main sp Sp_debug format [StrArg arg]"

definition info_fmt :: "('h, 's, 'd, 'k) spdlog \<Rightarrow> string \<Rightarrow> string \<Rightarrow> ('h, 'k) log_state \<Rightarrow> ('h, 'k) log_state" where
  "info_fmt sp format arg = log_main sp Sp_info format [StrArg arg]"

definition error_fmt :: "('h, 's, 'd, 'k) spdlog \<Rightarrow> string \<Rightarrow> string \<Rightarrow> ('h, 'k) log_state \<Rightarrow> ('h, 'k) log_state" where
  "error_fmt sp format arg = log_main sp Sp_err format [StrArg arg]"

definition debug_fmt2 :: "('h, 's, 'd, 'k) spdlog \<Rightarrow> string \<Rightarrow> string \<Rightarrow> string \<Rightarrow> ('h, 'k) log_state \<Rightarrow> ('h, 'k) log_state" where
  "debug_fmt2 sp format arg1 arg2 = log_main sp Sp_debug format [StrArg arg1, StrArg arg2]"

definition info_fmt_int :: "('h, 's, 'd, 'k) spdlog \<Rightarrow> string \<Rightarrow> cint \<Rightarrow> ('h, 'k) log_state \<Rightarrow> ('h, 'k) log_state" where
  "info_fmt_int sp format arg = log_main sp Sp_info format [IntArg arg]"

definition setLevel :: "('h, 's, 'd, 'k) spdlog \<Rightarrow> log_level \<Rightarrow> ('h, 'k) log_state \<Rightarrow> ('h, 'k) log_state" where
  "setLevel sp level lk = (case lk of (l, k) \<Rightarrow>
     (case main_logger l of None \<Rightarrow> (l, k) | Some h \<Rightarrow> (l, sp_set_level sp h (spdlog_level level) k)))"

section \<open>What reaches the log\<close>

text \<open>
  The documented behaviour of a spdlog logger: it has a level, and a message is handed to its
  sinks exactly when its level is not below; \<open>written k h\<close> is what has been handed over.
\<close>

definition spdlog_documented :: "('h, 's, 'd, 'k) spdlog \<Rightarrow> ('k \<Rightarrow> 'h \<Rightarrow> (spd_level \<times> string \<times> 'd fmt_arg list) list) \<Rightarrow>
    ('k \<Rightarrow> 'h \<Rightarrow> spd_level) \<Rightarrow> bool" where
  "spdlog_documented sp written level_of \<longleftrightarrow>
     (\<forall>h l msg args k. level_of (sp_log sp h l msg args k) = level_of k \<and>
        written (sp_log sp h l msg args k) = (if spd_value (level_of k h) \<le> spd_value l
          then (written k)(h := written k h @ [(l, msg, args)]) else written k)) \<and>
     (\<forall>h l k. written (sp_set_level sp h l k) = written k \<and> level_of (sp_set_level sp h l k) = (level_of k)(h := l))"

text \<open>The calls a program makes on the logger, and the record each makes with the main logger.\<close>

datatype 'd log_call = SetLevel log_level | Message log_level string | DebugFmt string string | InfoFmt string string
  | ErrorFmt string string | DebugFmt2 string string string | InfoFmtInt string cint | Perf string 'd | Business string string

primrec do_call :: "('h, 's, 'd, 'k) spdlog \<Rightarrow> 'd log_call \<Rightarrow> ('h, 'k) log_state \<Rightarrow> ('h, 'k) log_state" where
  "do_call sp (SetLevel l) = setLevel sp l"
| "do_call sp (Message l m) = log_at_level sp l m"
| "do_call sp (DebugFmt f a) = debug_fmt sp f a"
| "do_call sp (InfoFmt f a) = info_fmt sp f a"
| "do_call sp (ErrorFmt f a) = error_fmt sp f a"
| "do_call sp (DebugFmt2 f a b) = debug_fmt2 sp f a b"
| "do_call sp (InfoFmtInt f n) = info_fmt_int sp f n"
| "do_call sp (Perf f d) = logPerformance sp f d"
| "do_call sp (Business e d) = logBusiness sp e d"

primrec entry :: "'d log_call \<Rightarrow> (log_level \<times> string \<times> 'd fmt_arg list) option" where
  "entry (SetLevel l) = None"
| "entry (Message l m) = Some (l, m, [])"
| "entry (DebugFmt f a) = Some (DEBUG_LEVEL, f, [StrArg a])"
| "entry (InfoFmt f a) = Some (INFO, f, [StrArg a])"
| "entry (ErrorFmt f a) = Some (ERROR_LEVEL, f, [StrArg a])"
| "entry (DebugFmt2 f a b) = Some (DEBUG_LEVEL, f, [StrArg a, StrArg b])"
| "entry (InfoFmtInt f n) = Some (INFO, f, [IntArg n])"
| "entry (Perf f d) = None"
| "entry (Business e d) = None"

text \<open>The log as it should be: the entries at or above the level set last.\<close>

fun next_level :: "'d log_call \<Rightarrow> log_level \<Rightarrow> log_level" where
  "next_level (SetLevel l') l = l'"
| "next_level _ l = l"

definition kept :: "log_level \<Rightarrow> 'd log_call \<Rightarrow> (spd_level \<times> string \<times> 'd fmt_arg list) list" where
  "kept l c = (case entry c of None \<Rightarrow> []
     | Some (m, msg, args) \<Rightarrow> if l \<le> m then [(spdlog_level m, msg, args)] else [])"

primrec log_spec :: "log_level \<Rightarrow> 'd log_call list \<Rightarrow> (spd_level \<times> string \<times> 'd fmt_arg list) list" where
  "log_spec l [] = []"
| "log_spec l (c # cs) = kept l c @ log_spec (next_level c l) cs"

lemma spd_value_level [simp]: "spd_value (spdlog_level l) = level_value l"
  by (cases l) simp_all

lemma log_at_level_eq: "log_at_level sp l m = log_main sp (spdlog_level l) m []"
  by (cases l) simp_all

lemma do_call_entry:
  "entry c = Some (m, msg, args) \<Longrightarrow> do_call sp c = log_main sp (spdlog_level m) msg args"
  by (cases c) (auto simp: log_at_level_eq debug_fmt_def info_fmt_def error_fmt_def debug_fmt2_def info_fmt_int_def)

lemma log_main_law:
  assumes "spdlog_documented sp written level_of" and "main_logger l = Some h" and "level_of k h = spdlog_level v"
  shows "\<exists>k'. log_main sp (spdlog_level m) msg args (l, k) = (l, k') \<and> level_of k' h = spdlog_level v \<and>
     written k' h = written k h @ (if v \<le> m then [(spdlog_level m, msg, args)] else [])"
  using assms by (simp add: log_main_def spdlog_documented_def less_eq_log_level_def)

lemma do_call_law:
  assumes "spdlog_documented sp written level_of" and "main_logger l = Some h" and "level_of k h = spdlog_level v"
    and "perf_logger l \<noteq> Some h" and "business_logger l \<noteq> Some h"
  shows "\<exists>k'. do_call sp c (l, k) = (l, k') \<and> level_of k' h = spdlog_level (next_level c v) \<and>
     written k' h = written k h @ kept v c"
proof (cases "entry c")
  case (Some e)
  obtain m msg args where e: "e = (m, msg, args)" by (cases e)
  have "next_level c v = v" using Some by (cases c) simp_all
  with log_main_law [OF assms(1-3), of m msg args] do_call_entry [of c m msg args sp] Some e
  show ?thesis by (auto simp: kept_def)
next
  case None
  then show ?thesis
    using assms by (cases c) (auto simp: kept_def setLevel_def logPerformance_def logBusiness_def
        spdlog_documented_def split: option.splits)
qed

text \<open>
  C27: the main logger records exactly the messages at or above the level set last, in the order
  of the calls and with the arguments given, whatever mixture of plain, formatted, performance
  and business calls and level changes is made; before the logger is initialised every call is
  ignored.
\<close>

theorem log_filtered_by_level:
  assumes "spdlog_documented sp written level_of" and "main_logger l = Some h" and "level_of k h = spdlog_level v"
    and "perf_logger l \<noteq> Some h" and "business_logger l \<noteq> Some h"
  shows "\<exists>k'. fold (do_call sp) calls (l, k) = (l, k') \<and> written k' h = written k h @ log_spec v calls \<and>
     fold (do_call sp) calls (new_logger, k) = (new_logger, k)"
proof -
  have "\<exists>k'. fold (do_call sp) calls (l, k) = (l, k') \<and> written k' h = written k h @ log_spec v calls"
    using assms(3)
  proof (induction calls arbitrary: k v)
    case (Cons c cs)
    from do_call_law [OF assms(1,2) Cons.prems assms(4,5), of c] obtain k1 where
      k1: "do_call sp c (l, k) = (l, k1)" "level_of k1 h = spdlog_level (next_level c v)"
        "written k1 h = written k h @ kept v c" by blast
    from Cons.IH [OF k1(2)] k1 show ?case by auto
  qed simp
  moreover have "do_call sp c (new_logger, k) = (new_logger, k)" for c
    by (cases c) (simp_all add: log_at_level_eq setLevel_def log_main_def debug_fmt_def info_fmt_def error_fmt_def
        debug_fmt2_def info_fmt_int_def logPerformance_def logBusiness_def new_logger_def)
  then have "fold (do_call sp) calls (new_logger, k) = (new_logger, k)"
    by (induction calls) simp_all
  ultimately show ?thesis by blast
qed

section \<open>Initialising twice\<close>

text \<open>
  The documented behaviour of the registry: registering a logger throws exactly when its name
  is taken, \<^verbatim>\<open>spdlog::shutdown()\<close> empties it, and the other calls leave it alone.
\<close>

definition registry_documented :: "('h, 's, 'd, 'k) spdlog \<Rightarrow> ('h \<Rightarrow> string) \<Rightarrow> ('k \<Rightarrow> string set) \<Rightarrow> bool" where
  "registry_documented sp name_of registered \<longleftrightarrow>
     (\<forall>h k. case sp_register_logger sp h k of
        Inl k' \<Rightarrow> name_of h \<in> registered k \<and> registered k' = registered k
      | Inr (_, k') \<Rightarrow> name_of h \<notin> registered k \<and> registered k' = insert (name_of h) (registered k)) \<and>
     (\<forall>n ss h k k'. sp_async_logger sp n ss k = Inr (h, k') \<longrightarrow> name_of h = n \<and> registered k' = registered k) \<and>
     (\<forall>a b u k k'. sp_init_thread_pool sp a b k = Inr (u, k') \<longrightarrow> registered k' = registered k) \<and>
     (\<forall>f a b s k k'. sp_daily_file_sink sp f a b k = Inr (s, k') \<longrightarrow> registered k' = registered k) \<and>
     (\<forall>s k k'. sp_console_sink sp k = Inr (s, k') \<longrightarrow> registered k' = registered k) \<and>
     (\<forall>s v k. registered (sp_sink_set_level sp s v k) = registered k) \<and>
     (\<forall>h v k. registered (sp_set_level sp h v k) = registered k) \<and>
     (\<forall>h p k. registered (sp_set_pattern sp h p k) = registered k) \<and>
     (\<forall>h k. registered (sp_set_default_logger sp h k) = registered k) \<and>
     (\<forall>h v m a k. registered (sp_log sp h v m a k) = registered k) \<and>
     (\<forall>k. registered (sp_shutdown sp k) = {})"

text \<open>None of the calls that create sinks and loggers throws.\<close>

definition creation_ok :: "('h, 's, 'd, 'k) spdlog \<Rightarrow> bool" where
  "creation_ok sp \<longleftrightarrow> (\<forall>a b k. \<exists>r. sp_init_thread_pool sp a b k = Inr r) \<and>
     (\<forall>f a b k. \<exists>r. sp_daily_file_sink sp f a b k = Inr r) \<and> (\<forall>k. \<exists>r. sp_console_sink sp k = Inr r) \<and>
     (\<forall>n ss k. \<exists>r. sp_async_logger sp n ss k = Inr r)"

definition create_all :: "('h, 's, 'd, 'k) spdlog \<Rightarrow> ('h, 'k) log_state \<Rightarrow> ('h, 'k) log_state + ('h, 'k) log_state" where
  "create_all sp lk = and_then (case lk of (l, k) \<Rightarrow> attempt (sp_init_thread_pool sp 8192 1 k) l (\<lambda>_ k. Inr (l, k))) (\<lambda>lk.
     and_then (create_main sp lk) (\<lambda>lk. and_then (create_perf sp lk) (create_business sp)))"

definition register_all :: "('h, 's, 'd, 'k) spdlog \<Rightarrow> ('h, 'k) log_state \<Rightarrow> ('h, 'k) log_state + ('h, 'k) log_state" where
  "register_all sp lk = and_then (register_member sp main_logger lk) (\<lambda>lk.
     and_then (register_member sp perf_logger lk) (register_member sp business_logger))"

lemma and_then_simps [simp]: "and_then (Inl s) f = Inl s" "and_then (Inr s) f = f s"
  by (simp_all add: and_then_def)

lemma and_then_assoc: "and_then (and_then m f) g = and_then m (\<lambda>s. and_then (f s) g)"
  by (cases m) simp_all

lemma logger_initialize_eq:
  "logger_initialize sp cfg lk = (case and_then (create_all sp lk) (register_all sp) of
       Inl lk \<Rightarrow> (False, lk)
     | Inr (l, k) \<Rightarrow> (True, log_main sp Sp_info ''Logger initialized successfully'' []
         (l, case main_logger l of None \<Rightarrow> k | Some h \<Rightarrow> sp_set_default_logger sp h k)))"
proof -
  have "logger_initialize sp cfg lk = (case and_then (and_then (create_all sp lk) (register_all sp))
      (\<lambda>(l, k). Inr (l, case main_logger l of None \<Rightarrow> k | Some h \<Rightarrow> sp_set_default_logger sp h k)) of
        Inl lk \<Rightarrow> (False, lk)
      | Inr lk \<Rightarrow> (True, log_main sp Sp_info ''Logger initialized successfully'' [] lk))"
    by (simp add: logger_initialize_def create_all_def register_all_def and_then_assoc)
  then show ?thesis by (auto simp: and_then_def split: sum.splits)
qed

text \<open>All three members set, to loggers with their names.\<close>

definition named_members :: "('h \<Rightarrow> string) \<Rightarrow> 'h logger \<Rightarrow> bool" where
  "named_members name_of l \<longleftrightarrow> map_option name_of (main_logger l) = Some ''order_engine'' \<and>
     map_option name_of (perf_logger l) = Some ''performance'' \<and>
     map_option name_of (business_logger l) = Some ''business''"

definition logger_names :: "string set" where
  "logger_names = {''order_engine'', ''performance'', ''business''}"

text \<open>Creating sinks and loggers succeeds, names the loggers and leaves the registry alone.\<close>

lemma creation_laws:
  assumes "registry_documented sp name_of registered" and "creation_ok sp"
  shows "\<exists>u k'. sp_init_thread_pool sp a b k = Inr (u, k') \<and> registered k' = registered k"
    and "\<exists>s k'. sp_daily_file_sink sp f a b k = Inr (s, k') \<and> registered k' = registered k"
    and "\<exists>s k'. sp_console_sink sp k = Inr (s, k') \<and> registered k' = registered k"
    and "\<exists>h k'. sp_async_logger sp n ss k = Inr (h, k') \<and> name_of h = n \<and> registered k' = registered k"
    and "registered (sp_sink_set_level sp s v k) = registered k" "registered (sp_set_level sp h v k) = registered k"
    and "registered (sp_set_pattern sp h p k) = registered k"
  using assms unfolding registry_documented_def creation_ok_def by (metis surj_pair)+

lemma create_main_law:
  assumes "registry_documented sp name_of registered" and "creation_ok sp"
  shows "\<exists>h k'. create_main sp (l, k) = Inr (l\<lparr>main_logger := Some h\<rparr>, k') \<and>
     name_of h = ''order_engine'' \<and> registered k' = registered k"
proof -
  note laws = creation_laws [OF assms]
  obtain s1 k1 where k1: "sp_daily_file_sink sp ''logs/order_engine'' 23 59 k = Inr (s1, k1)" "registered k1 = registered k"
    using laws(2) by blast
  obtain s2 k2 where k2: "sp_console_sink sp (sp_sink_set_level sp s1 Sp_trace k1) = Inr (s2, k2)" "registered k2 = registered k"
    using laws(3) [of "sp_sink_set_level sp s1 Sp_trace k1"] laws(5) k1(2) by auto
  obtain h k3 where "sp_async_logger sp ''order_engine'' [s1, s2] (sp_sink_set_level sp s2 Sp_info k2) = Inr (h, k3)"
    "name_of h = ''order_engine''" "registered k3 = registered k"
    using laws(4) [of "''order_engine''" "[s1, s2]" "sp_sink_set_level sp s2 Sp_info k2"] laws(5) k2(2) by auto
  with k1 k2 show ?thesis by (auto simp: create_main_def attempt_def laws(5-7) intro!: exI [of _ h])
qed

lemma create_all_law:
  assumes "registry_documented sp name_of registered" and "creation_ok sp"
  shows "\<exists>l' k'. create_all sp (l, k) = Inr (l', k') \<and> named_members name_of l' \<and> registered k' = registered k"
proof -
  note laws = creation_laws [OF assms]
  have named: "\<exists>s x1 h x2. sp_daily_file_sink sp f 23 59 x = Inr (s, x1) \<and>
      sp_async_logger sp n [s] x1 = Inr (h, x2) \<and> name_of h = n \<and> registered x2 = registered x" for f n x
    using laws(2) [of f 23 59 x] laws(4) by metis
  obtain u k1 where k1: "sp_init_thread_pool sp 8192 1 k = Inr (u, k1)" "registered k1 = registered k"
    using laws(1) by blast
  obtain hm k2 where k2: "create_main sp (l, k1) = Inr (l\<lparr>main_logger := Some hm\<rparr>, k2)"
    "name_of hm = ''order_engine''" "registered k2 = registered k1" using create_main_law [OF assms] by blast
  from named [of "''logs/performance''" k2 "''performance''"] obtain k3 hp where
    k3: "create_perf sp (l\<lparr>main_logger := Some hm\<rparr>, k2) = Inr (l\<lparr>main_logger := Some hm, perf_logger := Some hp\<rparr>, k3)"
      "name_of hp = ''performance''" "registered k3 = registered k2" by (auto simp: create_perf_def attempt_def laws(7))
  from named [of "''logs/business''" k3 "''business''"] obtain k4 hb where
    k4: "create_business sp (l\<lparr>main_logger := Some hm, perf_logger := Some hp\<rparr>, k3) =
        Inr (l\<lparr>main_logger := Some hm, perf_logger := Some hp, business_logger := Some hb\<rparr>, k4)"
      "name_of hb = ''business''" "registered k4 = registered k3" by (auto simp: create_business_def attempt_def laws(7))
  from k1 k2 k3 k4 show ?thesis by (simp add: create_all_def attempt_def named_members_def)
qed

lemma register_member_law:
  assumes "registry_documented sp name_of registered" and "map_option name_of (member l) = Some n"
  shows "\<exists>k'. register_member sp member (l, k) = (if n \<in> registered k then Inl (l, k') else Inr (l, k')) \<and>
     registered k' = insert n (registered k)"
proof -
  obtain h where h: "member l = Some h" "name_of h = n" using assms(2) by auto
  have "case sp_register_logger sp h k of
        Inl k' \<Rightarrow> name_of h \<in> registered k \<and> registered k' = registered k
      | Inr (_, k') \<Rightarrow> name_of h \<notin> registered k \<and> registered k' = insert (name_of h) (registered k)"
    using assms(1) by (simp add: registry_documented_def)
  with h show ?thesis
    by (auto simp: register_member_def attempt_def insert_absorb split: sum.splits prod.splits)
qed

lemma register_all_law:
  assumes "registry_documented sp name_of registered" and "named_members name_of l"
  shows "\<exists>k'. register_all sp (l, k) = (if registered k \<inter> logger_names = {} then Inr (l, k') else Inl (l, k')) \<and>
     ''order_engine'' \<in> registered k'"
proof -
  obtain k1 where k1: "register_member sp main_logger (l, k) =
      (if ''order_engine'' \<in> registered k then Inl (l, k1) else Inr (l, k1))" "registered k1 = insert ''order_engine'' (registered k)"
    using register_member_law [OF assms(1), of main_logger l "''order_engine''" k] assms(2) unfolding named_members_def by blast
  obtain k2 where k2: "register_member sp perf_logger (l, k1) =
      (if ''performance'' \<in> registered k1 then Inl (l, k2) else Inr (l, k2))" "registered k2 = insert ''performance'' (registered k1)"
    using register_member_law [OF assms(1), of perf_logger l "''performance''" k1] assms(2) unfolding named_members_def by blast
  obtain k3 where k3: "register_member sp business_logger (l, k2) =
      (if ''business'' \<in> registered k2 then Inl (l, k3) else Inr (l, k3))" "registered k3 = insert ''business'' (registered k2)"
    using register_member_law [OF assms(1), of business_logger l "''business''" k2] assms(2) unfolding named_members_def by blast
  show ?thesis using k1 k2 k3 by (auto simp: register_all_def logger_names_def)
qed

lemma logger_initialize_law:
  assumes "registry_documented sp name_of registered" and "creation_ok sp"
  shows "\<exists>l' k'. logger_initialize sp cfg (l, k) = (registered k \<inter> logger_names = {}, l', k') \<and>
     named_members name_of l' \<and> ''order_engine'' \<in> registered k'"
proof -
  obtain l1 k1 where c: "create_all sp (l, k) = Inr (l1, k1)" "named_members name_of l1" "registered k1 = registered k"
    using create_all_law [OF assms] by blast
  obtain k2 where r: "register_all sp (l1, k1) =
      (if registered k1 \<inter> logger_names = {} then Inr (l1, k2) else Inl (l1, k2))" "''order_engine'' \<in> registered k2"
    using register_all_law [OF assms(1) c(2)] by blast
  have "registered (sp_set_default_logger sp h k2) = registered k2" "registered (sp_log sp h v m a k2') = registered k2'"
    for h v m a k2' using assms(1) by (simp_all add: registry_documented_def)
  with c r show ?thesis
    by (auto simp: logger_initialize_eq log_main_def split: option.splits)
qed

text \<open>
  C35: initialising the logger works once per shutdown. Given that the sinks can be created, it
  succeeds exactly when none of the three names is registered; a second call without a shutdown
  in between reports failure, although it has replaced all three loggers by new, unregistered
  ones; after a shutdown it succeeds again.
\<close>

theorem initialize_once_per_shutdown:
  assumes "registry_documented sp name_of registered" and "creation_ok sp"
    and "logger_initialize sp cfg (l, k) = (ok, l1, k1)" and "logger_initialize sp cfg' (l1, k1) = (ok2, l2, k2)"
  shows "(ok \<longleftrightarrow> registered k \<inter> logger_names = {}) \<and> named_members name_of l1 \<and>
     \<not> ok2 \<and> named_members name_of l2 \<and>
     fst (logger_initialize sp cfg' (logger_shutdown sp (l1, k1)))"
proof -
  have first: "(ok \<longleftrightarrow> registered k \<inter> logger_names = {})" "named_members name_of l1" "''order_engine'' \<in> registered k1"
    using logger_initialize_law [OF assms(1,2), of cfg l k] assms(3) by auto
  then have "registered k1 \<inter> logger_names \<noteq> {}" by (auto simp: logger_names_def)
  then have second: "\<not> ok2" "named_members name_of l2"
    using logger_initialize_law [OF assms(1,2), of cfg' l1 k1] assms(4) by auto
  obtain k3 where "logger_shutdown sp (l1, k1) = (l1, k3)" "registered k3 = {}"
    using assms(1) by (simp add: logger_shutdown_def registry_documented_def)
  with logger_initialize_law [OF assms(1,2), of cfg' l1 k3] have "fst (logger_initialize sp cfg' (logger_shutdown sp (l1, k1)))"
    by auto
  with first second show ?thesis by blast
qed

section \<open>A logging library in memory\<close>

text \<open>Loggers are their names; the state is the registry, the records and the levels.\<close>

type_synonym memory_log = "string set \<times> (string \<Rightarrow> (spd_level \<times> string \<times> unit fmt_arg list) list) \<times> (string \<Rightarrow> spd_level)"

definition memory_spdlog :: "(string, string, unit, memory_log) spdlog" where
  "memory_spdlog = \<lparr>
     sp_init_thread_pool = (\<lambda>_ _ k. Inr ((), k)),
     sp_daily_file_sink = (\<lambda>f _ _ k. Inr (f, k)),
     sp_console_sink = (\<lambda>k. Inr (''console'', k)),
     sp_sink_set_level = (\<lambda>_ _ k. k),
     sp_async_logger = (\<lambda>n _ k. Inr (n, k)),
     sp_set_level = (\<lambda>h v (R, W, V). (R, W, V(h := v))),
     sp_set_pattern = (\<lambda>_ _ k. k),
     sp_register_logger = (\<lambda>h (R, W, V). if h \<in> R then Inl (R, W, V) else Inr ((), (insert h R, W, V))),
     sp_set_default_logger = (\<lambda>_ k. k),
     sp_log = (\<lambda>h v m a (R, W, V). (R, if spd_value (V h) \<le> spd_value v then W(h := W h @ [(v, m, a)]) else W, V)),
     sp_flush = (\<lambda>_ k. k),
     sp_shutdown = (\<lambda>(R, W, V). ({}, W, V))\<rparr>"

definition memory_written :: "memory_log \<Rightarrow> string \<Rightarrow> (spd_level \<times> string \<times> unit fmt_arg list) list" where
  "memory_written k = fst (snd k)"

definition memory_level :: "memory_log \<Rightarrow> string \<Rightarrow> spd_level" where
  "memory_level k = snd (snd k)"

lemma memory_documented: "spdlog_documented memory_spdlog memory_written memory_level"
  by (auto simp: spdlog_documented_def memory_spdlog_def memory_written_def memory_level_def)

lemma memory_registry: "registry_documented memory_spdlog (\<lambda>h. h) fst" "creation_ok memory_spdlog"
  by (auto simp: registry_documented_def creation_ok_def memory_spdlog_def)

definition memory_members :: "string logger" where
  "memory_members = \<lparr>main_logger = Some ''order_engine'', perf_logger = Some ''performance'', business_logger = Some ''business''\<rparr>"

definition memory_start :: memory_log where
  "memory_start = ({}, \<lambda>_. [], \<lambda>_. Sp_info)"

definition demo_calls :: "unit log_call list" where
  "demo_calls = [Message DEBUG_LEVEL ''a'', Message INFO ''b'', SetLevel WARN, InfoFmt ''c {}'' ''x'', Perf ''op'' (),
     Message CRITICAL ''d'', SetLevel TRACE, Message TRACE ''e'']"

lemma demo_spec: "log_spec INFO demo_calls = [(Sp_info, ''b'', []), (Sp_critical, ''d'', []), (Sp_trace, ''e'', [])]"
  by (simp add: demo_calls_def kept_def less_eq_log_level_def)

lemma memory_facts: "main_logger memory_members = Some ''order_engine''"
  "memory_level memory_start ''order_engine'' = spdlog_level INFO"
  "perf_logger memory_members \<noteq> Some ''order_engine''" "business_logger memory_members \<noteq> Some ''order_engine''"
  by (simp_all add: memory_members_def memory_start_def memory_level_def)

theorem log_filtered_by_level_witness:
  "\<exists>k'. fold (do_call memory_spdlog) demo_calls (memory_members, memory_start) = (memory_members, k') \<and>
     memory_written k' ''order_engine'' = [(Sp_info, ''b'', []), (Sp_critical, ''d'', []), (Sp_trace, ''e'', [])]"
proof -
  have start: "memory_written memory_start ''order_engine'' = []" by (simp add: memory_start_def memory_written_def)
  obtain k' where "fold (do_call memory_spdlog) demo_calls (memory_members, memory_start) = (memory_members, k')"
    "memory_written k' ''order_engine'' = memory_written memory_start ''order_engine'' @ log_spec INFO demo_calls"
    using log_filtered_by_level [where written = memory_written and level_of = memory_level and k = memory_start and v = INFO
        and l = memory_members and h = "''order_engine''" and calls = demo_calls, OF memory_documented memory_facts]
    by (elim exE conjE)
  then show ?thesis unfolding demo_spec start append_Nil by (intro exI conjI)
qed

theorem initialize_once_per_shutdown_witness:
  "\<exists>l1 k1 l2 k2. logger_initialize memory_spdlog ''server.conf'' (new_logger, memory_start) = (True, l1, k1) \<and>
     logger_initialize memory_spdlog ''server.conf'' (l1, k1) = (False, l2, k2) \<and> main_logger l2 = Some ''order_engine''"
proof -
  obtain ok l1 k1 where one: "logger_initialize memory_spdlog ''server.conf'' (new_logger, memory_start) = (ok, l1, k1)"
    by (metis surj_pair)
  obtain ok2 l2 k2 where two: "logger_initialize memory_spdlog ''server.conf'' (l1, k1) = (ok2, l2, k2)"
    by (metis surj_pair)
  from initialize_once_per_shutdown [OF memory_registry one two] have "ok" "\<not> ok2" "main_logger l2 = Some ''order_engine''"
    by (auto simp: memory_start_def named_members_def)
  with one two show ?thesis by (cases k2) auto
qed

end
