(* ===== verification/Application.thy ===== *)
theory Application
  imports ServerLife Config Logger
begin

text \<open>
  The application, \<^verbatim>\<open>src/main.cpp\<close>: initialisation from a configuration file, the echo
  handler, the main loop, shutdown and \<^verbatim>\<open>main()\<close>. The one logger of the program is set up by
  \<open>initialize\<close> and closed by \<open>shutdown\<close>; the lines written to it are left out. The closures given
  to the server are the only values of the datatypes \<open>app_message\<close> and \<open>app_connection\<close>.
\<close>

section \<open>State and operations\<close>

datatype app_message = HandleMessage
datatype app_connection = HandleConnection

record application =
  app_running :: bool
  stats_counter :: cint
  app_config :: "config option"
  tcp_server :: "(app_message, app_connection) tcp_server option"

definition new_application :: application where
  "new_application = \<lparr>app_running = True, stats_counter = 0, app_config = None, tcp_server = None\<rparr>"

text \<open>
  The port is an \<^verbatim>\<open>int\<close> in the configuration and a \<^verbatim>\<open>uint16_t\<close> in the server: the argument
  is converted without a check.
\<close>

definition initialize :: "('h, 's, 'd, 'l) spdlog \<Rightarrow> (string \<Rightarrow> string option) \<Rightarrow> cint \<Rightarrow> string \<Rightarrow>
    application \<times> ('h, 'l) log_state \<Rightarrow> (bool \<times> application \<times> ('h, 'l) log_state) outcome" where
  "initialize sp read_file hw file al = (case al of (app, lk) \<Rightarrow>
     (case logger_initialize sp file lk of (logger_ok, lk) \<Rightarrow>
      if \<not> logger_ok then Inr (False, app, lk)
      else obind (load read_file file empty_config) (\<lambda>(ok, c).
        let app = app\<lparr>app_config := Some c\<rparr>
        in if \<not> ok then Inr (False, app, lk)
           else let server_ip = getString c ''server.ip'' ''0.0.0.0'';
                    server_port = getInt c ''server.port'' 8080;
                    threads = getInt c ''server.thread_num'' 4;
                    s = new_server server_ip (ucast server_port) threads hw
             in Inr (True, app\<lparr>tcp_server :=
                  Some (setConnectionCallback HandleConnection (srv_setMessageCallback HandleMessage s))\<rparr>, lk))))"

definition handleMessage :: "'k build \<Rightarrow> app_message \<Rightarrow> conn_ptr \<Rightarrow> string \<Rightarrow>
    ('k, app_message, 'u, 'z) world_op" where
  "handleMessage b cb cn message w = obind (send b cn (''Echo: '' @ message) w) (\<lambda>(n, w). Inr w)"

text \<open>The connection handler only writes a log line.\<close>

definition handleConnection :: "app_connection \<Rightarrow> conn_ptr \<Rightarrow> ('k, 'm, app_connection, 'z) world_op" where
  "handleConnection cb cn w = obind (get_conn cn w) (\<lambda>x. Inr w)"

definition printStats :: "('k, 'm, 'u, 'z) world_op" where
  "printStats w = obind (getConnectionCount w) (\<lambda>_. Inr w)"

text \<open>
  One round of the main loop. \<open>sleep\<close> stands for what the other threads do in the second the
  main thread sleeps. Incrementing the largest \<^verbatim>\<open>int\<close> is undefined.
\<close>

type_synonym ('k, 'z, 'h, 'l) app_world =
  "application \<times> ('h, 'l) log_state \<times> ('k, app_message, app_connection, 'z) snet_scheme"

definition main_round :: "(('k, 'z, 'h, 'l) app_world \<Rightarrow> ('k, 'z, 'h, 'l) app_world outcome) \<Rightarrow>
    ('k, 'z, 'h, 'l) app_world \<Rightarrow> ('k, 'z, 'h, 'l) app_world outcome" where
  "main_round sleep aw = obind (sleep aw) (\<lambda>(app, lk, w).
     if sint (stats_counter app) = 2 ^ 31 - 1 then Inl Undefined
     else let app = app\<lparr>stats_counter := stats_counter app + 1\<rparr>
       in obind (if cpp_rem (sint (stats_counter app)) 60 = 0 then printStats w else Inr w) (\<lambda>w. Inr (app, lk, w)))"

definition main_loop :: "(('k, 'z, 'h, 'l) app_world \<Rightarrow> ('k, 'z, 'h, 'l) app_world outcome) \<Rightarrow>
    ('k, 'z, 'h, 'l) app_world \<Rightarrow> ('k, 'z, 'h, 'l) app_world outcome option" where
  "main_loop sleep = owhile (\<lambda>(app, lk, w). app_running app) (main_round sleep)"

definition app_stop :: "application \<Rightarrow> application" where
  "app_stop app = app\<lparr>app_running := False\<rparr>"

text \<open>\<^verbatim>\<open>shutdown()\<close> stops the server and closes the logs.\<close>

definition shutdown :: "'k build \<Rightarrow> ('h, 's, 'd, 'l) spdlog \<Rightarrow> thread_id \<Rightarrow> (reactor_ptr \<Rightarrow> ('k, app_message, app_connection, 'z) world_op) \<Rightarrow>
    ('k, 'z, 'h, 'l) app_world \<Rightarrow> ('k, 'z, 'h, 'l) app_world outcome" where
  "shutdown b sp me join aw = (case aw of (app, lk, w) \<Rightarrow>
     obind (case tcp_server app of None \<Rightarrow> Inr w | Some _ \<Rightarrow> stop b me join handleConnection w)
       (\<lambda>w. Inr (app, logger_shutdown sp lk, w)))"

text \<open>
  \<^verbatim>\<open>run()\<close>. The signal handlers it installs print a line and do nothing else. The server object
  that \<open>initialize\<close> created becomes the server of the world.
\<close>

definition run :: "'k build \<Rightarrow> ('h, 's, 'd, 'l) spdlog \<Rightarrow> thread_id \<Rightarrow> (reactor_ptr \<Rightarrow> ('k, app_message, app_connection, 'z) world_op) \<Rightarrow>
    (('k, 'z, 'h, 'l) app_world \<Rightarrow> ('k, 'z, 'h, 'l) app_world outcome) \<Rightarrow> ('k, 'z, 'h, 'l) app_world \<Rightarrow>
    ('k, 'z, 'h, 'l) app_world outcome option" where
  "run b sp me join sleep aw = (case aw of (app, lk, w) \<Rightarrow>
     (case tcp_server app of
        None \<Rightarrow> Some (Inl Undefined)
      | Some s \<Rightarrow> (case start b me (w\<lparr>server := s\<rparr>) of
            Inl e \<Rightarrow> Some (Inl e)
          | Inr (False, w) \<Rightarrow> Some (Inr (app, lk, w))
          | Inr (True, w) \<Rightarrow> map_option (\<lambda>res. obind res (shutdown b sp me join)) (main_loop sleep (app, lk, w)))))"

text \<open>
  \<^verbatim>\<open>main()\<close>: the exit code. \<open>args\<close> is \<^verbatim>\<open>argv\<close>. An exception derived from \<^verbatim>\<open>std::exception\<close>
  that leaves the application is caught; the application's destructor runs when the block ends.
\<close>

definition catch_std :: "int outcome \<Rightarrow> int outcome" where
  "catch_std res = (if res = Inl OutOfRange \<or> res = Inl InvalidArgument then Inr 1 else res)"

definition destroy_application :: "'k build \<Rightarrow> thread_id \<Rightarrow>
    (reactor_ptr \<Rightarrow> ('k, app_message, app_connection, 'z) world_op) \<Rightarrow>
    ('k, 'z, 'h, 'l) app_world \<Rightarrow> ('k, 'z, 'h, 'l) app_world outcome" where
  "destroy_application b me join aw = (case aw of (app, lk, w) \<Rightarrow>
     obind (case tcp_server app of None \<Rightarrow> Inr w | Some _ \<Rightarrow> destroy_server b me join handleConnection w)
       (\<lambda>w. Inr (app, lk, w)))"

definition main :: "'k build \<Rightarrow> ('h, 's, 'd, 'l) spdlog \<Rightarrow> thread_id \<Rightarrow> (reactor_ptr \<Rightarrow> ('k, app_message, app_connection, 'z) world_op) \<Rightarrow>
    (('k, 'z, 'h, 'l) app_world \<Rightarrow> ('k, 'z, 'h, 'l) app_world outcome) \<Rightarrow> (string \<Rightarrow> string option) \<Rightarrow> cint \<Rightarrow>
    string list \<Rightarrow> ('h, 'l) log_state \<times> ('k, app_message, app_connection, 'z) snet_scheme \<Rightarrow> int outcome option" where
  "main b sp me join sleep read_file hw args lw = (case lw of (lk, w) \<Rightarrow>
     if length args \<noteq> 2 then Some (Inr 1)
     else case initialize sp read_file hw (args ! 1) (new_application, lk) of
        Inl e \<Rightarrow> Some (catch_std (Inl e))
      | Inr (False, al) \<Rightarrow> Some (Inr 1)
      | Inr (True, app, lk) \<Rightarrow> map_option (\<lambda>res. catch_std (obind res (\<lambda>aw.
            obind (destroy_application b me join aw) (\<lambda>_. Inr 0)))) (run b sp me join sleep (app, lk, w)))"

section \<open>Initialisation\<close>

lemma to_string_int_chars: "c \<in> set (to_string_int w) \<Longrightarrow> is_digit c \<or> c = CHR ''-''"
  by (auto simp: to_string_int_def Let_def nat_digits_digits split: if_splits)

lemma digit_not_blank: "is_digit c \<or> c = CHR ''-'' \<Longrightarrow> c \<notin> set line_blanks \<and> c \<notin> set item_blanks \<and> c \<noteq> newline"
  by (auto simp: is_digit_def line_blanks_def item_blanks_def)

lemma wf_value_int: "wf_value (to_string_int w)"
proof -
  let ?s = "to_string_int w"
  have ok: "c \<notin> set line_blanks \<and> c \<notin> set item_blanks \<and> c \<noteq> newline" if "c \<in> set ?s" for c
    using digit_not_blank [OF to_string_int_chars [OF that]] .
  have "hd ?s \<in> set ?s" "last ?s \<in> set ?s" by simp_all
  from ok [OF this(1)] ok [OF this(2)] have "hd ?s \<notin> set item_blanks" "last ?s \<notin> set line_blanks" by blast+
  moreover have "newline \<notin> set ?s" using ok by blast
  ultimately show ?thesis unfolding wf_value_def by blast
qed

definition server_file :: "string \<Rightarrow> cint \<Rightarrow> cint \<Rightarrow> string" where
  "server_file ip port threads = render_ini [(''server'', [(''ip'', ip),
     (''port'', to_string_int port), (''thread_num'', to_string_int threads)])]"

lemma server_file_meaning:
  assumes "wf_value ip"
  shows "ini_meaning (server_file ip port threads) = [''server.ip'' \<mapsto> ip,
     ''server.port'' \<mapsto> to_string_int port, ''server.thread_num'' \<mapsto> to_string_int threads]"
proof -
  have "wf_key ''ip'' \<and> wf_key ''port'' \<and> wf_key ''thread_num'' \<and> wf_section ''server''" by code_simp
  then have "wf_sections [(''server'', [(''ip'', ip), (''port'', to_string_int port),
      (''thread_num'', to_string_int threads)])]"
    using assms wf_value_int by (simp add: wf_sections_def)
  from ini_meaning_render [OF this] show ?thesis
    by (simp add: server_file_def flat_items_def full_key_def fun_upd_twist)
qed

lemma uint_ucast_port: "uint (ucast (port :: cint) :: u16) = sint port mod 65536"
proof -
  have "uint (ucast port :: u16) = take_bit 16 (uint port)" by (simp add: unsigned_ucast_eq)
  also have "uint port = take_bit 32 (sint port)" using uint_sint [of port] by simp
  finally show ?thesis by (simp add: take_bit_eq_mod mod_mod_cancel)
qed

text \<open>
  C38: the server that \<^verbatim>\<open>initialize\<close> creates is the one the file describes: its address, its
  number of threads (the hardware's when the file asks for none or fewer), and its port modulo
  65536; a port that does not fit is truncated without an error. When the logger cannot be set
  up nothing else happens.
\<close>

theorem initialize_from_file:
  assumes "wf_value ip" and "ip \<noteq> []" and "read_file file = Some (server_file ip port threads)"
    and "logger_initialize sp file lk = (logger_ok, lk')"
  shows "\<exists>app'. initialize sp read_file hw file (app, lk) = Inr (logger_ok, app', lk') \<and>
     (if logger_ok then \<exists>s. tcp_server app' = Some s \<and>
        srv_ip s = ip \<and> uint (srv_port s) = sint port mod 65536 \<and>
        thread_num s = (if sint threads \<le> 0 then hw else threads) \<and>
        \<not> running s \<and> connections s = []
      else app' = app)"
proof -
  let ?c = "\<lparr>configs = ini_meaning (server_file ip port threads), config_file = file\<rparr>"
  have load: "load read_file file empty_config = Inr (True, ?c)" using assms(3) by (simp add: load_eq)
  have "getString ?c ''server.ip'' ''0.0.0.0'' = ip" "getInt ?c ''server.port'' 8080 = port"
    "getInt ?c ''server.thread_num'' 4 = threads"
    using assms(2) stoi_to_string_int
    by (simp_all add: server_file_meaning [OF assms(1)] getString_def getInt_def getValue_def)
  moreover have "uint (ucast port :: u16) = sint port mod 65536" by (rule uint_ucast_port)
  ultimately show ?thesis
    by (simp add: initialize_def load assms(4) Let_def new_server_def setConnectionCallback_def srv_setMessageCallback_def)
qed

text \<open>The logger of the witnesses starts with no name registered.\<close>

lemma memory_ready: "\<exists>lk. logger_initialize memory_spdlog file (new_logger, memory_start) = (True, lk)"
  by (simp add: logger_initialize_def attempt_def create_main_def create_perf_def create_business_def
      register_member_def memory_spdlog_def new_logger_def memory_start_def del: split_paired_Ex)

theorem initialize_from_file_witness:
  "\<exists>app' s lk'. initialize memory_spdlog [''a.conf'' \<mapsto> server_file ''127.0.0.1'' 70000 0] 8 ''a.conf''
       (new_application, new_logger, memory_start) = Inr (True, app', lk') \<and>
     tcp_server app' = Some s \<and> uint (srv_port s) = 4464 \<and> thread_num s = 8"
proof -
  have wf: "wf_value ''127.0.0.1''" by code_simp
  have readable: "[''a.conf'' \<mapsto> server_file ''127.0.0.1'' 70000 0] ''a.conf'' = Some (server_file ''127.0.0.1'' 70000 0)"
    by simp
  obtain lk' where lk': "logger_initialize memory_spdlog ''a.conf'' (new_logger, memory_start) = (True, lk')"
    using memory_ready by blast
  have "sint (70000 :: cint) mod 65536 = 4464" by simp
  with initialize_from_file [where read_file = "[''a.conf'' \<mapsto> server_file ''127.0.0.1'' 70000 0]"
      and hw = 8 and app = new_application, OF wf _ readable lk']
  show ?thesis by (auto simp del: split_paired_Ex)
qed

section \<open>The echo\<close>

lemma echo_law:
  assumes doc: "socket_documented (os b) sent" and x: "conns w cn = Some x" and st: "state x = kConnected"
    and mcb: "message_callback x = Some HandleMessage" and inp: "input_buffer x = []"
    and t: "sys_time (os b) (kernel w) = (t, k0)"
    and rd: "sys_read (os b) (sockfd x) kBufferSize k0 = ((n, buf), k)" and n: "0 < n" "n \<le> int kBufferSize"
  shows "\<exists>w' x'. handleRead b (handleMessage b) on_close cn w = Inr w' \<and> conns w' cn = Some x' \<and>
     input_buffer x' = [] \<and> reactors w' = reactors w \<and>
     (stream_of sent cn w' = stream_of sent cn w @ ''Echo: '' @ take (nat n) buf \<or>
      fatal_errno (os b) \<and> stream_of sent cn w' = stream_of sent cn w)"
proof -
  let ?x = "x\<lparr>last_active_time := t, input_buffer := take (nat n) buf\<rparr>"
  let ?w = "w\<lparr>kernel := k, conns := (conns w)(cn \<mapsto> ?x)\<rparr>" and ?msg = "''Echo: '' @ take (nat n) buf"
  have "length (take (nat n) buf) \<le> kBufferSize" using n by auto
  then have len: "int (length ?msg) < 2 ^ 64" by (simp add: kBufferSize_def)
  have "sent k = sent (kernel w)" using socket_quiet(1) [OF doc t] socket_quiet(2) [OF doc rd] by simp
  then have same: "stream_of sent cn ?w = stream_of sent cn w" using x by (simp add: stream_of_def)
  have "conns ?w cn = Some ?x" by simp
  from send_law [OF doc this len] obtain m v y where
    v: "send b cn ?msg ?w = Inr (m, v)" "conn_touched cn ?x y ?w v"
      "stream_of sent cn v = stream_of sent cn ?w \<and> fatal_errno (os b) \<or>
       stream_of sent cn v = stream_of sent cn ?w @ ?msg" using st by auto
  let ?w' = "v\<lparr>conns := (conns v)(cn \<mapsto> y\<lparr>input_buffer := []\<rparr>)\<rparr>"
  have cv: "conns v cn = Some y" using conn_touchedD(1) [OF v(2)] by simp
  have "handleRead b (handleMessage b) on_close cn w = Inr ?w'"
    using x mcb inp n(1) v(1) cv
    by (simp add: handleRead_def updateLastActiveTime_eq [OF x] t rd handleMessage_def)
  moreover have "stream_of sent cn ?w' = stream_of sent cn v" using cv by (simp add: stream_of_def)
  ultimately show ?thesis using v(3) same conn_touchedD(3) [OF v(2)]
    by (intro exI [of _ ?w'] exI [of _ "y\<lparr>input_buffer := []\<rparr>"]) auto
qed


text \<open>The socket kernel of the connection theory, with a poll that reports channel 5.\<close>

definition echo_build :: "sock_kernel build" where
  "echo_build = sock_build\<lparr>os := sock_os\<lparr>sys_epoll_wait := (\<lambda>_ _ _ k. (Some [(EPOLLIN, 5)], k))\<rparr>\<rparr>"

definition echo_conn :: "(app_message, close_cb) tcp_connection" where
  "echo_conn = (accepted_conn 6 \<lparr>sin_addr = 0, sin_port = 0\<rparr> 0 (Some HandleMessage))\<lparr>state := kConnected\<rparr>"

definition echo_net :: "(sock_kernel, app_message, app_connection) snet" where
  "echo_net = \<lparr>kernel = (\<lambda>_. [], \<lambda>_. [], [''hi'']), heap = [5 \<mapsto> setReadCallback (OnRead 2) (new_channel 10 6)],
     reactors = [10 \<mapsto> srv_reactor], next_chan = 6, conns = [2 \<mapsto> echo_conn],
     server = new_server ''0.0.0.0'' 8080 2 4, next_conn = 3, next_rptr = 11\<rparr>"


section \<open>The program\<close>

text \<open>A server that has not been started.\<close>

definition idle :: "('m, 'u) tcp_server \<Rightarrow> bool" where
  "idle s \<longleftrightarrow> \<not> running s \<and> main_reactor s = None \<and> sub_reactors s = [] \<and> reactor_threads s = [] \<and>
     main_thread s = None \<and> accept_channel s = None \<and> connections s = [] \<and> \<not> connections_locked s"

lemma initialize_cases:
  obtains (failed) al where "initialize sp read_file hw file (new_application, lk) = Inr (False, al)"
  | (ready) app' lk' s where "initialize sp read_file hw file (new_application, lk) = Inr (True, app', lk')"
      "app_running app'" "tcp_server app' = Some s" "idle s"
proof -
  obtain ok lk' where log: "logger_initialize sp file lk = (ok, lk')" by (rule prod.exhaust)
  show thesis
  proof (cases "ok \<and> read_file file \<noteq> None")
    case True
    then obtain contents where "ok" "read_file file = Some contents" by auto
    then have "\<exists>app' s. initialize sp read_file hw file (new_application, lk) = Inr (True, app', lk') \<and>
        app_running app' \<and> tcp_server app' = Some s \<and> idle s"
      by (simp add: initialize_def log load_eq Let_def new_application_def new_server_def idle_def
          setConnectionCallback_def srv_setMessageCallback_def)
    then show thesis using ready by blast
  next
    case False
    then have "\<exists>al. initialize sp read_file hw file (new_application, lk) = Inr (False, al)"
      by (auto simp: initialize_def log load_eq Let_def)
    then show thesis using failed by blast
  qed
qed

lemma main_loop_not_returns:
  assumes "\<And>aw aw'. sleep aw = Inr aw' \<Longrightarrow> app_running (fst aw') = app_running (fst aw)"
    and "app_running app" and "main_loop sleep (app, lw) = Some res"
  shows "\<exists>e. res = Inl e"
proof (rule owhile_not_returns)
  show "owhile (\<lambda>(app, lk, w). app_running app) (main_round sleep) (app, lw) = Some res"
    using assms(3) by (simp add: main_loop_def)
  show "app_running (fst (app, lw))" using assms(2) by simp
  show "app_running (fst t)" if "app_running (fst s)" "main_round sleep s = Inr t" for s t
  proof -
    from that(2) obtain aw where "sleep s = Inr aw" "app_running (fst t) = app_running (fst aw)"
      by (auto simp: main_round_def Let_def elim!: outcome_elims split: if_splits)
    with that(1) assms(1) show ?thesis by blast
  qed
qed (simp add: split_def)

lemma start_refused:
  assumes "start b me w = Inr (False, w')"
  shows "\<exists>fd. server w' = (server w)\<lparr>listen_fd := fd\<rparr> \<and> \<not> running (server w)"
proof -
  obtain res fd k where l: "open_listener b w = (res, on_server (\<lambda>s. s\<lparr>listen_fd := fd\<rparr>) (w\<lparr>kernel := k\<rparr>))"
    using open_listener_frame [of b w] by auto
  with assms show ?thesis
    by (cases res) (auto simp: start_def alloc_channel_def Let_def elim!: outcome_elims split: prod.splits if_splits)
qed

lemma destroy_unstarted:
  assumes "tcp_server app = Some s" and "server w = s\<lparr>listen_fd := fd\<rparr>" and "idle s"
  shows "destroy_application b me join (app, lk, w) = Inr (app, lk, w)"
  using assms by (simp add: destroy_application_def destroy_server_def stop_def idle_def)

lemma run_returnsD:
  assumes "\<forall>aw aw'. sleep aw = Inr aw' \<longrightarrow> app_running (fst aw') = app_running (fst aw)"
    and "run b sp me join sleep (app, lk, w) = Some (Inr aw)" and "app_running app" and "tcp_server app = Some s"
  shows "\<exists>w'. start b me (w\<lparr>server := s\<rparr>) = Inr (False, w') \<and> aw = (app, lk, w')"
proof (cases "start b me (w\<lparr>server := s\<rparr>)")
  case (Inr bw)
  obtain ok w' where bw: "bw = (ok, w')" by force
  have "\<not> ok"
  proof
    assume ok
    then obtain res where "main_loop sleep (app, lk, w') = Some res" "obind res (shutdown b sp me join) = Inr aw"
      using assms(2,4) bw Inr by (auto simp: run_def)
    with main_loop_not_returns [of sleep app "(lk, w')" res] assms(1,3) show False by (auto elim!: outcome_elims)
  qed
  with Inr bw assms(2,4) show ?thesis by (simp add: run_def)
qed (use assms(2,4) in \<open>simp add: run_def\<close>)

text \<open>
  C33: how the program can end. As long as nothing clears the running flag while the main thread
  sleeps (no code of the program calls \<^verbatim>\<open>OrderEngineApplication::stop()\<close>, the signal handlers
  only print a line), \<^verbatim>\<open>main()\<close> returns 1 for a wrong number of arguments, a failed
  initialisation (of the logger or of the configuration) or a standard exception, and 0 only
  when the server could not be started: once started it does not return, and a refused start is
  reported as success.
\<close>

theorem main_exit_codes:
  assumes "\<forall>aw aw'. sleep aw = Inr aw' \<longrightarrow> app_running (fst aw') = app_running (fst aw)"
    and "main b sp me join sleep read_file hw args (lk, w) = Some (Inr code)"
  shows "code = 1 \<and> length args \<noteq> 2 \<or>
     code = 1 \<and> (\<exists>al. initialize sp read_file hw (args ! 1) (new_application, lk) = Inr (False, al)) \<or>
     (\<exists>app lk' s. initialize sp read_file hw (args ! 1) (new_application, lk) = Inr (True, app, lk') \<and> tcp_server app = Some s \<and>
        (code = 0 \<and> (\<exists>w'. start b me (w\<lparr>server := s\<rparr>) = Inr (False, w')) \<or>
         code = 1 \<and> (\<exists>e \<in> {OutOfRange, InvalidArgument}. run b sp me join sleep (app, lk', w) = Some (Inl e))))"
proof (cases "length args = 2")
  case True
  show ?thesis
  proof (cases rule: initialize_cases [of sp read_file hw "args ! 1" lk])
    case (failed al)
    with assms(2) True show ?thesis by (simp add: main_def del: split_paired_Ex)
  next
    case (ready app lk' s)
    obtain res where res: "run b sp me join sleep (app, lk', w) = Some res"
      "catch_std (obind res (\<lambda>aw. obind (destroy_application b me join aw) (\<lambda>_. Inr 0))) = Inr code"
      using assms(2) True ready by (auto simp: main_def)
    show ?thesis
    proof (cases res)
      case (Inl e)
      with res ready show ?thesis by (auto simp: catch_std_def split: if_splits)
    next
      case (Inr aw)
      with run_returnsD [OF assms(1) _ ready(2,3)] res(1)
      obtain w' where w': "start b me (w\<lparr>server := s\<rparr>) = Inr (False, w')" "aw = (app, lk', w')" by blast
      from start_refused [OF w'(1)] obtain fd where "server w' = s\<lparr>listen_fd := fd\<rparr>" by auto
      from destroy_unstarted [OF ready(3) this ready(4)] have
        "destroy_application b me join (app, lk', w') = Inr (app, lk', w')" .
      with res(2) Inr w'(2) have "code = 0" by (simp add: catch_std_def)
      with ready w' show ?thesis by blast
    qed
  qed
qed (use assms(2) in \<open>simp add: main_def\<close>)

text \<open>A program whose configuration names an address the system refuses to bind.\<close>

definition bare_net :: "(int \<times> int set, app_message, app_connection) snet" where
  "bare_net = \<lparr>kernel = (9, {}), heap = Map.empty, reactors = Map.empty, next_chan = 0, conns = Map.empty,
     server = new_server [] 0 1 1, next_conn = 0, next_rptr = 20\<rparr>"

definition conf_files :: "string \<Rightarrow> string option" where
  "conf_files = [''a.conf'' \<mapsto> server_file ''0.0.0.0'' 8080 2]"

lemma bare_refuses:
  "\<not> running s \<Longrightarrow> \<exists>w'. start (desk_build False) 7 (bare_net\<lparr>server := s\<rparr>) = Inr (False, w')"
  by (simp add: start_def open_listener_def listen_on_def bind_and_listen_def desk_build_def bare_net_def
      failing_os_def Let_def)

lemma main_demo:
  "main (desk_build False) memory_spdlog 7 ended Inr conf_files 4 [''engine'', ''a.conf''] ((new_logger, memory_start), bare_net) =
     Some (Inr 0)"
proof (cases rule: initialize_cases [of memory_spdlog conf_files 4 "''a.conf''" "(new_logger, memory_start)"])
  case (failed al)
  then show ?thesis using memory_ready [of "''a.conf''"]
    by (auto simp: initialize_def load_eq conf_files_def Let_def)
next
  case (ready app lk s)
  obtain w' where w': "start (desk_build False) 7 (bare_net\<lparr>server := s\<rparr>) = Inr (False, w')"
    using bare_refuses ready(4) by (auto simp: idle_def)
  obtain fd where "server w' = s\<lparr>listen_fd := fd\<rparr>" using start_refused [OF w'] by auto
  from destroy_unstarted [OF ready(3) this ready(4)] have
    "destroy_application (desk_build False) 7 ended (app, lk, w') = Inr (app, lk, w')" .
  with ready w' show ?thesis by (simp add: main_def run_def catch_std_def)
qed

theorem main_exit_codes_witness:
  "\<exists>app lk s w'. initialize memory_spdlog conf_files 4 ''a.conf'' (new_application, new_logger, memory_start) = Inr (True, app, lk) \<and>
     tcp_server app = Some s \<and> start (desk_build False) 7 (bare_net\<lparr>server := s\<rparr>) = Inr (False, w')"
  using main_exit_codes [OF _ main_demo] by (auto simp: conf_files_def)

end
