(* ===== verification/EngineThreads.thy ===== *)
theory EngineThreads
  imports ClientOutput ServerProgress Application
begin

text \<open>
  The order engine with all its threads: the application of \<^verbatim>\<open>src/main.cpp\<close> on the server. The
  echo and connection handlers keep the contract the server asks of an application, a successful
  start establishes the invariant of the threads, and the theorems of the two theories before
  hold of the program.
\<close>

section \<open>The application's side of the contract\<close>

lemma handleConnection_law: "app_law (handleConnection :: app_connection \<Rightarrow> conn_ptr \<Rightarrow> ('k, 'm, app_connection, 'z) world_op)"
  by (auto simp: app_law_def handleConnection_def)

definition echo :: "app_message \<Rightarrow> string \<Rightarrow> string" where
  "echo cb message = ''Echo: '' @ message"

lemma handleMessage_law:
  assumes "socket_documented (os b) sent"
  shows "message_law sent echo (handleMessage b :: app_message \<Rightarrow> conn_ptr \<Rightarrow> string \<Rightarrow> ('k, app_message, 'u, 'z) world_op)"
  unfolding message_law_def
proof (intro allI impI)
  fix m cn x and msg :: string and w :: "('k, app_message, 'u, 'z) snet_scheme"
  assume "conns w cn = Some x \<and> length msg \<le> kBufferSize"
  then have x: "conns w cn = Some x" and "int (length (echo m msg)) < 2 ^ 64"
    by (auto simp: echo_def kBufferSize_def)
  from send_law [OF assms this] obtain n w' x' where
    w': "send b cn (echo m msg) w = Inr (n, w')" "conn_touched cn x x' w w'" "state x' = state x"
    "\<forall>fd. fd \<noteq> sockfd x \<longrightarrow> sent (kernel w') fd = sent (kernel w) fd"
    "stream_of sent cn w' = stream_of sent cn w \<or>
     stream_of sent cn w' = stream_of sent cn w @ echo m msg \<and> state x = kConnected" by blast
  have "handleMessage b m cn msg w = Inr w'" using w'(1) by (simp add: handleMessage_def echo_def)
  moreover have "conns w' = (conns w)(cn \<mapsto> x')" "same_conn x x'"
    using conn_touchedD [OF w'(2)] by (auto simp: same_conn_def)
  ultimately show "\<exists>w' x' d. handleMessage b m cn msg w = Inr w' \<and> net_same w w' \<and> conns w' = (conns w)(cn \<mapsto> x') \<and>
        same_conn x x' \<and> state x' = state x \<and> speaks sent cn x d w w' \<and> (d = [] \<or> state x = kConnected \<and> d = echo m msg)"
    using w' conn_touched_net [OF w'(2)] unfolding speaks_def by (metis append_Nil2)
qed

interpretation engine: server_application b sent echo "handleMessage b" handleConnection for b sent
  by unfold_locales (simp_all add: handleConnection_law handleMessage_law)

text \<open>The steps of the program's threads.\<close>

abbreviation engine_op :: "'k build \<Rightarrow> thread_id \<Rightarrow> (reactor_ptr \<Rightarrow> thread_id) \<Rightarrow> 'k server_event \<Rightarrow>
    ('k, app_message, app_connection, 'z) sthreads \<Rightarrow> ('k, app_message, app_connection, 'z) sthreads outcome" where
  "engine_op b tm tr \<equiv> server_op b tm tr (handleMessage b) handleConnection"

abbreviation engine_reach :: "'k build \<Rightarrow> thread_id \<Rightarrow> (reactor_ptr \<Rightarrow> thread_id) \<Rightarrow>
    ('k, app_message, app_connection, 'z) sthreads \<Rightarrow> bool" where
  "engine_reach b tm tr \<equiv> reach (server_init b tm tr) (server_step b tm tr (handleMessage b) handleConnection)"

lemma engine_inv:
  assumes "socket_documented (os b) sent" and "read_documented (os b)" and "engine_reach b tm tr s"
  shows "server_inv b tm tr s"
  using engine.threads.reach_inv [OF assms(3)] assms(1,2) by blast

section \<open>Starting\<close>

text \<open>
  The start of a server as \<^verbatim>\<open>initialize()\<close> leaves it, in a build without assertions and with the
  accepting loop in a thread other than the one that called \<^verbatim>\<open>start()\<close>, leaves the state in which
  the threads begin.
\<close>

lemma idle_starts:
  assumes s: "idle s" and "0 < sint (thread_num s)" and "conns w = Map.empty" and "open_listener b (w\<lparr>server := s\<rparr>) = (None, w1)"
    and "resources_ok b" and "ndebug b" and "tm \<noteq> me"
  shows "\<exists>w'. start b me (w\<lparr>server := s\<rparr>) = Inr (True, w') \<and> running (server w') \<and>
     length (sub_reactors (server w')) = nat (sint (thread_num s)) \<and>
     (\<forall>r \<in> set (sub_reactors (server w')). built (platform b) me w' r) \<and>
     server_init b tm tr \<lparr>sworld = w', accept_at = Waiting, taken = (\<lambda>_. None)\<rparr>"
proof -
  let ?w = "w\<lparr>server := s\<rparr>"
  have idle: "restartable b me ?w" "sub_reactors (server ?w) = []" using s by (simp_all add: idle_def restartable_def)
  let ?ids = "[Suc (next_rptr w)..<Suc (next_rptr w) + nat (sint (thread_num s))]"
  from start_law [OF idle(1) assms(4,5) refl refl] idle(2) obtain w' where
    w': "start b me ?w = Inr (True, w')" "running (server w')" "thread_num (server w') = thread_num s"
      "conns w' = conns w" "connections (server w') = connections s"
      "connections_locked (server w') = connections_locked s" "sub_reactors (server w') = ?ids"
      "\<forall>r \<in> insert (next_rptr w) (set ?ids). \<exists>R. reactors w' r = Some R \<and> fresh_reactor me (r_wakeup_channel R) R"
      "\<forall>r \<in> set ?ids. built (platform b) me w' r"
    by (simp del: upt_Suc) blast
  have "wf_pool (server w')" using w'(3,7) assms(2) by (simp add: wf_pool_def)
  moreover have "\<exists>R. reactors w' r = Some R \<and> \<not> isInLoopThread tm R \<and> may_touch b (tr r) R \<and> r_pending_tasks R = []"
    if "r \<in> set (sub_reactors (server w'))" for r
    using that w'(7,8) assms(6,7) unfolding fresh_reactor_def isInLoopThread_def may_touch_def by (metis insert_iff)
  moreover have "length (sub_reactors (server w')) = nat (sint (thread_num s))"
    "\<forall>r \<in> set (sub_reactors (server w')). built (platform b) me w' r" using w'(7,9) by (simp_all del: upt_Suc)
  ultimately show ?thesis using w'(1,2,4-6) assms(3) s by (simp add: server_init_def idle_def)
qed

section \<open>What holds at every moment\<close>

text \<open>
  No thread of the running program can fail, in whatever order callbacks arrive: whatever the interleaving of its threads has been,
  whatever clients send and however the network behaves, each operation a thread can carry out
  returns. No dangling pointer is followed, no lock is taken twice, no assertion fails, and no
  choice of a reactor is undefined before the counter of the round robin wraps (which is part
  of \<^const>\<open>enabled\<close>).
\<close>

theorem engine_never_fails:
  assumes "socket_documented (os b) sent" and "read_documented (os b)" and "engine_reach b tm tr s" and "enabled e s"
  shows "\<exists>t. engine_op b tm tr e s = Inr t"
  using engine.never_fails [OF assms] .

text \<open>
  C2: the clients in every state of the running program. A client that is still connecting has
  exactly one registration task, in the queue of exactly one sub-reactor; any other has a
  channel of its own that waits for its input and calls its handlers; as long as it is not disconnected
  it is in the connection table, or is just being stored there. No two clients share
  a descriptor, and the mutex is free between two steps.
\<close>

theorem engine_clients:
  assumes "socket_documented (os b) sent" and "read_documented (os b)" and "engine_reach b tm tr s"
    and "conns (sworld s) cn = Some x"
  shows "(state x = kConnecting \<longrightarrow> (\<exists>!r. r \<in> pool s \<and> Register cn r \<in> set (tasks_of s r))) \<and>
     (state x \<noteq> kConnecting \<longrightarrow> (\<exists>c ch. conn_channel x = Some c \<and> heap (sworld s) c = Some ch \<and>
        serves (platform b) cn (sockfd x) ch)) \<and>
     (state x \<noteq> kDisconnected \<longrightarrow> (sockfd x, cn) \<in> set (connections (server (sworld s))) \<or>
        accept_at s = Storing (sockfd x) cn) \<and>
     (\<forall>c y. conns (sworld s) c = Some y \<and> sockfd y = sockfd x \<longrightarrow> c = cn) \<and>
     \<not> connections_locked (server (sworld s))"
proof -
  have inv: "tasks_inv s" "clients_inv (platform b) (sworld s)" "table_inv s"
    using engine_inv [OF assms(1-3)] by (simp_all add: server_inv_def)
  have "state x = kConnecting \<longrightarrow> (\<exists>!r. r \<in> pool s \<and> Register cn r \<in> set (tasks_of s r))"
    using inv(1) assms(4) by (simp add: tasks_inv_def connecting_def)
  moreover have "state x \<noteq> kConnecting \<longrightarrow> (\<exists>c ch. conn_channel x = Some c \<and> heap (sworld s) c = Some ch \<and>
      serves (platform b) cn (sockfd x) ch)"
    using inv(2) assms(4) unfolding clients_inv_def client_ok_def by blast
  moreover have "state x \<noteq> kDisconnected \<longrightarrow> (sockfd x, cn) \<in> set (connections (server (sworld s))) \<or>
      accept_at s = Storing (sockfd x) cn" "\<not> connections_locked (server (sworld s))"
    using inv(3) assms(4) unfolding table_inv_def wf_connections_def by blast+
  moreover have "\<forall>c y. conns (sworld s) c = Some y \<and> sockfd y = sockfd x \<longrightarrow> c = cn"
    using inv(2) assms(4) unfolding clients_inv_def by blast
  ultimately show ?thesis by blast
qed

text \<open>
  C4: whatever the threads do, a client is sent only what is meant for it: a step of the program
  leaves the output of a client as it was, or appends the whole message of a broadcast while it
  is connected, or appends "Echo: " and exactly the bytes just read from its own socket.
\<close>

theorem engine_output:
  assumes "socket_documented (os b) sent" and "read_documented (os b)" and "calls_silent (os b) sent"
    and "engine_reach b tm tr s" and "enabled e s" and "engine_op b tm tr e s = Inr t"
    and "network_silent sent e (kernel (sworld s))" and "conns (sworld s) cn = Some x"
  shows "\<exists>d. stream_of sent cn (sworld t) = stream_of sent cn (sworld s) @ d \<and>
     (d = [] \<or> state x = kConnected \<and> e = Broadcast d \<or>
      state x = kConnected \<and> e = Callback (OnRead cn) \<and> d = ''Echo: '' @ input_of b x (kernel (sworld s)))"
proof -
  obtain d where d: "d \<in> says echo b cn x (kernel (sworld s)) e"
    "stream_of sent cn (sworld t) = stream_of sent cn (sworld s) @ d"
    using engine.output_law [OF assms(1-3) engine_inv [OF assms(1,2,4)] assms(5-8)] by blast
  have "d = [] \<or> state x = kConnected \<and> e = Broadcast d \<or>
      state x = kConnected \<and> e = Callback (OnRead cn) \<and> d = ''Echo: '' @ input_of b x (kernel (sworld s))"
    using d(1) by (cases rule: saysE) (auto simp: replies_def echo_def split: if_splits option.splits)
  with d(2) show ?thesis by blast
qed

text \<open>
  C9: the life of a client, over any number of steps of any threads: it keeps its descriptor,
  its state never goes back, and if it was disconnected while it is in the connection table (it can be:
  when it closes before \<^verbatim>\<open>handleNewConnection\<close> has stored it), its entry is never removed.
\<close>

theorem engine_life:
  assumes "socket_documented (os b) sent" and "read_documented (os b)" and "engine_reach b tm tr s"
    and "(server_step b tm tr (handleMessage b) handleConnection)\<^sup>*\<^sup>* s t" and "conns (sworld s) cn = Some x"
  shows "\<exists>y. conns (sworld t) cn = Some y \<and> sockfd y = sockfd x \<and> state x \<le> state y \<and>
     (state x = kDisconnected \<and> (sockfd x, cn) \<in> set (connections (server (sworld s))) \<longrightarrow>
      (sockfd x, cn) \<in> set (connections (server (sworld t))))"
  using engine.steps_advance [OF assms(1,2) engine_inv [OF assms(1-3)] assms(4)] assms(5) by blast

text \<open>
  C8: no client is left waiting: whatever state the threads have brought the program to, as long
  as a client is connecting there is one sub-reactor whose thread, merely by going on to serve its own
  queue, and whatever the other threads are in the middle of, makes the client connected.
\<close>

theorem engine_registers:
  assumes "socket_documented (os b) sent" and "read_documented (os b)" and "engine_reach b tm tr s"
    and "conns (sworld s) cn = Some x" and "state x = kConnecting"
  shows "\<exists>r es t y. r \<in> pool s \<and> set es \<subseteq> service r \<and>
     server_run b tm tr (handleMessage b) handleConnection es s = Inr t \<and>
     conns (sworld t) cn = Some y \<and> state y = kConnected"
  using engine.registration_completes [OF engine_inv [OF assms(1-3)] assms(4,5)] .

section \<open>A run for the witnesses\<close>

text \<open>
  The socket kernel with a read that keeps to its bound, a release build and a server with one
  sub-reactor. Thread 7 has started it, thread 8 accepts, thread 9 loops the sub-reactor.
\<close>

definition demo_os :: "sock_kernel os" where
  "demo_os = sock_os\<lparr>sys_read := (\<lambda>fd n (s, r, q). case q of [] \<Rightarrow> ((- 1, []), (s, r, q))
     | c # q \<Rightarrow> ((int (min n (length c)), take n c), (s, r(fd := r fd @ take n c), q)))\<rparr>"

definition demo_build :: "sock_kernel build" where
  "demo_build = \<lparr>os = demo_os, ndebug = True, platform = Linux\<rparr>"

lemma demo_documented: "socket_documented (os demo_build) fst" "read_documented (os demo_build)"
  "calls_silent (os demo_build) fst"
  by (auto simp: socket_documented_def demo_build_def demo_os_def sock_os_def failing_os_def min_def fun_eq_iff
      read_documented_def calls_silent_def split: list.splits)

definition demo_state :: "string list \<Rightarrow> (sock_kernel, app_message, app_connection, unit) sthreads" where
  "demo_state q = \<lparr>sworld = \<lparr>kernel = (\<lambda>_. [], \<lambda>_. [], q), heap = Map.empty,
     reactors = [10 \<mapsto> srv_reactor], next_chan = 5, conns = Map.empty,
     server = (setConnectionCallback HandleConnection (srv_setMessageCallback HandleMessage
        (new_server ''0.0.0.0'' 8080 1 4)))\<lparr>sub_reactors := [10]\<rparr>, next_conn = 0, next_rptr = 11\<rparr>,
     accept_at = Waiting, taken = (\<lambda>_. None)\<rparr>"

lemmas demo_defs = demo_state_def demo_build_def demo_os_def sock_os_def failing_os_def new_server_def
  setConnectionCallback_def srv_setMessageCallback_def srv_reactor_def isInLoopThread_def

lemma demo_init: "server_init demo_build 8 (\<lambda>_. 9) (demo_state q)"
  by (simp add: server_init_def wf_pool_def may_touch_def demo_defs)

abbreviation demo_run :: "sock_kernel server_event list \<Rightarrow> (sock_kernel, app_message, app_connection, unit) sthreads \<Rightarrow>
    (sock_kernel, app_message, app_connection, unit) sthreads outcome" where
  "demo_run \<equiv> server_run demo_build 8 (\<lambda>_. 9) (handleMessage demo_build) handleConnection"

lemmas run_defs = demo_defs queue_connection_def choose_reactor_def Let_def cpp_rem_def new_connection_def
  now_def set_option_def on_conn_def get_conn_def runInLoop_def queueInLoop_def get_reactor_def wakeup_def on_reactor_def
  put_reactor_def setMessageCallback_def setConnCloseCallback_def begin_tasks_def end_tasks_def alloc_channel_def
  change_interest_def channel_update_def reactor_updateChannel_def deref_def store_def cpp_assert_def
  epoll_updateChannel_def epoll_update_eq fresh_poller_def kNew_def kAdded_def kDeleted_def establishConnection_def
  updateLastActiveTime_def notify_def handleConnection_def setChannel_def setState_def set_interest_def new_channel_def
  setReadCallback_def setWriteCallback_def setCloseCallback_def setErrorCallback_def setIndex_def loop_of_def
  store_connection_def guarded_def lock_connections_def unlock_connections_def getConnectionCount_def table_put_def
  table_erase_def on_server_def

abbreviation demo_reach :: "(sock_kernel, app_message, app_connection, unit) sthreads \<Rightarrow> bool" where
  "demo_reach \<equiv> engine_reach demo_build 8 (\<lambda>_. 9)"

lemma demo_run_reach: "demo_run es (demo_state q) = Inr t \<Longrightarrow> demo_reach t"
  by (rule reach_run) (rule reach_init, rule demo_init)

text \<open>A client that has been registered, and one that closed before it was stored.\<close>

lemma demo_connected:
  "\<exists>t x. demo_reach t \<and> conns (sworld t) 0 = Some x \<and> state x = kConnected \<and> sockfd x = 6 \<and> accept_at t = Storing 6 0 \<and>
     kernel (sworld t) = ((\<lambda>_. [])(4 := take 4 (wakeup_message Linux)), \<lambda>_. [], q) \<and> enabled (Callback (OnRead 0)) t"
proof -
  have "\<exists>t x. demo_run [Accept 6 \<lparr>sin_addr = 0, sin_port = 0\<rparr>, BeginTasks 10, RunTask 10, EndTasks 10] (demo_state q) = Inr t \<and>
      conns (sworld t) 0 = Some x \<and> state x = kConnected \<and> sockfd x = 6 \<and> accept_at t = Storing 6 0 \<and>
      kernel (sworld t) = ((\<lambda>_. [])(4 := take 4 (wakeup_message Linux)), \<lambda>_. [], q) \<and> enabled (Callback (OnRead 0)) t"
    by (simp add: run_defs)
  with demo_run_reach show ?thesis by blast
qed

lemma demo_stale:
  "\<exists>t x. demo_reach t \<and> conns (sworld t) 0 = Some x \<and> state x = kDisconnected \<and> sockfd x = 6 \<and>
     connections (server (sworld t)) = [(6, 0)]"
proof -
  have "\<exists>t x. demo_run [Accept 6 \<lparr>sin_addr = 0, sin_port = 0\<rparr>, BeginTasks 10, RunTask 10, EndTasks 10,
        Callback (OnRead 0), Store] (demo_state [[]]) = Inr t \<and>
      conns (sworld t) 0 = Some x \<and> state x = kDisconnected \<and> sockfd x = 6 \<and> connections (server (sworld t)) = [(6, 0)]"
    by (simp add: run_defs handleRead_def closeConnection_def server_close_def removeConnection_def)
  with demo_run_reach show ?thesis by blast
qed

lemma demo_accepted:
  "\<exists>t x. demo_reach t \<and> pool t = {10} \<and> conns (sworld t) 0 = Some x \<and> state x = kConnecting"
proof -
  have "\<exists>t x. demo_run [Accept 6 \<lparr>sin_addr = 0, sin_port = 0\<rparr>] (demo_state []) = Inr t \<and> pool t = {10} \<and>
      conns (sworld t) 0 = Some x \<and> state x = kConnecting" by (simp add: run_defs)
  with demo_run_reach show ?thesis by blast
qed

theorem engine_registers_witness:
  "\<exists>s es t y. demo_reach s \<and> set es \<subseteq> {BeginTasks 10, RunTask 10, EndTasks 10} \<and> demo_run es s = Inr t \<and>
     conns (sworld t) 0 = Some y \<and> state y = kConnected"
proof -
  obtain s x where s: "demo_reach s" "pool s = {10}" "conns (sworld s) 0 = Some x" "state x = kConnecting"
    using demo_accepted by blast
  from engine_registers [OF demo_documented(1,2) s(1,3,4)] s(1,2) show ?thesis unfolding service_def by blast
qed

theorem engine_never_fails_witness:
  "\<exists>s t. demo_reach s \<and> engine_op demo_build 8 (\<lambda>_. 9) (Callback (OnRead 0)) s = Inr t"
proof -
  obtain s where s: "demo_reach s" "enabled (Callback (OnRead 0)) s" using demo_connected by blast
  with engine_never_fails [OF demo_documented(1,2) s] show ?thesis by blast
qed

theorem engine_clients_witness:
  "\<exists>s x c ch. demo_reach s \<and> conns (sworld s) 0 = Some x \<and> state x = kConnected \<and> conn_channel x = Some c \<and>
     heap (sworld s) c = Some ch \<and> serves Linux 0 6 ch"
proof -
  obtain s x where s: "demo_reach s" "conns (sworld s) 0 = Some x" "state x = kConnected" "sockfd x = 6"
    using demo_connected by blast
  with engine_clients [OF demo_documented(1,2) s(1,2)] show ?thesis by (auto simp: demo_build_def)
qed

theorem engine_output_witness:
  "\<exists>s t. demo_reach s \<and> engine_op demo_build 8 (\<lambda>_. 9) (Callback (OnRead 0)) s = Inr t \<and>
     (stream_of fst 0 (sworld t) = stream_of fst 0 (sworld s) \<or>
      stream_of fst 0 (sworld t) = stream_of fst 0 (sworld s) @ ''Echo: hi'')"
proof -
  obtain s x where s: "demo_reach s" "enabled (Callback (OnRead 0)) s" "conns (sworld s) 0 = Some x"
      "kernel (sworld s) = ((\<lambda>_. [])(4 := take 4 (wakeup_message Linux)), \<lambda>_. [], [''hi''])"
    using demo_connected [of "[''hi'']"] by blast
  obtain t where t: "engine_op demo_build 8 (\<lambda>_. 9) (Callback (OnRead 0)) s = Inr t"
    using engine.never_fails [OF demo_documented(1,2) s(1,2)] by blast
  have "input_of demo_build x (kernel (sworld s)) = ''hi''"
    by (simp add: input_of_def s(4) demo_defs kBufferSize_def)
  with engine_output [OF demo_documented s(1,2) t _ s(3)] s(1) t show ?thesis by auto
qed

theorem engine_life_witness:
  "\<exists>s x. demo_reach s \<and> conns (sworld s) 0 = Some x \<and> state x = kDisconnected \<and>
     (\<forall>t. (server_step demo_build 8 (\<lambda>_. 9) (handleMessage demo_build) handleConnection)\<^sup>*\<^sup>* s t \<longrightarrow>
        (6, 0) \<in> set (connections (server (sworld t))))"
proof -
  obtain s x where s: "demo_reach s" "conns (sworld s) 0 = Some x" "state x = kDisconnected" "sockfd x = 6"
    "connections (server (sworld s)) = [(6, 0)]" using demo_stale by blast
  have "(6, 0) \<in> set (connections (server (sworld t)))"
    if "(server_step demo_build 8 (\<lambda>_. 9) (handleMessage demo_build) handleConnection)\<^sup>*\<^sup>* s t" for t
    using engine_life [OF demo_documented(1,2) s(1) that s(2)] s(3-5) by auto
  with s(1-3) show ?thesis by blast
qed

text \<open>The program started from a configuration file, on a system where the address can be bound.\<close>

lemma demo_initialized:
  "\<exists>app lk s. initialize memory_spdlog conf_files 4 ''a.conf'' (new_application, new_logger, memory_start) = Inr (True, app, lk) \<and>
     tcp_server app = Some s \<and> srv_ip s = ''0.0.0.0'' \<and> thread_num s = 2"
proof -
  obtain lk where lk: "logger_initialize memory_spdlog ''a.conf'' (new_logger, memory_start) = (True, lk)"
    using memory_ready by blast
  have "wf_value ''0.0.0.0''" by code_simp
  then show ?thesis using stoi_to_string_int
    by (simp add: initialize_def lk load_eq conf_files_def Let_def server_file_meaning getString_def getInt_def getValue_def
        new_server_def setConnectionCallback_def srv_setMessageCallback_def del: split_paired_Ex)
qed

end
