(* ===== verification/EngineLoops.thy ===== *)
theory EngineLoops
  imports Stopping PoolStart EngineThreads
begin

text \<open>
  The order engine from its start to its polling loops: the start of the program establishes the
  invariant of loops, channels and interest lists, under which polling, dispatching, serving,
  accepting and broadcasting never fail, and every round of every loop returns.
\<close>

section \<open>The program's side of the contract\<close>

lemma handleMessage_keeps:
  assumes "socket_keeps (os b) f" and "handleMessage b m cn msg w = Inr w'"
  shows "f (kernel w') = f (kernel w)"
  using assms(2) send_keeps [OF assms(1)] by (auto simp: handleMessage_def elim!: outcome_elims)

interpretation polled_engine: polled_application b sent echo "handleMessage b" handleConnection il for b sent il
  by unfold_locales (rule handleMessage_keeps)

abbreviation engine_loop_op :: "'k build \<Rightarrow> thread_id \<Rightarrow> (reactor_ptr \<Rightarrow> thread_id) \<Rightarrow> 'k loop_event \<Rightarrow>
    ('k, app_message, app_connection, 'z) loops \<Rightarrow> ('k, app_message, app_connection, 'z) loops outcome" where
  "engine_loop_op b tm tr \<equiv> loop_op b tm tr (handleMessage b) handleConnection"

abbreviation engine_loop_steps :: "('k \<Rightarrow> int \<Rightarrow> int \<rightharpoonup> epoll_event) \<Rightarrow> 'k build \<Rightarrow> thread_id \<Rightarrow> (reactor_ptr \<Rightarrow> thread_id) \<Rightarrow>
    ('k, app_message, app_connection, 'z) loops \<Rightarrow> ('k, app_message, app_connection, 'z) loops \<Rightarrow> bool" where
  "engine_loop_steps il b tm tr \<equiv> loop_steps il b tm tr (handleMessage b) handleConnection"

abbreviation engine_loop_reach :: "('k \<Rightarrow> int \<Rightarrow> int \<rightharpoonup> epoll_event) \<Rightarrow> 'k build \<Rightarrow> thread_id \<Rightarrow> (reactor_ptr \<Rightarrow> thread_id) \<Rightarrow>
    ('k, app_message, app_connection, 'z) loops \<Rightarrow> bool" where
  "engine_loop_reach il b tm tr \<equiv> reach (loops_init il b tm tr) (engine_loop_steps il b tm tr)"

section \<open>From the start to the loops\<close>

text \<open>A world whose threads have just been created.\<close>

definition started :: "('k, 'm, 'u, 'z) snet_scheme \<Rightarrow> ('k, 'm, 'u, 'z) loops" where
  "started w = \<lparr>threads = \<lparr>sworld = w, accept_at = Waiting, taken = (\<lambda>_. None)\<rparr>, active = (\<lambda>_. None)\<rparr>"

lemma loops_started:
  assumes "idle s" and "0 < sint (thread_num s)" and "conns w = Map.empty" and "heap w = Map.empty" and "reactors w = Map.empty"
    and "open_listener b (w\<lparr>server := s\<rparr>) = (None, w1)" and "resources_ok b"
    and "epoll_ctl_documented (os b) il" and "create_documented (os b) il fds" and "ndebug b" and "tm \<noteq> me"
  shows "\<exists>w'. start b me (w\<lparr>server := s\<rparr>) = Inr (True, w') \<and> running (server w') \<and>
     length (sub_reactors (server w')) = nat (sint (thread_num s)) \<and> loops_init il b tm tr (started w') \<and>
     (\<forall>r \<in> set (sub_reactors (server w')). \<exists>R ch. reactors w' r = Some R \<and> heap w' (r_wakeup_channel R) = Some ch \<and>
        ch_events ch = kReadEvent (platform b) \<and> r_wakeup_channel R \<in> registrations (r_poller R))"
proof -
  let ?w = "w\<lparr>server := s\<rparr>"
  obtain w' where w': "start b me ?w = Inr (True, w')" "running (server w')" "length (sub_reactors (server w')) = nat (sint (thread_num s))"
    "\<forall>r \<in> set (sub_reactors (server w')). built (platform b) me w' r"
    "server_init b tm tr \<lparr>sworld = w', accept_at = Waiting, taken = (\<lambda>_. None)\<rparr>"
    using idle_starts [OF assms(1-3,6,7,10,11)] by blast
  have idle: "restartable b me ?w" "sub_reactors (server ?w) = []" using assms(1) by (simp_all add: idle_def restartable_def)
  have "registry_inv il w'"
    by (rule start_registry [OF assms(8,9,7) _ _ idle assms(6) w'(1)]) (use assms(4,5) in simp_all)
  moreover have "\<forall>r \<in> set (sub_reactors (server w')). \<exists>R ch. reactors w' r = Some R \<and> heap w' (r_wakeup_channel R) = Some ch \<and>
      ch_events ch = kReadEvent (platform b) \<and> r_wakeup_channel R \<in> registrations (r_poller R)"
    using w'(4) unfolding built_def by blast
  ultimately show ?thesis using w' by (simp add: loops_init_def started_def)
qed

section \<open>What holds at every moment\<close>

text \<open>
  C5: no thread of the running program can fail: whatever the interleaving of its threads has been,
  whatever clients send and however the network behaves, a loop that polls gets a list of live channels
  and no stale pointer, the callbacks of each of them find their reactor or their connection, and
  serving the queue, accepting, storing and broadcasting return as well. This holds of both pollers.
  No lock is taken twice, no assertion fails, and no choice of a reactor is undefined before the
  counter of the round robin wraps (which is part of \<^const>\<open>enabled\<close>).
\<close>

theorem engine_loops_never_fail:
  assumes "kernel_documented (os b) sent il" and "engine_loop_reach il b tm tr s" and "loop_enabled il e s"
  shows "\<exists>t. engine_loop_op b tm tr e s = Inr t \<and>
     (\<forall>r cs. active t r = Some cs \<longrightarrow> (\<forall>c \<in> set cs. \<exists>ch. heap (world_of t) c = Some ch \<and> ch_reactor ch = r))"
proof -
  have "loops_inv il b tm tr s" using polled_engine.loops.reach_inv [OF assms(2)] assms(1) by blast
  from polled_engine.loop_op_inv [OF assms(1) this assms(3)] obtain t where
    "engine_loop_op b tm tr e s = Inr t" "loops_inv il b tm tr t" by blast
  then show ?thesis by (fastforce simp: loops_inv_def active_inv_def chans_def)
qed

text \<open>
  C19: every round of every loop returns: from any state the threads can reach in which the loop of
  a sub-reactor is about to poll, polling, handling every active channel and running every
  queued task ends, and what it does is a sequence of the steps of that loop, after which it is
  about to poll again.
\<close>

theorem engine_round_returns:
  assumes "kernel_documented (os b) sent il" and "engine_loop_reach il b tm tr s"
    and "r \<in> pool (threads s)" and "active s r = None"
  shows "\<exists>t. loop_round b (invoke b (tr r) (handleMessage b) handleConnection) (run_task b (tr r) handleConnection) r (world_of s) =
       Inr (world_of t) \<and> (steps_in (round_of r) il b tm tr (handleMessage b) handleConnection)\<^sup>*\<^sup>* s t \<and>
     active t r = None \<and> r \<in> pool (threads t)"
proof -
  have "loops_inv il b tm tr s" using polled_engine.loops.reach_inv [OF assms(2)] assms(1) by blast
  from polled_engine.round_returns [OF assms(1) this assms(3,4)] assms(3) loop_frame_pool show ?thesis by metis
qed

section \<open>A run for the witnesses\<close>

text \<open>
  A kernel that numbers descriptors, knows the open ones and keeps interest lists; no client has
  sent anything. Thread 7 starts the program, thread 8 accepts, thread 9 loops the sub-reactors.
\<close>

type_synonym loop_kernel = "(nat \<times> int set) \<times> interest_kernel"

definition loop_os :: "loop_kernel os" where
  "loop_os = failing_os\<lparr>
     sys_socket := (\<lambda>((n, S), k). (int n, (Suc n, insert (int n) S), k)),
     sys_eventfd := (\<lambda>((n, S), k). (int n, (Suc n, insert (int n) S), k)),
     sys_epoll_create1 := (\<lambda>((n, S), k). (int n, (Suc n, insert (int n) S), k(int n := Map.empty))),
     sys_close := (\<lambda>fd ((n, S), k). ((n, S - {fd}), \<lambda>e. (k e)(fd := None))),
     sys_bind := (\<lambda>_ _ k. (0, k)), sys_listen := (\<lambda>_ k. (0, k)),
     sys_epoll_ctl := (\<lambda>epfd op fd ev (n, k). case sys_epoll_ctl interest_os epfd op fd ev k of (ret, k) \<Rightarrow> (ret, n, k)),
     sys_epoll_wait := (\<lambda>epfd m t (n, k). case sys_epoll_wait interest_os epfd m t k of (evs, k) \<Rightarrow> (evs, n, k))\<rparr>"

definition loop_build :: "loop_kernel build" where
  "loop_build = \<lparr>os = loop_os, ndebug = True, platform = Linux\<rparr>"

definition open_fds :: "loop_kernel \<Rightarrow> int set" where
  "open_fds k = {fd \<in> snd (fst k). fd < int (fst (fst k))}"

lemma loop_os_created: "create_documented loop_os snd open_fds"
  by (auto simp: create_documented_def loop_os_def open_fds_def failing_os_def split: prod.splits)

lemma loop_os_ctl: "epoll_ctl_documented loop_os snd"
  using interest_os_ctl by (simp add: epoll_ctl_documented_def loop_os_def split: prod.splits)

lemma loop_os_documented: "kernel_documented loop_os (\<lambda>_ _. []) snd"
proof -
  have "epoll_wait_documented loop_os snd"
    using interest_os_wait by (simp add: epoll_wait_documented_def loop_os_def split: prod.splits)
  then show ?thesis
    using loop_os_ctl by (simp add: kernel_documented_def socket_documented_def read_documented_def
        socket_keeps_def wait_documented_def loop_os_def failing_os_def)
qed

definition loop_net :: "(loop_kernel, app_message, app_connection) snet" where
  "loop_net = \<lparr>kernel = ((4, {}), \<lambda>_. Map.empty), heap = Map.empty, reactors = Map.empty, next_chan = 0, conns = Map.empty,
     server = new_server [] 0 1 1, next_conn = 0, next_rptr = 20\<rparr>"

abbreviation loop_reach :: "(loop_kernel, app_message, app_connection, unit) loops \<Rightarrow> bool" where
  "loop_reach \<equiv> engine_loop_reach snd loop_build 8 (\<lambda>_. 9)"

text \<open>A started program with two loops, both about to poll.\<close>

lemma loop_start:
  "\<exists>s r r'. loop_reach s \<and> sub_reactors (server (world_of s)) = [r, r'] \<and> active s = (\<lambda>_. None)"
proof -
  let ?s = "setConnectionCallback HandleConnection (srv_setMessageCallback HandleMessage (new_server ''0.0.0.0'' 8080 2 4))"
  note defs = setConnectionCallback_def srv_setMessageCallback_def new_server_def
  have s: "idle ?s" "0 < sint (thread_num ?s)" "nat (sint (thread_num ?s)) = 2" by (simp_all add: idle_def defs)
  obtain w1 where w1: "open_listener loop_build (loop_net\<lparr>server := ?s\<rparr>) = (None, w1)"
    by (simp add: open_listener_def listen_on_def bind_and_listen_def loop_build_def loop_os_def loop_net_def failing_os_def Let_def defs)
  have ok: "resources_ok loop_build" by (simp add: resources_ok_def loop_build_def loop_os_def split: prod.splits)
  have "conns loop_net = Map.empty" "heap loop_net = Map.empty" "reactors loop_net = Map.empty" by (simp_all add: loop_net_def)
  from loops_started [OF s(1,2) this w1 ok, of snd open_fds 8 7 "\<lambda>_. 9"] obtain w' :: "(loop_kernel, app_message, app_connection) snet" where
    w': "length (sub_reactors (server w')) = 2" "loops_init snd loop_build 8 (\<lambda>_. 9) (started w')"
    using loop_os_created loop_os_ctl s(3) by (auto simp: loop_build_def)
  then obtain r r' where "sub_reactors (server w') = [r, r']" by (auto simp: numeral_2_eq_2 length_Suc_conv)
  with reach_init [of "loops_init snd loop_build 8 (\<lambda>_. 9)", OF w'(2)] show ?thesis
    by (intro exI [of _ "started w'"]) (simp add: started_def)
qed

theorem engine_loops_never_fail_witness:
  "\<exists>s r t. loop_reach s \<and> engine_loop_op loop_build 8 (\<lambda>_. 9) (Poll r) s = Inr t"
proof -
  obtain s r r' where s: "loop_reach s" "sub_reactors (server (world_of s)) = [r, r']"
    "active s = (\<lambda>_. None)" using loop_start by blast
  have doc: "kernel_documented (os loop_build) (\<lambda>_ _. []) snd" using loop_os_documented by (simp add: loop_build_def)
  have "loop_enabled snd (Poll r) s" using s(2,3) by simp
  from engine_loops_never_fail [OF doc s(1) this] s(1) show ?thesis by blast
qed

theorem engine_round_returns_witness:
  "\<exists>s r t. loop_reach s \<and>
     loop_round loop_build (invoke loop_build 9 (handleMessage loop_build) handleConnection)
       (run_task loop_build 9 handleConnection) r (world_of s) = Inr (world_of t) \<and> active t r = None"
proof -
  obtain s r r' where s: "loop_reach s" "sub_reactors (server (world_of s)) = [r, r']"
    "active s = (\<lambda>_. None)" using loop_start by blast
  have doc: "kernel_documented (os loop_build) (\<lambda>_ _. []) snd" using loop_os_documented by (simp add: loop_build_def)
  have "r \<in> pool (threads s)" "active s r = None" using s(2,3) by simp_all
  from engine_round_returns [OF doc s(1) this] s(1) show ?thesis by blast
qed

end
