(* ===== verification/EngineStop.thy ===== *)
theory EngineStop
  imports EngineLoops
begin

text \<open>
  The order engine from its start to its end: the start of the program establishes the invariant
  under which its threads can be stopped, stopping it returns or waits for itself, and the
  threads that are waited for come to their end.
\<close>

section \<open>From the start to a server that can be stopped\<close>

text \<open>A server whose threads have just been created and that nobody stops.\<close>

definition serving :: "('k, 'm, 'u, 'z) snet_scheme \<Rightarrow> ('k, 'm, 'u, 'z) stopping" where
  "serving w = \<lparr>looping = started w, stop_at = Serving, checked = {}, ended = {}\<rparr>"

text \<open>The listening socket is open.\<close>

lemma open_listener_opened:
  assumes "descriptors_documented (os b) opened" and "open_listener b w = (None, w1)"
  shows "listen_fd (server w1) \<in> opened (kernel w1)"
proof -
  obtain fd k where l: "listen_on b (srv_ip (server w)) (srv_port (server w)) (kernel w) = (None, fd, k)"
    and w1: "w1 = on_server (\<lambda>s. s\<lparr>listen_fd := fd\<rparr>) (w\<lparr>kernel := k\<rparr>)"
    using assms(2) by (auto simp: open_listener_def split: prod.splits)
  obtain f k1 where sock: "sys_socket (os b) (kernel w) = (f, k1)" by force
  let ?k = "snd (sys_setsockopt (os b) f SO_REUSEPORT (snd (sys_setsockopt (os b) f SO_REUSEADDR k1)))"
  have f: "\<not> f < 0" "f = fd" "\<exists>addr. bind_and_listen b f addr ?k = (None, k)"
    using l sock by (auto simp: listen_on_def Let_def split: option.splits prod.splits if_splits)
  then have "opened k = opened ?k" using bind_and_listen_opened [OF assms(1)] by blast
  also have "\<dots> = opened k1" by (simp add: descriptors_keep(2) [OF assms(1)])
  also have "\<dots> = insert fd (opened (kernel w))" using assms(1) sock f(1,2) by (auto simp: descriptors_documented_def)
  finally show ?thesis using w1 by (simp add: on_server_def)
qed

lemma serving_started:
  assumes "idle s" and "0 < sint (thread_num s)" and "conns w = Map.empty" and "heap w = Map.empty" and "reactors w = Map.empty"
    and "open_listener b (w\<lparr>server := s\<rparr>) = (None, w1)" and "resources_ok b"
    and "epoll_ctl_documented (os b) il" and "create_documented (os b) il fds" and "descriptors_documented (os b) fds"
    and "ndebug b" and "tm \<noteq> me"
  shows "\<exists>w'. start b me (w\<lparr>server := s\<rparr>) = Inr (True, w') \<and> running (server w') \<and>
     length (sub_reactors (server w')) = nat (sint (thread_num s)) \<and> stop_init il b me tm tr (serving w') \<and>
     (\<forall>r \<in> set (sub_reactors (server w')). \<exists>R ch. reactors w' r = Some R \<and> heap w' (r_wakeup_channel R) = Some ch \<and>
        ch_events ch = kReadEvent (platform b) \<and> r_wakeup_channel R \<in> registrations (r_poller R))"
proof -
  let ?w = "w\<lparr>server := s\<rparr>" and ?m = "next_rptr w"
  obtain w' where w': "start b me ?w = Inr (True, w')" "running (server w')" "length (sub_reactors (server w')) = nat (sint (thread_num s))"
    "loops_init il b tm tr (started w')"
    "\<forall>r \<in> set (sub_reactors (server w')). \<exists>R ch. reactors w' r = Some R \<and> heap w' (r_wakeup_channel R) = Some ch \<and>
        ch_events ch = kReadEvent (platform b) \<and> r_wakeup_channel R \<in> registrations (r_poller R)"
    using loops_started [OF assms(1-9,11,12)] by blast
  have idle: "restartable b me ?w" "sub_reactors (server ?w) = []" "reactor_threads (server ?w) = []"
    using assms(1) by (simp_all add: idle_def restartable_def)
  from start_law [OF idle(1) assms(6,7) refl refl] w'(1) idle(2,3) obtain c ch R where
    front: "conns w' = Map.empty" "main_reactor (server w') = Some ?m" "main_thread (server w') = Some ?m"
      "reactor_threads (server w') = sub_reactors (server w')" "?m \<notin> set (sub_reactors (server w'))" "reactors w' ?m = Some R"
      "accept_channel (server w') = Some c" "heap w' c = Some ch" "ch_reactor ch = ?m" "read_callback ch = Some OnAccept"
    using assms(3) by (auto simp del: upt_Suc)
  note apart = start_apart [OF assms(8,9,7) _ _ idle(1,2) assms(6) w'(1)]
  have fds: "fds_apart w'" "fd_apart fds (listen_fd (server w')) w'"
    using apart open_listener_opened [OF assms(10,6)] assms(4,5) by simp_all
  have "may_touch b me R" using assms(11) by (simp add: may_touch_def)
  then have "main_ok b me w'" using front(2,5,6) fds(1) unfolding main_ok_def fds_apart_def by metis
  moreover have "acceptor_own w'" using front by (simp add: acceptor_own_def)
  moreover have "listener_apart w'" using fds(2) front(1) by (simp add: listener_apart_def fd_apart_def)
  ultimately have "stop_init il b me tm tr (serving w')"
    using w'(2,4) front by (simp add: stop_init_def serving_def started_def)
  with w' show ?thesis by blast
qed


section \<open>Stopping\<close>

abbreviation engine_stop_op :: "'k build \<Rightarrow> thread_id \<Rightarrow> thread_id \<Rightarrow> (reactor_ptr \<Rightarrow> thread_id) \<Rightarrow> 'k stop_event \<Rightarrow>
    ('k, app_message, app_connection, 'z) stopping \<Rightarrow> ('k, app_message, app_connection, 'z) stopping outcome" where
  "engine_stop_op b me tm tr \<equiv> stop_op b me tm tr (handleMessage b) handleConnection"

abbreviation engine_stop_reach :: "('k \<Rightarrow> int \<Rightarrow> int \<rightharpoonup> epoll_event) \<Rightarrow> 'k build \<Rightarrow> thread_id \<Rightarrow> thread_id \<Rightarrow> (reactor_ptr \<Rightarrow> thread_id) \<Rightarrow>
    ('k, app_message, app_connection, 'z) stopping \<Rightarrow> bool" where
  "engine_stop_reach il b me tm tr \<equiv> reach (stop_init il b me tm tr) (stop_steps il b me tm tr (handleMessage b) handleConnection)"



section \<open>A run for the witnesses\<close>

lemma loop_os_descriptors: "descriptors_documented loop_os open_fds"
  by (auto simp: descriptors_documented_def loop_os_def open_fds_def failing_os_def split: prod.splits)

lemma loop_os_stop: "stop_documented (os loop_build) (\<lambda>_ _. []) snd"
  using loop_os_documented by (auto simp: stop_documented_def close_documented_def loop_build_def) (auto simp: loop_os_def)


text \<open>A started program that nobody stops yet.\<close>

abbreviation stop_reach :: "(loop_kernel, app_message, app_connection, unit) stopping \<Rightarrow> bool" where
  "stop_reach \<equiv> engine_stop_reach snd loop_build 7 8 (\<lambda>_. 9)"

lemma serving_reached: "\<exists>s. stop_reach s \<and> stop_at s = Serving"
proof -
  let ?s = "setConnectionCallback HandleConnection (srv_setMessageCallback HandleMessage (new_server ''0.0.0.0'' 8080 2 4))"
  note defs = setConnectionCallback_def srv_setMessageCallback_def new_server_def
  have s: "idle ?s" "0 < sint (thread_num ?s)" by (simp_all add: idle_def defs)
  obtain w1 where w1: "open_listener loop_build (loop_net\<lparr>server := ?s\<rparr>) = (None, w1)"
    by (simp add: open_listener_def listen_on_def bind_and_listen_def loop_build_def loop_os_def loop_net_def failing_os_def Let_def defs)
  have ok: "resources_ok loop_build" by (simp add: resources_ok_def loop_build_def loop_os_def split: prod.splits)
  have "conns loop_net = Map.empty" "heap loop_net = Map.empty" "reactors loop_net = Map.empty" by (simp_all add: loop_net_def)
  from serving_started [OF s this w1 ok, of snd open_fds 8 7 "\<lambda>_. 9"] obtain w' :: "(loop_kernel, app_message, app_connection) snet" where
    "stop_init snd loop_build 7 8 (\<lambda>_. 9) (serving w')"
    using loop_os_created loop_os_ctl loop_os_descriptors by (auto simp: loop_build_def)
  with reach_init [of "stop_init snd loop_build 7 8 (\<lambda>_. 9)"] show ?thesis
    by (intro exI [of _ "serving w'"]) (simp add: serving_def)
qed



end
