(* ===== verification/Spec2Isabelle.thy ===== *)
theory Spec2Isabelle
  imports Wakeup Timers EngineStop
begin

text \<open>
  \<^bold>\<open>OrderEngine: a verification library.\<close>

  \<^bold>\<open>The program.\<close> OrderEngine is a C++ server skeleton. A main reactor accepts clients and deals
  them out to sub-reactors, each an event loop in a thread of its own; a loop polls its
  channels, dispatches their events to connections, and runs tasks other threads have queued;
  connections buffer input and output; the application reads an INI file, starts the server
  and answers every message with an echo. The services, the Redis client, the database and the
  message queue of its documentation are declarations or plans without code.

  \<^bold>\<open>Conventions.\<close> A C++ call is a function on the state it can reach that gives an \<open>outcome\<close>:
  \<^const>\<open>Inr\<close> the state (and result) it returns with, or \<^const>\<open>Inl\<close> the way it fails (a failed
  assertion, an abort, an exception, a mutex locked twice by its holder, a loop that never ends,
  undefined behaviour). Objects behind pointers live in maps from addresses; a stale pointer is
  undefined. The operating system is the parameter \<open>'k os\<close>, one function per system call, and
  what a theorem needs of it is a hypothesis named \<open>..._documented\<close>; so are spdlog, the file
  system and the arithmetic of \<^verbatim>\<open>double\<close>. \<open>'k build\<close> adds the platform (epoll or select) and
  whether assertions are compiled in. Callbacks and tasks are values of a type parameter or of
  a datatype of closures, interpreted by an argument. An \<^verbatim>\<open>int\<close> is a 32 bit word read with
  \<^const>\<open>sint\<close> where its range matters.

  \<^bold>\<open>Theories and sources\<close> (under \<^verbatim>\<open>src/\<close>):

  \<^item> \<open>Prelude\<close>: failures, outcomes, loops with effects (\<open>ofold\<close>, \<open>owhile\<close>), assertions,
    reachability, and two interfaces: \<open>inductive_invariant\<close> for step relations, and \<open>simulation\<close> for
    operations whose histories refine a specification (pollers, channel calls, the task queue,
    timers). \<open>CppStd\<close>: the string functions, \<^verbatim>\<open>stoi\<close> and \<^verbatim>\<open>to_string\<close>. \<open>Os\<close>: the system calls.
  \<^item> \<open>Config\<close> (\<^verbatim>\<open>common/config.cpp\<close>): the INI parser, loading, typed getters and setters. Parsing is
    total and equals the meaning of the text, printing and parsing round-trips, values read back,
    failing loads keep the settings. The interface \<open>kv_store\<close> is the contract of the setters.
  \<^item> \<open>Logger\<close> (\<^verbatim>\<open>common/logger.cpp\<close>): set-up in a \<^verbatim>\<open>try\<close> block, guarded calls, levels, shutdown. The
    log is the sequence of messages filtered by the level set last; initialising works once per
    shutdown.
  \<^item> \<open>Channel\<close> (\<^verbatim>\<open>network/channel.cpp\<close>): interest masks and the dispatch of returned events.
  \<^item> \<open>Poller\<close> (\<^verbatim>\<open>network/poller.cpp\<close>): the epoll and the select poller behind the interface
    \<open>poller_contract\<close>. Both implement a set of registered channels; table, channel indices and the
    kernel's interest list stay in step. \<open>Polling\<close>: a poll of either follows no stale pointer and
    changes nothing but the returned events of channels.
  \<^item> \<open>Reactor\<close>, \<open>EventLoop\<close> (\<^verbatim>\<open>network/reactor.cpp\<close>): the operations and what they promise: the
    channel registry, construction and destruction, the task queue, when the loop returns.
    \<open>Wakeup\<close>: the loop interleaved with other threads as a step relation, and no lost wakeup as an
    invariant of it. \<open>Timers\<close>: \<^verbatim>\<open>runAt\<close>, \<^verbatim>\<open>runAfter\<close>, \<^verbatim>\<open>runEvery\<close> with their sleeping threads.
  \<^item> \<open>TcpConnection\<close>, \<open>ConnectionProps\<close> (\<^verbatim>\<open>network/tcp_connection.cpp\<close>): the life cycle, sending
    with partial writes, reading, errors, the peer address. Output and input lose, repeat and
    reorder nothing; a connection closes once.
  \<^item> \<open>TcpServer\<close> (\<^verbatim>\<open>network/tcp_server.cpp\<close>), \<open>ServerProps\<close> (round robin, table, registration,
    broadcast), \<open>AcceptLoop\<close> (the accept loop drains the backlog), \<open>ServerLife\<close> (start, restart,
    stop, destruction).
  \<^item> \<open>Application\<close> (\<^verbatim>\<open>main.cpp\<close>): initialisation of logger, configuration and server, the echo through
    a whole round of a loop, the main loop and the exit codes of \<^verbatim>\<open>main()\<close>.
  \<^item> \<open>ServerHandlers\<close>, \<open>ServerThreads\<close>, \<open>ServerProgress\<close>, \<open>ClientOutput\<close>: the running server with all its
    threads, as a step relation over the phases of \<^verbatim>\<open>handleNewConnection\<close> and \<^verbatim>\<open>doPendingTasks\<close>, the
    callbacks of the connections, broadcasts and the network. The interface \<open>server_application\<close> is
    the contract between the server and the application's two callbacks; under it no step fails, an
    invariant holds of reactors, tasks, clients and table, every client gets registered, and a client
    is sent only broadcasts and replies to its own input.
  \<^item> \<open>EngineThreads\<close>: the handlers of \<^verbatim>\<open>main.cpp\<close> keep that contract, and the laws hold of the program.
  \<^item> \<open>KernelViews\<close>, \<open>Registry\<close>, \<open>LoopThreads\<close>, \<open>LoopRounds\<close>: the loops of the sub-reactors written out
    (\<^verbatim>\<open>Reactor::loop\<close>) and interleaved with the other threads: a loop polls, handles one active channel
    after the other and serves its queue. The interface \<open>polled_application\<close> extends
    \<open>server_application\<close>; under it the pollers, the channels and the interest lists of all reactors
    stay in step, no poll and no callback meets a stale pointer, and every round returns and is
    a sequence of these steps. \<open>PoolStart\<close>: the reactors a first start constructs satisfy the invariant.
  \<^item> \<open>Stopping\<close> (\<^verbatim>\<open>TcpServer::stop\<close>, the test of \<^verbatim>\<open>quit_\<close> in \<^verbatim>\<open>Reactor::loop\<close>): \<^verbatim>\<open>stop()\<close> as a thread of its
    own, whose steps run between those of the loops: closing the acceptor, telling each reactor to quit, joining each
    thread, closing the connections. Its steps make up the function of \<open>TcpServer\<close>; the invariant of the loops
    outlives them, the only one that does not return is closing the connections with a connected
    client, and from every state the loops come to their end.
  \<^item> \<open>EngineLoops\<close>, \<open>EngineStop\<close>: the program on these loops, from \<^verbatim>\<open>initialize()\<close> and \<^verbatim>\<open>start()\<close> over any number of
    rounds to its end.

  \<^bold>\<open>How they compose.\<close> The state types extend each other as the components do: channels and the
  kernel (\<open>net\<close>), reactors (\<open>rnet\<close>), then timers (\<open>tnet\<close>) or connections (\<open>cnet\<close>), then the server
  (\<open>snet\<close>); every operation is polymorphic in what is added above it. The laws of a lower level
  (\<open>change_interest_law\<close>, \<open>queueInLoop_law\<close>, \<open>send_law\<close> and the like) carry the proofs of the next.
  Above them the threads of the server are composed (\<open>sthreads\<close>), and then the loops with them
  (\<open>loops\<close>), and then the thread that stops them (\<open>stopping\<close>): a step is what one thread does between
  two points where the order of the code lets another come in between.

  \<^bold>\<open>Loops and termination.\<close> Loops over a vector are structural. Three loops may run forever and
  are partial functions whose divergence is \<^const>\<open>None\<close>: the reactor's loop, the accept loop
  and the main loop. For each it is proved when it returns: the reactor's loop exactly when some
  round leaves the quit flag set, the accept loop for every finite backlog, the main loop only
  when something clears the running flag, which nothing in the program does. No fuel is used.

  \<^bold>\<open>Defects.\<close> Several theorems state behaviour the code hardly intends: stopping with a connected
  client waits for a lock the caller holds, and frees the accept channel before the loop that
  may be handling it has ended; a loop asserts that it runs in the constructing
  thread, and loses wakeups without the assertion; the round robin counter wraps; a restarted
  server uses its stopped reactors; signals do not end the program; a refused start exits with 0;
  a far timer is undefined; a second initialisation of the logger fails after replacing it; a
  client that closes before it is stored in the table stays there for good; the channel of a
  closed client is never given up, and no channel of a client ever waits for output.

  \<^bold>\<open>Not modelled.\<close> \<^verbatim>\<open>OrderService\<close>, \<^verbatim>\<open>InventoryService\<close> and \<^verbatim>\<open>RedisClient\<close> have headers only. Text
  written to the log and the console is left out of every operation but the logger's own. The
  memory model is sequentially consistent at the granularity of the steps of \<open>Wakeup\<close>, \<open>ServerThreads\<close>,
  \<open>LoopThreads\<close> and \<open>Stopping\<close>: there one poll, one handled channel, one callback, one task, one broadcast, each
  of the two phases of accepting and each step of \<^verbatim>\<open>stop()\<close> is a step, so that what happens inside of them is not interleaved. The
  rounds of the main reactor are the event \<open>Accept\<close>; that such a round may meet the freed accept channel is
  the lemma \<open>accept_channel_freed\<close>. In the theories below them an
  operation runs to its end, and other threads appear as arguments (\<open>join\<close>, \<open>sleep\<close>). Reference counts of shared
  pointers are not kept: an object stays until its destructor is called. Exceptions of the
  standard library for exhausted resources (memory, threads) do not occur.
\<close>

end
